(* ===== verification/Fabko_Prelude.thy ===== *)
theory Fabko_Prelude
  imports Main
begin

text \<open>
  Shared vocabulary of the development: the loop combinator all unbounded loops are written with
  together with its proof interfaces (partial correctness, total correctness, divergence), the
  functions of the C++ standard library the program calls (\<open>std::ranges::max_element\<close>,
  \<open>std::ranges::unique\<close>, \<open>std::to_string\<close>), and list lemmas.
\<close>

section \<open>Loops that may not return\<close>

text \<open>
  One round of a loop yields \<open>None\<close> when the round itself does not return, \<open>Some (Inl s)\<close> to
  go on from \<open>s\<close>, \<open>Some (Inr r)\<close> to leave the loop with \<open>r\<close>. The loop yields \<open>None\<close> when it
  does not return.
\<close>

partial_function (option) loop_until :: "('s \<Rightarrow> ('s + 'r) option) \<Rightarrow> 's \<Rightarrow> 'r option" where
  "loop_until f s =
     (case f s of
        None \<Rightarrow> None
      | Some (Inl s') \<Rightarrow> loop_until f s'
      | Some (Inr r) \<Rightarrow> Some r)"

declare loop_until.simps [code]

lemma loop_until_Inl: "f s = Some (Inl s') \<Longrightarrow> loop_until f s = loop_until f s'"
  by (subst loop_until.simps) simp

lemma loop_until_Inr: "f s = Some (Inr r) \<Longrightarrow> loop_until f s = Some r"
  by (subst loop_until.simps) simp

lemma loop_until_None: "f s = None \<Longrightarrow> loop_until f s = None"
  by (subst loop_until.simps) simp

lemmas loop_until_round = loop_until_Inl loop_until_Inr loop_until_None

text \<open>Partial correctness: an invariant of the rounds and what it says of a result.\<close>

locale loop_partial =
  fixes round :: "'s \<Rightarrow> ('s + 'r) option"
    and inv :: "'s \<Rightarrow> bool"
    and post :: "'r \<Rightarrow> bool"
  assumes round_inv: "inv s \<Longrightarrow> round s = Some (Inl s') \<Longrightarrow> inv s'"
    and round_post: "inv s \<Longrightarrow> round s = Some (Inr r) \<Longrightarrow> post r"
begin

lemma loop_post:
  assumes ret: "loop_until round s = Some r" and init: "inv s"
  shows "post r"
proof -
  have "round = round \<longrightarrow> inv s \<longrightarrow> post r"
  proof (rule loop_until.raw_induct [where P = "\<lambda>f s r. f = round \<longrightarrow> inv s \<longrightarrow> post r",
        OF _ ret])
    fix loop f s r
    assume IH: "\<And>f s r. loop f s = Some r \<Longrightarrow> f = round \<longrightarrow> inv s \<longrightarrow> post r"
      and eq: "(case f s of None \<Rightarrow> None | Some (Inl s') \<Rightarrow> loop f s' | Some (Inr r) \<Rightarrow> Some r)
        = Some r"
    show "f = round \<longrightarrow> inv s \<longrightarrow> post r"
    proof (intro impI)
      assume f: "f = round" and s: "inv s"
      from eq f s show "post r"
        by (auto split: option.splits sum.splits dest: round_inv round_post
            IH [THEN mp, THEN mp, OF _ refl])
    qed
  qed
  with init show ?thesis by blast
qed

end

text \<open>Total correctness: every round returns, and going on descends in a well-founded relation.\<close>

locale loop_total = loop_partial +
  fixes descent :: "('a \<times> 'a) set"
  assumes wf_descent: "wf descent"
    and round_returns: "inv s \<Longrightarrow> \<exists>out. round s = Some out"
    and round_descends: "inv s \<Longrightarrow> round s = Some (Inl s') \<Longrightarrow> (s', s) \<in> descent"
begin

lemma loop_returns: "inv s \<Longrightarrow> \<exists>r. loop_until round s = Some r \<and> post r"
proof (induction s rule: wf_induct_rule [OF wf_descent])
  case (1 s)
  obtain out where out: "round s = Some out"
    using round_returns [OF 1(2)] by blast
  show ?case
  proof (cases out)
    case (Inl s')
    with out have s': "round s = Some (Inl s')" by simp
    show ?thesis
      using 1(1) [OF round_descends [OF 1(2) s'] round_inv [OF 1(2) s']]
      by (simp add: loop_until_Inl [of round, OF s'])
  next
    case (Inr r)
    with out have r: "round s = Some (Inr r)" by simp
    show ?thesis
      using round_post [OF 1(2) r] by (simp add: loop_until_Inr [of round, OF r])
  qed
qed

end

text \<open>Divergence: states from which every round goes on.\<close>

locale loop_diverging =
  fixes round :: "'s \<Rightarrow> ('s + 'r) option"
    and stuck :: "'s \<Rightarrow> bool"
  assumes round_goes_on: "stuck s \<Longrightarrow> round s = None \<or> (\<exists>s'. round s = Some (Inl s') \<and> stuck s')"
begin

sublocale never: loop_partial round stuck "\<lambda>_. False"
proof unfold_locales
  fix s s' assume "stuck s" and "round s = Some (Inl s')"
  then show "stuck s'" using round_goes_on [of s] by auto
next
  fix s r assume "stuck s" and "round s = Some (Inr r)"
  then show False using round_goes_on [of s] by auto
qed

lemma loop_diverges: "stuck s \<Longrightarrow> loop_until round s = None"
  using never.loop_post [of s] by (cases "loop_until round s") auto

end

text \<open>Two loops whose rounds agree on an invariant are equal there.\<close>

locale loop_agreeing =
  fixes round round' :: "'s \<Rightarrow> ('s + 'r) option"
    and inv :: "'s \<Rightarrow> bool"
  assumes rounds_agree: "inv s \<Longrightarrow> round s = round' s"
    and round_inv: "inv s \<Longrightarrow> round s = Some (Inl s') \<Longrightarrow> inv s'"
begin

lemma round'_Inl: "inv s \<Longrightarrow> round s = Some (Inl s') \<Longrightarrow> loop_until round' s = loop_until round' s'"
  by (rule loop_until_Inl) (simp add: rounds_agree [symmetric])

lemma round'_Inr: "inv s \<Longrightarrow> round s = Some (Inr r) \<Longrightarrow> loop_until round' s = Some r"
  by (rule loop_until_Inr) (simp add: rounds_agree [symmetric])

sublocale forward: loop_partial round "\<lambda>s. inv s \<and> loop_until round' s = goal" "\<lambda>r. goal = Some r" for goal
  by unfold_locales (auto simp: round'_Inl [symmetric] round'_Inr intro: round_inv)

sublocale backward: loop_partial round' "\<lambda>s. inv s \<and> loop_until round s = goal" "\<lambda>r. goal = Some r" for goal
proof unfold_locales
  fix s s'
  assume s: "inv s \<and> loop_until round s = goal" and "round' s = Some (Inl s')"
  then have r: "round s = Some (Inl s')" using rounds_agree [of s] by auto
  show "inv s' \<and> loop_until round s' = goal"
    using s round_inv [OF _ r] unfolding loop_until_Inl [of round, OF r] by blast
next
  fix s r
  assume s: "inv s \<and> loop_until round s = goal" and "round' s = Some (Inr r)"
  then have r: "round s = Some (Inr r)" using rounds_agree [of s] by auto
  show "goal = Some r" using s unfolding loop_until_Inr [of round, OF r] by blast
qed

lemma loops_agree:
  assumes "inv s"
  shows "loop_until round s = loop_until round' s"
proof (cases "loop_until round s")
  case None
  have "loop_until round' s \<noteq> Some r" for r
    using backward.loop_post [of s r "loop_until round s"] assms None by (metis option.discI)
  then have "loop_until round' s = None" by (cases "loop_until round' s") auto
  then show ?thesis using None by simp
next
  case (Some r)
  then show ?thesis using forward.loop_post [of s r "loop_until round' s"] assms by metis
qed

end

section \<open>Functions of the C++ standard library\<close>

text \<open>\<open>std::ranges::max_element\<close>: the first of the greatest elements under a strict order.\<close>

fun max_element_from :: "('a \<Rightarrow> 'a \<Rightarrow> bool) \<Rightarrow> 'a \<Rightarrow> 'a list \<Rightarrow> 'a" where
  "max_element_from lt best [] = best"
| "max_element_from lt best (x # xs) =
     max_element_from lt (if lt best x then x else best) xs"

lemma max_element_from_in: "max_element_from lt best xs \<in> set (best # xs)"
proof (induction xs arbitrary: best)
  case (Cons x xs)
  show ?case using Cons.IH [of "if lt best x then x else best"] by (auto split: if_splits)
qed simp

lemma max_element_from_best:
  fixes key :: "'a \<Rightarrow> 'b :: linorder"
  shows "key best \<le> key (max_element_from (\<lambda>a b. key a < key b) best xs)"
proof (induction xs arbitrary: best)
  case (Cons x xs)
  show ?case using Cons.IH [of x] Cons.IH [of best] by (auto intro: order.trans less_imp_le)
qed simp

lemma max_element_from_ge:
  fixes key :: "'a \<Rightarrow> 'b :: linorder"
  shows "x \<in> set xs \<Longrightarrow> key x \<le> key (max_element_from (\<lambda>a b. key a < key b) best xs)"
proof (induction xs arbitrary: best)
  case (Cons y ys)
  have "key y \<le> key (max_element_from (\<lambda>a b. key a < key b) (if key best < key y then y else best) ys)"
    using max_element_from_best [of key y ys] max_element_from_best [of key best ys]
    by (auto intro: order.trans)
  then show ?case using Cons by auto
qed simp

text \<open>\<open>std::ranges::unique\<close> followed by \<open>erase\<close>: of each run of equivalent elements the first stays.\<close>

fun unique_runs :: "('a \<Rightarrow> 'a \<Rightarrow> bool) \<Rightarrow> 'a list \<Rightarrow> 'a list" where
  "unique_runs eq [] = []"
| "unique_runs eq [x] = [x]"
| "unique_runs eq (x # y # ys) =
     (if eq x y then unique_runs eq (x # ys) else x # unique_runs eq (y # ys))"

lemma unique_runs_subset: "set (unique_runs eq xs) \<subseteq> set xs"
  by (induction eq xs rule: unique_runs.induct) auto

lemma unique_runs_hd: "xs \<noteq> [] \<Longrightarrow> hd (unique_runs eq xs) = hd xs \<and> unique_runs eq xs \<noteq> []"
  by (induction eq xs rule: unique_runs.induct) auto

lemma unique_runs_key:
  "(\<And>x y. eq x y \<longleftrightarrow> key x = key y) \<Longrightarrow> key ` set (unique_runs eq xs) = key ` set xs"
proof (induction eq xs rule: unique_runs.induct)
  case (3 eq x y ys)
  then show ?case by (cases "eq x y") auto
qed auto

lemma unique_runs_sorted:
  fixes key :: "'a \<Rightarrow> 'b :: linorder"
  assumes "\<And>x y. eq x y \<longleftrightarrow> key x = key y"
  shows "sorted (map key xs) \<Longrightarrow> sorted_wrt (<) (map key (unique_runs eq xs))"
  using assms
proof (induction eq xs rule: unique_runs.induct)
  case (3 eq x y ys)
  show ?case
  proof (cases "eq x y")
    case True
    then show ?thesis using 3 by simp
  next
    case False
    have key: "key ` set (unique_runs eq (y # ys)) = key ` set (y # ys)"
      using unique_runs_key [of eq key] 3(4) by blast
    have "key x < key z" if "z \<in> set (unique_runs eq (y # ys))" for z
    proof -
      have "key z \<in> key ` set (y # ys)" using key that by blast
      moreover have "key x < key y" using 3(3,4) False by (auto simp: less_le)
      ultimately show ?thesis using 3(3) by auto
    qed
    moreover have "sorted_wrt (<) (map key (unique_runs eq (y # ys)))"
      by (rule 3(2) [OF False _ 3(4)]) (use 3(3) in simp)
    ultimately show ?thesis using False by simp
  qed
qed auto

text \<open>\<open>std::to_string\<close> and \<open>std::format\<close> of an integer: decimal digits, a minus sign if negative.\<close>

fun string_of_nat :: "nat \<Rightarrow> string" where
  "string_of_nat n =
     (if n < 10 then [char_of (48 + n)] else string_of_nat (n div 10) @ [char_of (48 + n mod 10)])"

declare string_of_nat.simps [simp del]

definition string_of_int :: "int \<Rightarrow> string" where
  "string_of_int i = (if i < 0 then CHR ''-'' # string_of_nat (nat (- i)) else string_of_nat (nat i))"

definition is_digit :: "char \<Rightarrow> bool" where
  "is_digit c \<longleftrightarrow> 48 \<le> (of_char c :: nat) \<and> (of_char c :: nat) \<le> 57"

text \<open>
  \<open>std::isspace\<close> in the C locale. A byte from 128 on is a negative \<open>char\<close> on common platforms, for
  which \<open>std::isspace\<close> is undefined; here it is not white space.
\<close>

definition is_space :: "char \<Rightarrow> bool" where
  "is_space c \<longleftrightarrow> c = CHR '' '' \<or> (9 \<le> (of_char c :: nat) \<and> (of_char c :: nat) \<le> 13)"

text \<open>What formatted input and the number conversions do first: skip white space, read a sign.\<close>

definition skip_ws :: "string \<Rightarrow> string" where
  "skip_ws s = dropWhile is_space s"

definition split_sign :: "string \<Rightarrow> bool \<times> string" where
  "split_sign s =
     (case s of
        [] \<Rightarrow> (False, [])
      | c # cs \<Rightarrow> if c = CHR ''-'' then (True, cs) else if c = CHR ''+'' then (False, cs) else (False, c # cs))"

definition digit_value :: "char \<Rightarrow> nat" where
  "digit_value c = of_char c - 48"

fun digits_value :: "nat \<Rightarrow> string \<Rightarrow> nat" where
  "digits_value acc [] = acc"
| "digits_value acc (c # cs) = digits_value (10 * acc + digit_value c) cs"

lemma of_char_digit: "d < 10 \<Longrightarrow> of_char (char_of (48 + d) :: char) = (48 + d :: nat)"
  by (simp add: of_char_of)

lemma string_of_nat_digits: "c \<in> set (string_of_nat n) \<Longrightarrow> is_digit c"
proof (induction n rule: string_of_nat.induct)
  case (1 n)
  then show ?case
    by (subst (asm) string_of_nat.simps)
      (auto simp: is_digit_def of_char_digit split: if_splits)
qed

lemma string_of_nat_nonempty [simp]: "string_of_nat n \<noteq> []"
  by (subst string_of_nat.simps) simp

lemma digits_value_append: "digits_value acc (xs @ ys) = digits_value (digits_value acc xs) ys"
  by (induction xs arbitrary: acc) auto

lemma digits_value_string_of_nat: "digits_value 0 (string_of_nat n) = n"
proof (induction n rule: string_of_nat.induct)
  case (1 n)
  then show ?case
    by (subst string_of_nat.simps) (simp add: digits_value_append digit_value_def of_char_digit)
qed

text \<open>Reading a printed number.\<close>

lemma digit_facts: "is_digit c \<Longrightarrow> \<not> is_space c \<and> c \<noteq> CHR ''-'' \<and> c \<noteq> CHR ''+''"
  by (auto simp: is_digit_def is_space_def)

lemma string_of_int_chars: "c \<in> set (string_of_int i) \<Longrightarrow> is_digit c \<or> c = CHR ''-''"
  by (auto simp: string_of_int_def dest: string_of_nat_digits split: if_splits)

lemma takeWhile_digits:
  "\<not> is_digit x \<Longrightarrow> takeWhile is_digit (string_of_nat n @ x # r) = string_of_nat n \<and>
   dropWhile is_digit (string_of_nat n @ x # r) = x # r"
  using string_of_nat_digits by (simp add: takeWhile_append2 dropWhile_append2)

lemma skip_ws_int: "skip_ws (string_of_int i @ s) = string_of_int i @ s"
proof -
  obtain c cs where c: "string_of_int i = c # cs"
    by (cases "string_of_int i") (simp_all add: string_of_int_def split: if_splits)
  have "\<not> is_space c"
    using string_of_int_chars [of c i] digit_facts [of c] by (auto simp: c is_space_def)
  then show ?thesis by (simp add: skip_ws_def c)
qed

lemma split_sign_int:
  "split_sign (string_of_int i @ s) = (i < 0, string_of_nat (nat \<bar>i\<bar>) @ s)"
proof (cases "i < 0")
  case True
  then show ?thesis by (simp add: split_sign_def string_of_int_def)
next
  case False
  obtain c cs where c: "string_of_nat (nat i) = c # cs" by (cases "string_of_nat (nat i)") simp_all
  have "is_digit c" using string_of_nat_digits [of c "nat i"] by (simp add: c)
  then show ?thesis using False digit_facts [of c] by (simp add: split_sign_def string_of_int_def c)
qed

section \<open>Lists\<close>

lemma sorted_map_eq: "map f xs = map g xs \<Longrightarrow> sorted (map g xs) \<Longrightarrow> sorted (map f xs)"
  by (rule ssubst)

lemma length_filter_eq_1: "length (filter p xs) = 1 \<longleftrightarrow> (\<exists>x. filter p xs = [x])"
  by (auto simp: length_Suc_conv)

lemma filter_singletonD:
  assumes "filter p xs = [x]"
  shows "x \<in> set xs \<and> p x \<and> (\<forall>y\<in>set xs. p y \<longrightarrow> y = x)"
proof -
  have "set (filter p xs) = {x}" by (simp add: assms)
  then show ?thesis by auto
qed

lemma two_in_filter: "x \<in> set xs \<Longrightarrow> y \<in> set xs \<Longrightarrow> x \<noteq> y \<Longrightarrow> p x \<Longrightarrow> p y \<Longrightarrow> 2 \<le> length (filter p xs)"
proof -
  assume "x \<in> set xs" "y \<in> set xs" "x \<noteq> y" "p x" "p y"
  then have "{x, y} \<subseteq> set (filter p xs)" and "card {x, y} = 2" by auto
  then have "2 \<le> card (set (filter p xs))" by (metis card_mono List.finite_set)
  then show ?thesis by (meson card_length le_trans)
qed

lemma length_filter_mono: "(\<And>x. x \<in> set xs \<Longrightarrow> p x \<Longrightarrow> q x) \<Longrightarrow> length (filter p xs) \<le> length (filter q xs)"
  by (induction xs) auto

end
