(* ===== verification/Fabko_Exception.thy ===== *)
theory Fabko_Exception
  imports Fabko_Prelude
begin

text \<open>
  \<open>fabko/common/exception.hh\<close>: the error categories (and the system category of a default
  \<open>std::error_code\<close>), \<open>fabko::exception\<close> and the two
  \<open>fabko_assert\<close> functions. A thrown exception is a value of type \<open>fault\<close>; an operation that
  may throw returns \<open>fault + 'a\<close>. The flag \<open>ndebug\<close> says whether the code was compiled with
  \<open>NDEBUG\<close>, under which \<open>fabko_assert\<close> checks nothing.
\<close>

datatype error_category = Db_Category | Fbk_Category | System_Category

fun category_name :: "error_category \<Rightarrow> string" where
  "category_name Db_Category = ''fabko::exception::db''"
| "category_name Fbk_Category = ''fabko::exception''"
| "category_name System_Category = ''system''"

text \<open>The messages of the system category are the platform's: \<open>None\<close>.\<close>

fun category_message :: "error_category \<Rightarrow> int \<Rightarrow> string option" where
  "category_message Db_Category i =
     Some (''Fabko::Database Exception Category : '' @ category_name Db_Category @ '' : id '' @ string_of_int i)"
| "category_message Fbk_Category i =
     Some (''Fabko Exception Category : '' @ category_name Fbk_Category @ '' : id '' @ string_of_int i)"
| "category_message System_Category i = None"

record error_code =
  ec_value :: int
  ec_category :: error_category

record fabko_exception =
  ec :: error_code
  what :: string

definition exception_code :: "fabko_exception \<Rightarrow> int" where
  "exception_code e = ec_value (ec e)"

text \<open>
  How a call can fail to produce its value: \<open>fabko_assert\<close> throws \<open>fabko::exception\<close>, the CNF
  reader throws \<open>std::runtime_error\<close>, the datastore \<open>std::logic_error\<close>, a standard container throws \<open>std::length_error\<close> or
  \<open>std::out_of_range\<close>, a number conversion \<open>std::invalid_argument\<close>, the JSON library an exception with a number, a
  standard optional throws \<open>std::bad_optional_access\<close>, or the behaviour is undefined.
\<close>

datatype fault =
    Fabko_Thrown fabko_exception
  | Runtime_Error string
  | Logic_Error string
  | Length_Error
  | Out_Of_Range
  | Invalid_Argument
  | Json_Error nat
  | Bad_Optional_Access
  | Undefined_Behaviour

type_synonym 'a fallible = "fault + 'a"

text \<open>The next step, unless an exception was thrown.\<close>

definition and_then :: "'a fallible \<Rightarrow> ('a \<Rightarrow> 'b fallible) \<Rightarrow> 'b fallible" where
  "and_then r f = (case r of Inl e \<Rightarrow> Inl e | Inr x \<Rightarrow> f x)"

lemma and_then_simps [simp]: "and_then (Inl e) f = Inl e" "and_then (Inr x) f = f x"
  by (simp_all add: and_then_def)

text \<open>The same with an object that is filled on the way and keeps what was filled.\<close>

definition fill :: "('o \<Rightarrow> 'a fallible) \<Rightarrow> ('a \<Rightarrow> 'o \<Rightarrow> 'o) \<Rightarrow> unit fallible \<times> 'o \<Rightarrow> unit fallible \<times> 'o" where
  "fill read store st =
     (case st of
        (Inl e, obj) \<Rightarrow> (Inl e, obj)
      | (Inr _, obj) \<Rightarrow> (case read obj of Inl e \<Rightarrow> (Inl e, obj) | Inr x \<Rightarrow> (Inr (), store x obj)))"

lemma fill_simps [simp]:
  "fill read store (Inl e, obj) = (Inl e, obj)"
  "read obj = Inr x \<Longrightarrow> fill read store (Inr u, obj) = (Inr (), store x obj)"
  "read obj = Inl e \<Longrightarrow> fill read store (Inr u, obj) = (Inl e, obj)"
  by (simp_all add: fill_def)

definition fabko_assert_code :: "bool \<Rightarrow> bool \<Rightarrow> error_code \<Rightarrow> string \<Rightarrow> unit fallible" where
  "fabko_assert_code ndebug assertion code msg =
     (if ndebug then Inr ()
      else if \<not> assertion then Inl (Fabko_Thrown \<lparr>ec = code, what = msg\<rparr>)
      else Inr ())"

definition fabko_assert :: "bool \<Rightarrow> bool \<Rightarrow> string \<Rightarrow> unit fallible" where
  "fabko_assert ndebug assertion msg =
     (if ndebug then Inr ()
      else fabko_assert_code ndebug assertion \<lparr>ec_value = 42, ec_category = Fbk_Category\<rparr> msg)"

lemma fabko_assert_True [simp]: "fabko_assert ndebug True msg = Inr ()"
  by (simp add: fabko_assert_def fabko_assert_code_def)

lemma fabko_assert_code_True [simp]: "fabko_assert_code ndebug True code msg = Inr ()"
  by (simp add: fabko_assert_code_def)

lemma fabko_assert_Inr_iff: "fabko_assert ndebug b msg = Inr u \<longleftrightarrow> ndebug \<or> b"
  by (simp add: fabko_assert_def fabko_assert_code_def)

lemma fabko_assert_debug_False:
  "fabko_assert False False msg =
     Inl (Fabko_Thrown \<lparr>ec = \<lparr>ec_value = 42, ec_category = Fbk_Category\<rparr>, what = msg\<rparr>)"
  by (simp add: fabko_assert_def fabko_assert_code_def)

lemma fabko_assert_release [simp]: "fabko_assert True b msg = Inr ()"
  by (simp add: fabko_assert_def)

end
