(* ===== verification/Fil_Soa.thy ===== *)
theory Fil_Soa
  imports Fabko_Prelude
begin

text \<open>
  The interface of the structure-of-arrays container \<open>fil::soa::soa\<close> of the FiL library, which
  the solver keeps its variables and clauses in. FiL is not part of the repository, so the
  container is a parameter: a record of the operations the solver calls, and the locale \<open>soa\<close> of
  what the solver relies on. A struct id is known to the solver by its \<open>offset\<close>.

  The list-backed container at the end shows that the laws can hold, and is what the closed
  examples of the development run on.
\<close>

type_synonym struct_id = nat

record ('s, 'e) soa_ops =
  soa_new :: 's
  soa_insert :: "'s \<Rightarrow> 'e \<Rightarrow> 's \<times> struct_id"  \<comment> \<open>\<open>insert\<close>: appends, returns the id\<close>
  soa_at :: "'s \<Rightarrow> struct_id \<Rightarrow> 'e"  \<comment> \<open>reading through \<open>operator[]\<close>\<close>
  soa_set :: "'s \<Rightarrow> struct_id \<Rightarrow> 'e \<Rightarrow> 's"  \<comment> \<open>writing through the references of \<open>operator[]\<close>\<close>
  soa_ids :: "'s \<Rightarrow> struct_id list"  \<comment> \<open>\<open>struct_id()\<close> of the elements, in iteration order\<close>

locale soa =
  fixes S :: "('s, 'e) soa_ops"
  assumes ids_new [simp]: "soa_ids S (soa_new S) = []"
    and distinct_ids [simp]: "distinct (soa_ids S s)"
    and ids_insert [simp]:
      "soa_ids S (fst (soa_insert S s e)) = soa_ids S s @ [snd (soa_insert S s e)]"
    and at_insert_new [simp]:
      "soa_at S (fst (soa_insert S s e)) (snd (soa_insert S s e)) = e"
    and at_insert_old [simp]:
      "i \<in> set (soa_ids S s) \<Longrightarrow> soa_at S (fst (soa_insert S s e)) i = soa_at S s i"
    and ids_set [simp]: "i \<in> set (soa_ids S s) \<Longrightarrow> soa_ids S (soa_set S s i e) = soa_ids S s"
    and at_set [simp]: "i \<in> set (soa_ids S s) \<Longrightarrow> j \<in> set (soa_ids S s) \<Longrightarrow>
      soa_at S (soa_set S s i e) j = (if j = i then e else soa_at S s j)"
begin

lemma insert_fresh: "snd (soa_insert S s e) \<notin> set (soa_ids S s)"
  using distinct_ids [of "fst (soa_insert S s e)"] by simp

end

text \<open>A container backed by one list, its ids the positions.\<close>

definition list_soa :: "('e list, 'e) soa_ops" where
  "list_soa =
     \<lparr>soa_new = [],
      soa_insert = (\<lambda>s e. (s @ [e], length s)),
      soa_at = (\<lambda>s i. s ! i),
      soa_set = (\<lambda>s i e. s[i := e]),
      soa_ids = (\<lambda>s. [0..<length s])\<rparr>"

lemma list_soa_simps [simp]:
  "soa_new list_soa = []"
  "soa_insert list_soa s e = (s @ [e], length s)"
  "soa_at list_soa s i = s ! i"
  "soa_set list_soa s i e = s[i := e]"
  "soa_ids list_soa s = [0..<length s]"
  by (simp_all add: list_soa_def)

interpretation list_container: soa list_soa
  by unfold_locales (auto simp: nth_append)

end
