(* ===== verification/Sat_Types.thy ===== *)
theory Sat_Types
  imports Fabko_Exception Fil_Soa "HOL-Library.Word"
begin

text \<open>
  The data of the SAT solver: \<open>solver.hh\<close>, \<open>solver_context.hh\<close> and \<open>metadata.hh\<close>, with the
  member functions that need no solver state beyond the variables: literals, clauses, clause
  watchers, assignment contexts, models, the configuration, the statistics and the context.
  Struct ids are the offsets of the container interface of \<open>Fil_Soa\<close>; the containers themselves
  are type parameters, reached through the operations in a \<open>platform\<close>. A member of the source
  whose name ends in an underscore loses it here.
\<close>

section \<open>Literals\<close>

datatype literal = Literal (raw_value : int)

text \<open>\<open>operator==\<close> and \<open>operator<=>\<close> compare variables, not signs.\<close>

definition lit_value :: "literal \<Rightarrow> int" where
  "lit_value l = \<bar>raw_value l\<bar>"

definition lit_eq :: "literal \<Rightarrow> literal \<Rightarrow> bool" where
  "lit_eq a b \<longleftrightarrow> \<bar>raw_value a\<bar> = \<bar>raw_value b\<bar>"

definition lit_less :: "literal \<Rightarrow> literal \<Rightarrow> bool" where
  "lit_less a b \<longleftrightarrow> \<bar>raw_value a\<bar> < \<bar>raw_value b\<bar>"

definition is_on :: "literal \<Rightarrow> bool" where
  "is_on l \<longleftrightarrow> raw_value l > 0"

definition is_off :: "literal \<Rightarrow> bool" where
  "is_off l \<longleftrightarrow> raw_value l < 0"

definition literal_to_string :: "literal \<Rightarrow> string" where
  "literal_to_string l = string_of_int (raw_value l)"

lemma lit_eq_iff: "lit_eq a b \<longleftrightarrow> lit_value a = lit_value b"
  by (simp add: lit_eq_def lit_value_def)

lemma is_on_off_iff: "raw_value l \<noteq> 0 \<Longrightarrow> is_off l \<longleftrightarrow> \<not> is_on l"
  by (auto simp: is_on_def is_off_def)

text \<open>Lists in strictly increasing order of variables are determined by their elements.\<close>

lemma strictly_sorted_unique:
  "sorted_wrt (<) (map lit_value c) \<Longrightarrow> sorted_wrt (<) (map lit_value c') \<Longrightarrow> set c = set c' \<Longrightarrow> c = c'"
proof (induction c arbitrary: c')
  case (Cons l c)
  then obtain l' d where c': "c' = l' # d" by (cases c') auto
  have l: "\<forall>x\<in>set c. lit_value l < lit_value x" and l': "\<forall>x\<in>set d. lit_value l' < lit_value x"
    using Cons.prems by (auto simp: c')
  have "l = l'"
  proof (rule ccontr)
    assume "l \<noteq> l'"
    then have "l' \<in> set c" "l \<in> set d" using Cons.prems(3) by (auto simp: c')
    with l l' show False by fastforce
  qed
  moreover have "l \<notin> set c" "l' \<notin> set d" using l l' by auto
  ultimately have "set c = set d" using Cons.prems(3) by (auto simp: c' insert_eq_iff)
  then show ?case using Cons \<open>l = l'\<close> by (simp add: c')
qed simp

section \<open>Clauses\<close>

record clause =
  clause_id :: int
  clause_vars :: "(literal \<times> struct_id) list"  \<comment> \<open>a literal and the variable it refers to\<close>

definition clause_of_pairs :: "(literal \<times> struct_id) list \<Rightarrow> clause" where
  "clause_of_pairs lit_vars_mapping = \<lparr>clause_id = 0, clause_vars = lit_vars_mapping\<rparr>"

definition make_clause :: "literal list \<Rightarrow> struct_id list \<Rightarrow> clause" where
  "make_clause lits literals_mapping = \<lparr>clause_id = 0, clause_vars = zip lits literals_mapping\<rparr>"

definition is_empty :: "clause \<Rightarrow> bool" where
  "is_empty c \<longleftrightarrow> clause_vars c = []"

definition get_literals :: "clause \<Rightarrow> (literal \<times> struct_id) list" where
  "get_literals c = clause_vars c"

definition clause_to_string :: "clause \<Rightarrow> string" where
  "clause_to_string c =
     foldl (\<lambda>res lit_it. res @ literal_to_string (fst lit_it) @ '','') ''clause['' (clause_vars c) @ '']''"

lemma get_literals_simps [simp]:
  "get_literals (clause_of_pairs ps) = ps"
  "get_literals (make_clause ls is) = zip ls is"
  by (simp_all add: get_literals_def clause_of_pairs_def make_clause_def)

section \<open>Assignments and their contexts\<close>

datatype assignment = on | off | not_assigned

fun assignment_to_string :: "assignment \<Rightarrow> string" where
  "assignment_to_string on = ''on''"
| "assignment_to_string off = ''off''"
| "assignment_to_string not_assigned = ''unassigned''"

record assignment_context =
  vsids_activity :: int
  decision_level :: nat
  clause_propagation :: "struct_id option"

definition empty_assignment_context :: assignment_context where
  "empty_assignment_context =
     \<lparr>vsids_activity = 0, decision_level = 0, clause_propagation = None\<rparr>"

definition is_propagated :: "assignment_context \<Rightarrow> bool" where
  "is_propagated ac \<longleftrightarrow> clause_propagation ac \<noteq> None"

definition is_decision :: "assignment_context \<Rightarrow> bool" where
  "is_decision ac \<longleftrightarrow> \<not> is_propagated ac"

lemma is_decision_iff: "is_decision ac \<longleftrightarrow> clause_propagation ac = None"
  by (simp add: is_decision_def is_propagated_def)

section \<open>Compiler metadata\<close>

record compiler_generation_context =
  lexeme :: string
  unit_name :: string
  line :: "32 word"

record metadata =
  fabl_generation_ctx :: "compiler_generation_context option"
  sat_generation_ctx :: "unit option"

definition empty_metadata :: metadata where
  "empty_metadata = \<lparr>fabl_generation_ctx = None, sat_generation_ctx = None\<rparr>"

section \<open>Elements of the containers\<close>

record var_struct =
  soa_literal :: literal
  soa_assignment :: assignment
  soa_assignment_ctx :: assignment_context
  soa_var_compiler_ctx :: metadata

record clause_watcher =
  watcher_0 :: "struct_id option"
  watcher_1 :: "struct_id option"

record clause_struct =
  soa_clause :: clause
  soa_watcher :: clause_watcher
  soa_clause_compiler_ctx :: metadata

text \<open>
  What the solver is compiled and linked with: whether \<open>NDEBUG\<close> is set, and the container
  operations of FiL for \<open>Vars_Soa\<close> and \<open>Clauses_Soa\<close>.
\<close>

record ('vs, 'cs) platform =
  ndebug :: bool
  vars_lib :: "('vs, var_struct) soa_ops"
  clauses_lib :: "('cs, clause_struct) soa_ops"

locale solver_platform = vs: soa "vars_lib P" + cs: soa "clauses_lib P"
  for P :: "('vs, 'cs) platform"

definition list_platform :: "bool \<Rightarrow> (var_struct list, clause_struct list) platform" where
  "list_platform nd = \<lparr>ndebug = nd, vars_lib = list_soa, clauses_lib = list_soa\<rparr>"

lemma list_platform_simps [simp]:
  "ndebug (list_platform nd) = nd"
  "vars_lib (list_platform nd) = list_soa"
  "clauses_lib (list_platform nd) = list_soa"
  by (simp_all add: list_platform_def)

interpretation list_solver: solver_platform "list_platform nd" for nd
  by unfold_locales (auto simp: nth_append)

section \<open>Models, configuration, statistics, context\<close>

text \<open>A \<open>float\<close>: a mantissa of at most 24 bits and an exponent of two.\<close>

type_synonym float32 = "int \<times> int"

record configuration =
  restart_threshold :: "32 word"
  restart_multiplier :: "32 word"
  vsids_increment :: int
  decay_interval :: int
  vsids_decay_ratio :: float32

text \<open>\<open>0.95\<close> rounded to a \<open>float\<close> is \<open>15938355 * 2 ^ -24\<close>.\<close>

definition default_configuration :: configuration where
  "default_configuration =
     \<lparr>restart_threshold = 100, restart_multiplier = 2, vsids_increment = 10,
      decay_interval = 100, vsids_decay_ratio = (15938355, -24)\<rparr>"

record statistics =
  restarts :: nat
  conflicts :: nat
  propagations :: nat
  decisions :: nat
  backtracks :: nat
  learned_clause_count :: nat
  max_decision_lvl :: nat

definition zero_statistics :: statistics where
  "zero_statistics =
     \<lparr>restarts = 0, conflicts = 0, propagations = 0, decisions = 0, backtracks = 0,
      learned_clause_count = 0, max_decision_lvl = 0\<rparr>"

record model =
  literals :: "literal list"
  clauses :: "literal list list"
  literal_context :: "int \<rightharpoonup> compiler_generation_context"
  conf :: configuration

record solver_solution =
  literals_solving :: "literal list"

record ('vs, 'cs) solver_context =
  config :: configuration
  context_model :: model
  vars_soa :: 'vs
  clauses_soa :: 'cs
  trail :: "struct_id list"
  conflict_count_since_last_restart :: nat
  current_decision_level :: nat
  stats :: statistics
  solutions_found :: "solver_solution list"

record conflict_resolution_result =
  learned_clause :: clause
  backtrack_level :: nat

datatype sat_error = unsatisfiable | sat_error_error

record solver_result =
  result_literals :: "literal list"

definition bool_to_string :: "bool \<Rightarrow> string" where
  "bool_to_string b = (if b then ''true'' else ''false'')"

definition result_to_string :: "solver_result \<Rightarrow> string" where
  "result_to_string res =
     foldl (\<lambda>s lit. s @ string_of_int (lit_value lit) @ ''->'' @ bool_to_string (is_on lit) @ '','')
       ''result['' (result_literals res) @ '']''"

section \<open>Clause watchers\<close>

text \<open>
  The constructor watches the first two literals whose variable is not assigned. With \<open>NDEBUG\<close>
  the assertion is compiled out and an empty clause gets a watcher that watches nothing.
\<close>

definition unassigned_in :: "('vs, 'cs) platform \<Rightarrow> 'vs \<Rightarrow> struct_id \<Rightarrow> bool" where
  "unassigned_in P vs i \<longleftrightarrow> soa_assignment (soa_at (vars_lib P) vs i) = not_assigned"

definition make_clause_watcher :: "('vs, 'cs) platform \<Rightarrow> 'vs \<Rightarrow> clause \<Rightarrow> clause_watcher fallible" where
  "make_clause_watcher P vs c =
     (case fabko_assert (ndebug P) (get_literals c \<noteq> [])
             ''Cannot make a clause watchers over an empty clause'' of
        Inl e \<Rightarrow> Inl e
      | Inr _ \<Rightarrow>
          (case map snd (filter (\<lambda>p. unassigned_in P vs (snd p)) (get_literals c)) of
             [] \<Rightarrow> Inr \<lparr>watcher_0 = None, watcher_1 = None\<rparr>
           | [a] \<Rightarrow> Inr \<lparr>watcher_0 = Some a, watcher_1 = None\<rparr>
           | a # b # _ \<Rightarrow> Inr \<lparr>watcher_0 = Some a, watcher_1 = Some b\<rparr>))"

text \<open>
  \<open>replace\<close>: nothing happens when \<open>to_replace\<close> is not watched. Otherwise the first slot is read
  with \<open>value()\<close>, which throws when that slot is empty; the slot that watches \<open>to_replace\<close> is
  cleared and then takes the first unassigned variable of the clause the other slot does not watch.
\<close>

definition replacement :: "('vs, 'cs) platform \<Rightarrow> 'vs \<Rightarrow> clause \<Rightarrow> struct_id option \<Rightarrow> struct_id option" where
  "replacement P vs c other =
     map_option snd
       (find (\<lambda>p. other \<noteq> Some (snd p) \<and> unassigned_in P vs (snd p)) (get_literals c))"

definition watcher_replace ::
    "('vs, 'cs) platform \<Rightarrow> 'vs \<Rightarrow> clause \<Rightarrow> clause_watcher \<Rightarrow> struct_id \<Rightarrow> clause_watcher fallible" where
  "watcher_replace P vs c w to_replace =
     (if watcher_0 w \<noteq> Some to_replace \<and> watcher_1 w \<noteq> Some to_replace then Inr w
      else
        (case watcher_0 w of
           None \<Rightarrow> Inl Bad_Optional_Access
         | Some first \<Rightarrow>
             (if first = to_replace
              then Inr (w\<lparr>watcher_0 := replacement P vs c (watcher_1 w)\<rparr>)
              else Inr (w\<lparr>watcher_1 := replacement P vs c (watcher_0 w)\<rparr>))))"

definition watcher_size :: "clause_watcher \<Rightarrow> nat" where
  "watcher_size w =
     (if watcher_0 w \<noteq> None then 1 else 0) + (if watcher_1 w \<noteq> None then 1 else 0)"

definition get_watched :: "clause_watcher \<Rightarrow> struct_id list" where
  "get_watched w =
     (case watcher_0 w of None \<Rightarrow> [] | Some a \<Rightarrow> [a]) @
     (case watcher_1 w of None \<Rightarrow> [] | Some b \<Rightarrow> [b])"

lemma watcher_size_watched: "watcher_size w = length (get_watched w)"
  by (simp add: watcher_size_def get_watched_def split: option.splits)

lemma make_clause_watcher_Inr_iff:
  "(\<exists>w. make_clause_watcher P vs c = Inr w) \<longleftrightarrow> get_literals c \<noteq> [] \<or> ndebug P"
proof (cases "get_literals c = [] \<and> \<not> ndebug P")
  case True
  then show ?thesis by (simp add: make_clause_watcher_def fabko_assert_debug_False)
next
  case False
  then have "fabko_assert (ndebug P) (get_literals c \<noteq> [])
      ''Cannot make a clause watchers over an empty clause'' = Inr ()"
    by (cases "ndebug P") auto
  with False show ?thesis by (auto simp: make_clause_watcher_def split: list.split)
qed

lemma make_clause_watcher_watched:
  "make_clause_watcher P vs c = Inr w \<Longrightarrow>
   get_watched w = take 2 (map snd (filter (\<lambda>p. unassigned_in P vs (snd p)) (get_literals c)))"
  by (auto simp: make_clause_watcher_def get_watched_def numeral_2_eq_2 split: list.splits sum.splits)

lemma find_SomeD: "find p xs = Some x \<Longrightarrow> x \<in> set xs \<and> p x"
  by (induction xs) (auto split: if_splits)

lemma replacement_SomeD:
  assumes "replacement P vs c other = Some v"
  shows "v \<in> snd ` set (get_literals c) \<and> unassigned_in P vs v \<and> other \<noteq> Some v"
  using assms by (auto simp: replacement_def image_iff dest!: find_SomeD) (metis snd_conv)

lemma replacement_None_iff:
  "replacement P vs c other = None \<longleftrightarrow>
   (\<forall>p\<in>set (get_literals c). unassigned_in P vs (snd p) \<longrightarrow> other = Some (snd p))"
  unfolding replacement_def option.map_disc_iff find_None_iff by blast

end
