(* ===== verification/Float_Division.thy ===== *)
theory Float_Division
  imports Fabko_Prelude Complex_Main
begin

text \<open>
  The floating-point divisions of \<open>update_vsids_activity\<close>: an \<open>int64_t\<close> divided by a \<open>float\<close>
  (24 bits of precision) or a \<open>double\<close> (53 bits) and stored back as an \<open>int64_t\<close>. C++ converts
  the integer to the floating type, divides, and truncates; the conversion and the division each
  round to nearest, ties to even. A finite number is a mantissa and an exponent of two; the
  exponent range of the formats is not exceeded by 64-bit integers and is left out.
\<close>

fun bit_len :: "int \<Rightarrow> nat" where
  "bit_len n = (if n \<le> 0 then 0 else Suc (bit_len (n div 2)))"

declare bit_len.simps [simp del]

text \<open>The quotient of two non-negative integers, rounded to nearest, ties to even.\<close>

definition rne_div :: "int \<Rightarrow> int \<Rightarrow> int" where
  "rne_div n d =
     (let q = n div d; r = n mod d
      in if 2 * r < d \<or> (2 * r = d \<and> even q) then q else q + 1)"

definition scaled_num :: "int \<Rightarrow> int \<Rightarrow> int" where
  "scaled_num n e = (if e \<ge> 0 then n else n * 2 ^ nat (- e))"

definition scaled_den :: "int \<Rightarrow> int \<Rightarrow> int" where
  "scaled_den d e = (if e \<ge> 0 then d * 2 ^ nat e else d)"

text \<open>The exponent for which \<open>n / d\<close> has a mantissa of \<open>p\<close> bits, and \<open>n / d\<close> rounded to it.\<close>

definition ratio_exponent :: "nat \<Rightarrow> int \<Rightarrow> int \<Rightarrow> int" where
  "ratio_exponent p n d =
     (let e0 = int (bit_len n) - int (bit_len d) - int p
      in if 2 ^ p * scaled_den d e0 \<le> scaled_num n e0 then e0 + 1 else e0)"

definition round_ratio :: "nat \<Rightarrow> int \<Rightarrow> int \<Rightarrow> int \<times> int" where
  "round_ratio p n d =
     (if n = 0 then (0, 0)
      else (let e = ratio_exponent p n d in (rne_div (scaled_num n e) (scaled_den d e), e)))"

definition float_of_int64 :: "nat \<Rightarrow> int \<Rightarrow> int \<times> int" where
  "float_of_int64 p x = (let (m, e) = round_ratio p \<bar>x\<bar> 1 in (sgn x * m, e))"

definition float_quotient :: "nat \<Rightarrow> int \<times> int \<Rightarrow> int \<times> int \<Rightarrow> int \<times> int" where
  "float_quotient p a b =
     (let (m, e) = round_ratio p \<bar>fst a\<bar> \<bar>fst b\<bar>
      in (sgn (fst a) * sgn (fst b) * m, e + snd a - snd b))"

definition float_truncate :: "int \<times> int \<Rightarrow> int" where
  "float_truncate a =
     (if snd a \<ge> 0 then fst a * 2 ^ nat (snd a)
      else sgn (fst a) * (\<bar>fst a\<bar> div 2 ^ nat (- snd a)))"

definition int64_div_float :: "nat \<Rightarrow> int \<Rightarrow> int \<times> int \<Rightarrow> int" where
  "int64_div_float p x r = float_truncate (float_quotient p (float_of_int64 p x) r)"

lemma rne_div_bounds:
  assumes "0 < d"
  shows "2 * n \<le> (2 * rne_div n d + 1) * d" and "2 * rne_div n d * d \<le> 2 * n + d"
proof -
  define q r where "q = n div d" and "r = n mod d"
  have n: "n = q * d + r" and r: "r < d" "0 \<le> r" using assms by (simp_all add: q_def r_def)
  have rne: "rne_div n d = (if 2 * r < d \<or> (2 * r = d \<and> even q) then q else q + 1)"
    by (simp add: rne_div_def q_def r_def Let_def)
  show "2 * n \<le> (2 * rne_div n d + 1) * d"
    unfolding rne using r n by (auto simp: algebra_simps)
  show "2 * rne_div n d * d \<le> 2 * n + d"
    unfolding rne using r n by (auto simp: algebra_simps)
qed

lemma int64_div_float_0 [simp]: "int64_div_float p 0 r = 0"
  by (simp add: int64_div_float_def float_of_int64_def round_ratio_def float_quotient_def
      float_truncate_def)

section \<open>Rounding errors\<close>

definition float_value :: "int \<times> int \<Rightarrow> real" where
  "float_value a = real_of_int (fst a) * 2 powi (snd a)"

lemma bit_len_bounds: "0 < n \<Longrightarrow> n < 2 ^ bit_len n \<and> 2 ^ bit_len n \<le> 2 * n"
proof (induction n rule: bit_len.induct)
  case (1 n)
  show ?case
  proof (cases "n = 1")
    case True
    then show ?thesis by (simp add: bit_len.simps)
  next
    case False
    then have "0 < n div 2" using 1(2) by simp
    then have "n div 2 < 2 ^ bit_len (n div 2)" "2 ^ bit_len (n div 2) \<le> 2 * (n div 2)"
      using 1 by simp_all
    moreover have "bit_len n = Suc (bit_len (n div 2))" using 1(2) by (subst bit_len.simps) simp
    moreover have "2 * (n div 2) \<le> n" "n < 2 * (n div 2) + 2" by presburger+
    ultimately show ?thesis by simp
  qed
qed

lemma scaled_den_pos: "0 < d \<Longrightarrow> 0 < scaled_den d e"
  by (simp add: scaled_den_def)

lemma scaled_ratio: "0 < d \<Longrightarrow>
  real_of_int (scaled_num n e) / real_of_int (scaled_den d e) = real_of_int n / real_of_int d * 2 powi (- e)"
  by (simp add: scaled_num_def scaled_den_def power_int_def field_simps)

lemma ratio_exponent_lower:
  assumes n: "0 < n" and d: "0 < d" and p: "0 < p"
  shows "2 ^ p / 2 \<le> real_of_int n / real_of_int d * 2 powi (- ratio_exponent p n d)"
proof -
  define e0 where "e0 = int (bit_len n) - int (bit_len d) - int p"
  let ?r = "real_of_int n / real_of_int d"
  have rpos: "0 < ?r" using n d by simp
  have "(2::real) ^ bit_len n \<le> 2 * real_of_int n"
    using bit_len_bounds [OF n] by (metis of_int_le_iff of_int_mult of_int_numeral of_int_power)
  moreover have "real_of_int d < 2 ^ bit_len d"
    using bit_len_bounds [OF d] by (metis of_int_less_iff of_int_numeral of_int_power)
  ultimately have "2 ^ bit_len n * real_of_int d \<le> 2 * real_of_int n * 2 ^ bit_len d"
    using d n by (intro mult_mono) auto
  then have "2 ^ bit_len n / 2 ^ bit_len d \<le> 2 * ?r" using d by (simp add: field_simps)
  moreover have "(2::real) ^ bit_len n / 2 ^ bit_len d = 2 powi e0 * 2 ^ p"
    by (simp add: e0_def power_int_diff power_int_add field_simps)
  ultimately have "2 powi e0 * 2 ^ p \<le> 2 * ?r" by simp
  then have "2 powi e0 * 2 ^ p * inverse (2 powi e0) \<le> 2 * ?r * inverse (2 powi e0)"
    by (rule mult_right_mono) simp
  moreover have "2 powi e0 * 2 ^ p * inverse (2 powi e0) = (2 :: real) ^ p" by simp
  ultimately have "2 ^ p \<le> 2 * ?r * inverse (2 powi e0)" by (simp only:)
  then have low: "2 ^ p / 2 \<le> ?r * 2 powi (- e0)" by (simp add: power_int_minus ac_simps)
  show ?thesis
  proof (cases "2 ^ p * scaled_den d e0 \<le> scaled_num n e0")
    case True
    then have "real_of_int (2 ^ p * scaled_den d e0) \<le> real_of_int (scaled_num n e0)" by (simp only: of_int_le_iff)
    then have "2 ^ p \<le> real_of_int (scaled_num n e0) / real_of_int (scaled_den d e0)"
      using scaled_den_pos [OF d, of e0] by (simp add: field_simps)
    then have "2 ^ p \<le> ?r * 2 powi (- e0)" using scaled_ratio [OF d] by simp
    then have "2 ^ p / 2 \<le> ?r * 2 powi (- e0) / 2" by (rule divide_right_mono) simp
    moreover have "?r * 2 powi (- (e0 + 1)) = ?r * 2 powi (- e0) / 2" by (simp add: power_int_diff)
    moreover have "ratio_exponent p n d = e0 + 1"
      using True by (simp add: ratio_exponent_def e0_def Let_def)
    ultimately show ?thesis by (simp only:)
  next
    case False
    then have "ratio_exponent p n d = e0" by (simp add: ratio_exponent_def e0_def Let_def)
    then show ?thesis using low by simp
  qed
qed

lemma rne_div_error:
  assumes "0 < d"
  shows "\<bar>real_of_int (rne_div n d) - real_of_int n / real_of_int d\<bar> \<le> 1 / 2"
proof -
  have "real_of_int (2 * n) \<le> real_of_int ((2 * rne_div n d + 1) * d)"
    and "real_of_int (2 * rne_div n d * d) \<le> real_of_int (2 * n + d)"
    using rne_div_bounds [OF assms, of n] by (simp_all only: of_int_le_iff)
  then have "real_of_int (rne_div n d) - real_of_int n / real_of_int d \<le> 1 / 2"
    and "- (real_of_int (rne_div n d) - real_of_int n / real_of_int d) \<le> 1 / 2"
    using assms by (simp_all add: field_simps)
  then show ?thesis by (rule abs_leI)
qed

lemma abs_diff_scale: "0 \<le> c \<Longrightarrow> \<bar>a - b\<bar> * c = \<bar>a * c - b * c\<bar>" for a b c :: real
  by (simp add: abs_mult flip: left_diff_distrib)

lemma zero_le_two_powi: "0 \<le> (2 :: real) powi e"
  by simp

lemma round_ratio_error:
  assumes n: "0 < n" and d: "0 < d" and p: "0 < p"
  shows "\<bar>float_value (round_ratio p n d) - real_of_int n / real_of_int d\<bar>
    \<le> real_of_int n / real_of_int d / 2 ^ p"
proof -
  define e where "e = ratio_exponent p n d"
  let ?r = "real_of_int n / real_of_int d" and ?m = "rne_div (scaled_num n e) (scaled_den d e)"
  have val: "float_value (round_ratio p n d) = real_of_int ?m * 2 powi e"
    using n by (simp add: round_ratio_def float_value_def Let_def e_def)
  have unscale: "?r * 2 powi (- e) * 2 powi e = ?r" by (simp add: power_int_minus)
  have "\<bar>real_of_int ?m - ?r * 2 powi (- e)\<bar> \<le> 1 / 2"
    using rne_div_error [OF scaled_den_pos [OF d], of "scaled_num n e" e] scaled_ratio [OF d] by simp
  then have "\<bar>real_of_int ?m - ?r * 2 powi (- e)\<bar> * 2 powi e \<le> 1 / 2 * 2 powi e"
    by (intro mult_right_mono) simp_all
  then have "\<bar>real_of_int ?m * 2 powi e - ?r\<bar> \<le> 1 / 2 * 2 powi e"
    unfolding abs_diff_scale [OF zero_le_two_powi] unscale .
  moreover have "2 ^ p / 2 * 2 powi e \<le> ?r"
    using mult_right_mono [OF ratio_exponent_lower [OF n d p], of "2 powi e"]
    unfolding e_def [symmetric] unscale by simp
  moreover have "1 / 2 * x \<le> y / 2 ^ p" if "2 ^ p / 2 * x \<le> y" for x y :: real
    using that by (simp add: field_simps)
  ultimately show ?thesis unfolding val by (rule_tac order.trans) blast+
qed

text \<open>Dividing a positive integer rounds twice and truncates.\<close>

lemma float_truncate_bounds:
  assumes "0 \<le> fst a"
  shows "real_of_int (float_truncate a) \<le> float_value a" and "float_value a < real_of_int (float_truncate a) + 1"
proof -
  show "real_of_int (float_truncate a) \<le> float_value a"
  proof (cases "snd a \<ge> 0")
    case False
    have "real_of_int (fst a div 2 ^ nat (- snd a)) \<le> real_of_int (fst a) / 2 ^ nat (- snd a)"
      using real_of_int_div4 [of "fst a" "2 ^ nat (- snd a)"] by simp
    then show ?thesis
      using False assms by (cases "fst a = 0") (simp_all add: float_truncate_def float_value_def power_int_def field_simps)
  qed (simp add: float_truncate_def float_value_def power_int_def)
  show "float_value a < real_of_int (float_truncate a) + 1"
  proof (cases "snd a \<ge> 0")
    case False
    have "real_of_int (fst a) / 2 ^ nat (- snd a) < real_of_int (fst a div 2 ^ nat (- snd a)) + 1"
      using real_of_int_floor_add_one_gt [of "real_of_int (fst a) / real_of_int (2 ^ nat (- snd a))"]
      unfolding floor_divide_of_int_eq by simp
    then show ?thesis
      using False assms by (cases "fst a = 0") (simp_all add: float_truncate_def float_value_def power_int_def field_simps)
  qed (simp add: float_truncate_def float_value_def power_int_def)
qed

lemma round_ratio_pos:
  assumes "0 < n" and "0 < d" and "0 < p"
  shows "0 < fst (round_ratio p n d)"
proof -
  let ?r = "real_of_int n / real_of_int d"
  have "?r / 2 ^ p < ?r" using assms by (simp add: divide_less_eq)
  then have "0 < float_value (round_ratio p n d)" using round_ratio_error [OF assms] by linarith
  moreover have "0 < (2 :: real) powi snd (round_ratio p n d)" by simp
  ultimately show ?thesis by (auto simp: float_value_def zero_less_mult_iff)
qed

lemma int64_div_float_bounds:
  assumes x: "0 < x" and m: "0 < m" and p: "0 < p"
  shows "real_of_int (int64_div_float p x (m, e))
      \<le> real_of_int x / float_value (m, e) * (1 + 1 / 2 ^ p) * (1 + 1 / 2 ^ p)"
    and "real_of_int x / float_value (m, e) * (1 - 1 / 2 ^ p) * (1 - 1 / 2 ^ p) - 1
      < real_of_int (int64_div_float p x (m, e))"
proof -
  let ?\<epsilon> = "1 / 2 ^ p :: real" and ?x = "round_ratio p x 1"
  have eps: "0 < ?\<epsilon>" "?\<epsilon> < 1" using p by simp_all
  have xf: "float_of_int64 p x = ?x"
    using x by (simp add: float_of_int64_def Let_def case_prod_beta)
  have xpos: "0 < fst ?x" using round_ratio_pos [OF x _ p, of 1] by simp
  have xerr: "\<bar>float_value ?x - real_of_int x\<bar> \<le> real_of_int x * ?\<epsilon>"
    using round_ratio_error [OF x _ p, of 1] by simp
  let ?q = "round_ratio p (fst ?x) m"
  let ?Q = "float_quotient p ?x (m, e)" and ?v = "float_value ?x / float_value (m, e)"
  have Q: "?Q = (fst ?q, snd ?q + snd ?x - e)"
    using xpos m by (simp add: float_quotient_def Let_def case_prod_beta)
  have qpos: "0 \<le> fst ?Q" using round_ratio_pos [OF xpos m p] by (simp add: Q)
  have shift: "float_value ?Q = float_value ?q * 2 powi (snd ?x - e)"
    by (simp add: Q float_value_def power_int_add power_int_diff)
  have v: "?v = real_of_int (fst ?x) / real_of_int m * 2 powi (snd ?x - e)"
    by (simp add: float_value_def power_int_diff field_simps)
  have "\<bar>float_value ?q - real_of_int (fst ?x) / real_of_int m\<bar> * 2 powi (snd ?x - e)
      \<le> real_of_int (fst ?x) / real_of_int m / 2 ^ p * 2 powi (snd ?x - e)"
    by (rule mult_right_mono [OF round_ratio_error [OF xpos m p]]) simp
  then have "\<bar>float_value ?q * 2 powi (snd ?x - e) - real_of_int (fst ?x) / real_of_int m * 2 powi (snd ?x - e)\<bar>
      \<le> real_of_int (fst ?x) / real_of_int m * 2 powi (snd ?x - e) * ?\<epsilon>"
    unfolding abs_diff_scale [OF zero_le_two_powi] by (simp add: ac_simps)
  then have qerr: "\<bar>float_value ?Q - ?v\<bar> \<le> ?v * ?\<epsilon>" unfolding shift v .
  have rpos: "0 < float_value (m, e)" using m by (simp add: float_value_def)
  have vup: "?v \<le> real_of_int x / float_value (m, e) * (1 + ?\<epsilon>)"
    using divide_right_mono [OF _ less_imp_le [OF rpos], of "float_value ?x" "real_of_int x * (1 + ?\<epsilon>)"] xerr
    by (simp add: abs_le_iff distrib_left add_divide_distrib mult.commute)
  have vlow: "real_of_int x / float_value (m, e) * (1 - ?\<epsilon>) \<le> ?v"
    using divide_right_mono [OF _ less_imp_le [OF rpos], of "real_of_int x * (1 - ?\<epsilon>)" "float_value ?x"] xerr
    by (simp add: abs_le_iff right_diff_distrib diff_divide_distrib mult.commute)
  have out: "int64_div_float p x (m, e) = float_truncate ?Q" by (simp add: int64_div_float_def xf)
  have "float_value ?Q \<le> ?v + ?v * ?\<epsilon>" and low: "?v - ?v * ?\<epsilon> \<le> float_value ?Q"
    using qerr by linarith+
  then have "float_value ?Q \<le> ?v * (1 + ?\<epsilon>)" by (simp only: distrib_left mult_1_right)
  also have "\<dots> \<le> real_of_int x / float_value (m, e) * (1 + ?\<epsilon>) * (1 + ?\<epsilon>)"
    by (rule mult_right_mono [OF vup]) simp
  finally show "real_of_int (int64_div_float p x (m, e))
      \<le> real_of_int x / float_value (m, e) * (1 + ?\<epsilon>) * (1 + ?\<epsilon>)"
    using float_truncate_bounds(1) [OF qpos] unfolding out by linarith
  have "real_of_int x / float_value (m, e) * (1 - ?\<epsilon>) * (1 - ?\<epsilon>) \<le> ?v * (1 - ?\<epsilon>)"
    by (rule mult_right_mono [OF vlow]) (use eps in simp)
  also have "\<dots> \<le> float_value ?Q" using low by (simp only: right_diff_distrib mult_1_right)
  finally show "real_of_int x / float_value (m, e) * (1 - ?\<epsilon>) * (1 - ?\<epsilon>) - 1
      < real_of_int (int64_div_float p x (m, e))"
    using float_truncate_bounds(2) [OF qpos] unfolding out by linarith
qed

text \<open>Dividing by \<open>0.95f\<close> never lowers an activity, and adds at most a tenth of it; \<open>1e6\<close> scales it down.\<close>

lemma decay_bounds:
  assumes "0 \<le> x"
  shows "x \<le> int64_div_float 24 x (15938355, -24)" and "10 * int64_div_float 24 x (15938355, -24) \<le> 11 * x"
proof -
  have "x \<le> int64_div_float 24 x (15938355, -24) \<and> 10 * int64_div_float 24 x (15938355, -24) \<le> 11 * x"
  proof (cases "x = 0")
    case False
    then have x: "0 < x" using assms by simp
    have val: "float_value (15938355, -24) = 15938355 / 16777216"
      by (simp add: float_value_def power_int_def power_divide)
    note B = int64_div_float_bounds [OF x, of 15938355 24 "-24", unfolded val]
    have "real_of_int x - 1 < real_of_int (int64_div_float 24 x (15938355, -24))"
      using B(2) x by simp
    moreover have "10 * real_of_int (int64_div_float 24 x (15938355, -24)) \<le> 11 * real_of_int x"
      using B(1) x by simp
    ultimately show ?thesis by linarith
  qed simp
  then show "x \<le> int64_div_float 24 x (15938355, -24)" and "10 * int64_div_float 24 x (15938355, -24) \<le> 11 * x"
    by simp_all
qed

lemma normalization_bounds:
  assumes "0 \<le> x" and "x < 2 ^ 63"
  shows "0 \<le> int64_div_float 53 x (1000000, 0)" and "int64_div_float 53 x (1000000, 0) < 10 ^ 13"
proof -
  have "0 \<le> int64_div_float 53 x (1000000, 0) \<and> int64_div_float 53 x (1000000, 0) < 10 ^ 13"
  proof (cases "x = 0")
    case False
    then have x: "0 < x" using assms by simp
    have val: "float_value (1000000, 0) = 1000000" by (simp add: float_value_def)
    note B = int64_div_float_bounds [OF x, of 1000000 53 0, unfolded val]
    have "real_of_int x < real_of_int (2 ^ 63)" using assms(2) by (simp only: of_int_less_iff)
    then have up: "real_of_int x < 9223372036854775808" by simp
    have "- 1 < real_of_int (int64_div_float 53 x (1000000, 0))"
      using B(2) x by simp
    moreover have "real_of_int (int64_div_float 53 x (1000000, 0)) < 10000000000000"
      using B(1) up by simp
    ultimately show ?thesis by simp
  qed simp
  then show "0 \<le> int64_div_float 53 x (1000000, 0)" and "int64_div_float 53 x (1000000, 0) < 10 ^ 13"
    by simp_all
qed

end
