(* ===== verification/Sat_Solver.thy ===== *)
theory Sat_Solver
  imports Sat_Types Float_Division
begin

text \<open>
  The solver: the \<open>solver_context\<close> constructor and \<open>solver::solve\<close> of \<open>solver.cpp\<close>, and every
  function of \<open>solver_impl.cpp\<close>, in the order of the source. Operations take the \<open>platform\<close> they
  run on and return the updated context; what may throw or be undefined returns \<open>fault + 'a\<close>;
  what may not return yields an \<open>option\<close>. Log calls are left out.
\<close>

section \<open>Reading and writing the containers\<close>

abbreviation var_at :: "('vs, 'cs) platform \<Rightarrow> ('vs, 'cs) solver_context \<Rightarrow> struct_id \<Rightarrow> var_struct" where
  "var_at P ctx i \<equiv> soa_at (vars_lib P) (vars_soa ctx) i"

abbreviation var_ids :: "('vs, 'cs) platform \<Rightarrow> ('vs, 'cs) solver_context \<Rightarrow> struct_id list" where
  "var_ids P ctx \<equiv> soa_ids (vars_lib P) (vars_soa ctx)"

abbreviation clause_at :: "('vs, 'cs) platform \<Rightarrow> ('vs, 'cs) solver_context \<Rightarrow> struct_id \<Rightarrow> clause_struct" where
  "clause_at P ctx c \<equiv> soa_at (clauses_lib P) (clauses_soa ctx) c"

abbreviation clause_ids :: "('vs, 'cs) platform \<Rightarrow> ('vs, 'cs) solver_context \<Rightarrow> struct_id list" where
  "clause_ids P ctx \<equiv> soa_ids (clauses_lib P) (clauses_soa ctx)"

abbreviation var_lit :: "('vs, 'cs) platform \<Rightarrow> ('vs, 'cs) solver_context \<Rightarrow> struct_id \<Rightarrow> literal" where
  "var_lit P ctx i \<equiv> soa_literal (var_at P ctx i)"

abbreviation var_val :: "('vs, 'cs) platform \<Rightarrow> ('vs, 'cs) solver_context \<Rightarrow> struct_id \<Rightarrow> assignment" where
  "var_val P ctx i \<equiv> soa_assignment (var_at P ctx i)"

abbreviation var_level :: "('vs, 'cs) platform \<Rightarrow> ('vs, 'cs) solver_context \<Rightarrow> struct_id \<Rightarrow> nat" where
  "var_level P ctx i \<equiv> decision_level (soa_assignment_ctx (var_at P ctx i))"

abbreviation var_reason ::
    "('vs, 'cs) platform \<Rightarrow> ('vs, 'cs) solver_context \<Rightarrow> struct_id \<Rightarrow> struct_id option" where
  "var_reason P ctx i \<equiv> clause_propagation (soa_assignment_ctx (var_at P ctx i))"

abbreviation var_activity :: "('vs, 'cs) platform \<Rightarrow> ('vs, 'cs) solver_context \<Rightarrow> struct_id \<Rightarrow> int" where
  "var_activity P ctx i \<equiv> vsids_activity (soa_assignment_ctx (var_at P ctx i))"

abbreviation lits_of ::
    "('vs, 'cs) platform \<Rightarrow> ('vs, 'cs) solver_context \<Rightarrow> struct_id \<Rightarrow> (literal \<times> struct_id) list" where
  "lits_of P ctx c \<equiv> get_literals (soa_clause (clause_at P ctx c))"

definition set_var ::
    "('vs, 'cs) platform \<Rightarrow> ('vs, 'cs) solver_context \<Rightarrow> struct_id \<Rightarrow> var_struct \<Rightarrow> ('vs, 'cs) solver_context" where
  "set_var P ctx i e = ctx\<lparr>vars_soa := soa_set (vars_lib P) (vars_soa ctx) i e\<rparr>"

section \<open>The context constructor\<close>

definition fresh_var :: "literal \<Rightarrow> var_struct" where
  "fresh_var lit =
     \<lparr>soa_literal = lit, soa_assignment = not_assigned,
      soa_assignment_ctx = empty_assignment_context, soa_var_compiler_ctx = empty_metadata\<rparr>"

fun insert_literals :: "('vs, 'cs) platform \<Rightarrow> literal list \<Rightarrow> 'vs \<Rightarrow> 'vs" where
  "insert_literals P [] vs = vs"
| "insert_literals P (lit # lits) vs =
     insert_literals P lits (fst (soa_insert (vars_lib P) vs (fresh_var lit)))"

definition bump_activity :: "int \<Rightarrow> var_struct \<Rightarrow> var_struct" where
  "bump_activity n v =
     v\<lparr>soa_assignment_ctx := (soa_assignment_ctx v)
        \<lparr>vsids_activity := vsids_activity (soa_assignment_ctx v) + n\<rparr>\<rparr>"

text \<open>
  The variables of a clause: for each literal the first variable with an equal literal, whose
  activity is incremented. A literal no variable has fails the assertion; with \<open>NDEBUG\<close> the end
  iterator is dereferenced.
\<close>

definition find_var :: "('vs, 'cs) platform \<Rightarrow> 'vs \<Rightarrow> literal \<Rightarrow> struct_id option" where
  "find_var P vs l = find (\<lambda>i. lit_eq (soa_literal (soa_at (vars_lib P) vs i)) l) (soa_ids (vars_lib P) vs)"

fun all_clause_ids :: "('vs, 'cs) platform \<Rightarrow> literal list \<Rightarrow> 'vs \<Rightarrow> ('vs \<times> struct_id list) fallible" where
  "all_clause_ids P [] vs = Inr (vs, [])"
| "all_clause_ids P (l # ls) vs =
     (case fabko_assert (ndebug P) (find_var P vs l \<noteq> None)
             ''a clause cannot contains a non-defined literal'' of
        Inl e \<Rightarrow> Inl e
      | Inr _ \<Rightarrow>
          (case find_var P vs l of
             None \<Rightarrow> Inl Undefined_Behaviour
           | Some i \<Rightarrow>
               (case all_clause_ids P ls
                       (soa_set (vars_lib P) vs i (bump_activity 1 (soa_at (vars_lib P) vs i))) of
                  Inl e \<Rightarrow> Inl e
                | Inr (vs', is) \<Rightarrow> Inr (vs', i # is))))"

fun insert_clauses ::
    "('vs, 'cs) platform \<Rightarrow> literal list list \<Rightarrow> 'vs \<Rightarrow> 'cs \<Rightarrow> ('vs \<times> 'cs) fallible" where
  "insert_clauses P [] vs cs = Inr (vs, cs)"
| "insert_clauses P (model_clause # rest) vs cs =
     (case all_clause_ids P model_clause vs of
        Inl e \<Rightarrow> Inl e
      | Inr (vs', is) \<Rightarrow>
          (let clause_to_insert = make_clause model_clause is in
           case make_clause_watcher P vs' clause_to_insert of
             Inl e \<Rightarrow> Inl e
           | Inr w \<Rightarrow>
               insert_clauses P rest vs'
                 (fst (soa_insert (clauses_lib P) cs
                   \<lparr>soa_clause = clause_to_insert, soa_watcher = w,
                    soa_clause_compiler_ctx = empty_metadata\<rparr>))))"

definition make_solver_context ::
    "('vs, 'cs) platform \<Rightarrow> model \<Rightarrow> ('vs, 'cs) solver_context fallible" where
  "make_solver_context P m =
     (case insert_clauses P (clauses m)
             (insert_literals P (literals m) (soa_new (vars_lib P))) (soa_new (clauses_lib P)) of
        Inl e \<Rightarrow> Inl e
      | Inr (vs, cs) \<Rightarrow>
          Inr \<lparr>config = conf m, context_model = m, vars_soa = vs, clauses_soa = cs, trail = [],
               conflict_count_since_last_restart = 0, current_decision_level = 0,
               stats = zero_statistics, solutions_found = []\<rparr>)"

section \<open>Clause status\<close>

definition lit_satisfied :: "('vs, 'cs) platform \<Rightarrow> ('vs, 'cs) solver_context \<Rightarrow> literal \<times> struct_id \<Rightarrow> bool" where
  "lit_satisfied P ctx p \<longleftrightarrow>
     (is_on (fst p) \<and> var_val P ctx (snd p) = on) \<or> (is_off (fst p) \<and> var_val P ctx (snd p) = off)"

definition is_clause_satisfied :: "('vs, 'cs) platform \<Rightarrow> ('vs, 'cs) solver_context \<Rightarrow> clause \<Rightarrow> bool" where
  "is_clause_satisfied P ctx c = list_ex (lit_satisfied P ctx) (get_literals c)"

definition lit_falsified :: "('vs, 'cs) platform \<Rightarrow> ('vs, 'cs) solver_context \<Rightarrow> literal \<times> struct_id \<Rightarrow> bool" where
  "lit_falsified P ctx p \<longleftrightarrow>
     (is_on (fst p) \<and> var_val P ctx (snd p) = off) \<or> (is_off (fst p) \<and> var_val P ctx (snd p) = on)"

definition has_conflict :: "('vs, 'cs) platform \<Rightarrow> ('vs, 'cs) solver_context \<Rightarrow> clause \<Rightarrow> bool" where
  "has_conflict P ctx c = list_all (lit_falsified P ctx) (get_literals c)"

section \<open>Variable activities\<close>

text \<open>
  Activities are 64-bit: a sum or a quotient outside their range is undefined. \<open>1e6\<close> is the
  \<open>double\<close> \<open>1000000 * 2 ^ 0\<close>.
\<close>

definition int64_max :: int where
  "int64_max = 2 ^ 63 - 1"

definition in_int64 :: "int \<Rightarrow> bool" where
  "in_int64 x \<longleftrightarrow> - int64_max - 1 \<le> x \<and> x \<le> int64_max"

definition with_activity :: "int \<Rightarrow> var_struct \<Rightarrow> var_struct" where
  "with_activity a v = v\<lparr>soa_assignment_ctx := (soa_assignment_ctx v)\<lparr>vsids_activity := a\<rparr>\<rparr>"

definition add_activity :: "int \<Rightarrow> var_struct \<Rightarrow> var_struct fallible" where
  "add_activity n v =
     (let a = vsids_activity (soa_assignment_ctx v) + n
      in if in_int64 a then Inr (with_activity a v) else Inl Undefined_Behaviour)"

definition divide_activity :: "nat \<Rightarrow> int \<times> int \<Rightarrow> var_struct \<Rightarrow> var_struct fallible" where
  "divide_activity p r v =
     (let a = int64_div_float p (vsids_activity (soa_assignment_ctx v)) r
      in if fst r \<noteq> 0 \<and> in_int64 a then Inr (with_activity a v) else Inl Undefined_Behaviour)"

text \<open>The loops over variables apply one of these to each of them.\<close>

fun update_activities ::
    "('vs, 'cs) platform \<Rightarrow> (var_struct \<Rightarrow> var_struct fallible) \<Rightarrow> struct_id list \<Rightarrow> 'vs \<Rightarrow> 'vs fallible" where
  "update_activities P f [] vs = Inr vs"
| "update_activities P f (i # is) vs =
     (case f (soa_at (vars_lib P) vs i) of
        Inl e \<Rightarrow> Inl e
      | Inr v \<Rightarrow> update_activities P f is (soa_set (vars_lib P) vs i v))"

definition needs_normalization ::
    "('vs, 'cs) platform \<Rightarrow> ('vs, 'cs) solver_context \<Rightarrow> clause \<Rightarrow> bool" where
  "needs_normalization P ctx learned =
     list_ex (\<lambda>p. int64_max - vsids_increment (config ctx) \<le> var_activity P ctx (snd p))
       (get_literals learned)"

definition normalize_activities ::
    "('vs, 'cs) platform \<Rightarrow> ('vs, 'cs) solver_context \<Rightarrow> clause \<Rightarrow> 'vs fallible" where
  "normalize_activities P ctx learned =
     (if get_literals learned \<noteq> [] \<and> \<not> in_int64 (int64_max - vsids_increment (config ctx))
      then Inl Undefined_Behaviour
      else if needs_normalization P ctx learned
      then update_activities P (divide_activity 53 (1000000, 0)) (var_ids P ctx) (vars_soa ctx)
      else Inr (vars_soa ctx))"

text \<open>
  The decay test takes a \<open>size_t\<close> modulo an \<open>int32_t\<close>, which is converted to 64 unsigned bits;
  an interval of 0 is undefined.
\<close>

definition decay_activities ::
    "('vs, 'cs) platform \<Rightarrow> ('vs, 'cs) solver_context \<Rightarrow> 'vs \<Rightarrow> 'vs fallible" where
  "decay_activities P ctx vs =
     (let interval = nat (decay_interval (config ctx) mod 2 ^ 64)
      in if interval = 0 then Inl Undefined_Behaviour
         else if conflicts (stats ctx) mod interval = 0
         then update_activities P (divide_activity 24 (vsids_decay_ratio (config ctx)))
                (soa_ids (vars_lib P) vs) vs
         else Inr vs)"

definition update_vsids_activity ::
    "('vs, 'cs) platform \<Rightarrow> ('vs, 'cs) solver_context \<Rightarrow> clause \<Rightarrow> ('vs, 'cs) solver_context fallible" where
  "update_vsids_activity P ctx learned =
     (case normalize_activities P ctx learned of
        Inl e \<Rightarrow> Inl e
      | Inr vs1 \<Rightarrow>
          (case update_activities P (add_activity (vsids_increment (config ctx)))
                  (map snd (get_literals learned)) vs1 of
             Inl e \<Rightarrow> Inl e
           | Inr vs2 \<Rightarrow>
               (case decay_activities P ctx vs2 of
                  Inl e \<Rightarrow> Inl e
                | Inr vs3 \<Rightarrow> Inr (ctx\<lparr>vars_soa := vs3\<rparr>))))"

section \<open>Conflict resolution\<close>

definition at_current_level :: "('vs, 'cs) platform \<Rightarrow> ('vs, 'cs) solver_context \<Rightarrow> struct_id \<Rightarrow> bool" where
  "at_current_level P ctx v \<longleftrightarrow> var_level P ctx v = current_decision_level ctx"

text \<open>The inner loop: down the trail to a propagated variable of the current level in \<open>cur\<close>, or to 0.\<close>

definition is_antecedent ::
    "('vs, 'cs) platform \<Rightarrow> ('vs, 'cs) solver_context \<Rightarrow> struct_id list \<Rightarrow> struct_id \<Rightarrow> bool" where
  "is_antecedent P ctx cur v \<longleftrightarrow>
     \<not> is_decision (soa_assignment_ctx (var_at P ctx v)) \<and> at_current_level P ctx v \<and>
     list_ex (\<lambda>u. lit_value (var_lit P ctx u) = lit_value (var_lit P ctx v)) cur"

fun find_antecedent ::
    "('vs, 'cs) platform \<Rightarrow> ('vs, 'cs) solver_context \<Rightarrow> struct_id list \<Rightarrow> nat \<Rightarrow> nat" where
  "find_antecedent P ctx cur 0 = 0"
| "find_antecedent P ctx cur (Suc t) =
     (if is_antecedent P ctx cur (trail ctx ! Suc t) then Suc t else find_antecedent P ctx cur t)"

text \<open>The literals of the antecedent clause join the learned clause.\<close>

type_synonym resolution = "(literal \<times> struct_id) list \<times> struct_id list \<times> nat"

fun add_antecedent ::
    "('vs, 'cs) platform \<Rightarrow> ('vs, 'cs) solver_context \<Rightarrow> literal \<Rightarrow> (literal \<times> struct_id) list \<Rightarrow>
     resolution \<Rightarrow> resolution" where
  "add_antecedent P ctx trail_lit [] st = st"
| "add_antecedent P ctx trail_lit ((prop_lit, prop_varid) # ps) (learned, cur, bt) =
     (if lit_value prop_lit = lit_value trail_lit
         \<or> list_ex (\<lambda>q. lit_value prop_lit = lit_value (fst q)) learned
      then add_antecedent P ctx trail_lit ps (learned, cur, bt)
      else if at_current_level P ctx prop_varid
      then add_antecedent P ctx trail_lit ps (learned @ [(prop_lit, prop_varid)], cur @ [prop_varid], bt)
      else if var_level P ctx prop_varid > bt
      then add_antecedent P ctx trail_lit ps
             (learned @ [(prop_lit, prop_varid)], cur, var_level P ctx prop_varid)
      else add_antecedent P ctx trail_lit ps (learned @ [(prop_lit, prop_varid)], cur, bt))"

definition resolve_on ::
    "('vs, 'cs) platform \<Rightarrow> ('vs, 'cs) solver_context \<Rightarrow> struct_id \<Rightarrow> resolution \<Rightarrow> resolution" where
  "resolve_on P ctx v st =
     (let (learned, cur, bt) = st;
          trail_lit = var_lit P ctx v;
          learned1 = filter (\<lambda>q. lit_value (fst q) \<noteq> lit_value trail_lit) learned;
          (learned2, cur2, bt2) =
            (case var_reason P ctx v of
               None \<Rightarrow> (learned1, cur, bt)
             | Some c \<Rightarrow> add_antecedent P ctx trail_lit (lits_of P ctx c) (learned1, cur, bt))
      in (learned2, filter (\<lambda>u. \<not> lit_eq (var_lit P ctx u) trail_lit) cur2, bt2))"

lemma find_antecedent_le: "find_antecedent P ctx cur t \<le> t"
  by (induction t) auto

function resolve_loop ::
    "('vs, 'cs) platform \<Rightarrow> ('vs, 'cs) solver_context \<Rightarrow> resolution \<Rightarrow> nat \<Rightarrow> resolution" where
  "resolve_loop P ctx st t =
     (if length (fst (snd st)) > 1 \<and> find_antecedent P ctx (fst (snd st)) t \<noteq> 0
      then resolve_loop P ctx
             (resolve_on P ctx (trail ctx ! find_antecedent P ctx (fst (snd st)) t) st)
             (find_antecedent P ctx (fst (snd st)) t - 1)
      else st)"
  by pat_completeness auto
termination
proof (relation "measure (\<lambda>(P, ctx, st, t). t)")
  fix P :: "('a, 'b) platform" and ctx :: "('a, 'b) solver_context" and st :: resolution and t
  assume "1 < length (fst (snd st)) \<and> find_antecedent P ctx (fst (snd st)) t \<noteq> 0"
  then show "((P, ctx, resolve_on P ctx (trail ctx ! find_antecedent P ctx (fst (snd st)) t) st,
      find_antecedent P ctx (fst (snd st)) t - 1), P, ctx, st, t) \<in> measure (\<lambda>(P, ctx, st, t). t)"
    using find_antecedent_le [of P ctx "fst (snd st)" t] by (simp, linarith)
qed simp

declare resolve_loop.simps [simp del]

text \<open>
  \<open>trail_index\<close> starts at \<open>size() - 1\<close>: with an empty trail and two variables of the current
  level in the conflicting clause, the loop would read outside the trail.
\<close>

definition normalize_learned :: "(literal \<times> struct_id) list \<Rightarrow> (literal \<times> struct_id) list" where
  "normalize_learned ps =
     unique_runs (\<lambda>a b. lit_value (fst a) = lit_value (fst b)) (sort_key (\<lambda>a. lit_value (fst a)) ps)"

definition resolve_conflict ::
    "('vs, 'cs) platform \<Rightarrow> ('vs, 'cs) solver_context \<Rightarrow> struct_id \<Rightarrow> conflict_resolution_result fallible" where
  "resolve_conflict P ctx conflict =
     (let conflict_clause = lits_of P ctx conflict;
          current_level_vars = map snd (filter (\<lambda>p. at_current_level P ctx (snd p)) conflict_clause)
      in if length current_level_vars > 1 \<and> trail ctx = [] then Inl Undefined_Behaviour
         else
           (let (learned, cur, bt) =
                  resolve_loop P ctx (conflict_clause, current_level_vars, 0) (length (trail ctx) - 1)
            in Inr \<lparr>learned_clause = clause_of_pairs (normalize_learned learned), backtrack_level = bt\<rparr>))"

section \<open>Backtracking\<close>

definition unassign :: "var_struct \<Rightarrow> var_struct" where
  "unassign v =
     v\<lparr>soa_assignment := not_assigned,
       soa_assignment_ctx := (soa_assignment_ctx v)\<lparr>clause_propagation := None\<rparr>\<rparr>"

function backtrack_loop ::
    "('vs, 'cs) platform \<Rightarrow> nat \<Rightarrow> ('vs, 'cs) solver_context \<Rightarrow> ('vs, 'cs) solver_context" where
  "backtrack_loop P level ctx =
     (if trail ctx \<noteq> [] \<and> \<not> var_level P ctx (last (trail ctx)) \<le> level
      then backtrack_loop P level
             ((set_var P ctx (last (trail ctx)) (unassign (var_at P ctx (last (trail ctx)))))
                \<lparr>trail := butlast (trail ctx)\<rparr>)
      else ctx)"
  by pat_completeness auto
termination by (relation "measure (\<lambda>(P, level, ctx). length (trail ctx))") auto

declare backtrack_loop.simps [simp del]

definition backtrack ::
    "('vs, 'cs) platform \<Rightarrow> ('vs, 'cs) solver_context \<Rightarrow> nat \<Rightarrow> ('vs, 'cs) solver_context" where
  "backtrack P ctx level = (backtrack_loop P level ctx)\<lparr>current_decision_level := level\<rparr>"

section \<open>Unit propagation\<close>

definition assign_propagated ::
    "('vs, 'cs) platform \<Rightarrow> ('vs, 'cs) solver_context \<Rightarrow> struct_id \<Rightarrow> literal \<times> struct_id \<Rightarrow>
     ('vs, 'cs) solver_context" where
  "assign_propagated P ctx c p =
     (set_var P ctx (snd p)
        ((var_at P ctx (snd p))
           \<lparr>soa_assignment := (if is_on (fst p) then on else off),
            soa_assignment_ctx := (soa_assignment_ctx (var_at P ctx (snd p)))
              \<lparr>decision_level := current_decision_level ctx, clause_propagation := Some c\<rparr>\<rparr>))
       \<lparr>trail := trail ctx @ [snd p]\<rparr>"

definition unassigned_pairs ::
    "('vs, 'cs) platform \<Rightarrow> ('vs, 'cs) solver_context \<Rightarrow> struct_id \<Rightarrow> (literal \<times> struct_id) list" where
  "unassigned_pairs P ctx c =
     filter (\<lambda>p. var_val P ctx (snd p) = not_assigned) (lits_of P ctx c)"

text \<open>The lambda \<open>propagate\<close>: whether it propagated, the conflict, the context.\<close>

definition propagate ::
    "('vs, 'cs) platform \<Rightarrow> struct_id option \<Rightarrow> ('vs, 'cs) solver_context \<Rightarrow> struct_id \<Rightarrow>
     bool \<times> struct_id option \<times> ('vs, 'cs) solver_context" where
  "propagate P conflict ctx c =
     (if conflict \<noteq> None then (False, conflict, ctx)
      else if is_clause_satisfied P ctx (soa_clause (clause_at P ctx c)) then (False, conflict, ctx)
      else
        (case unassigned_pairs P ctx c of
           [] \<Rightarrow> (False, Some c, ctx)
         | [p] \<Rightarrow> (True, conflict, assign_propagated P ctx c p)
         | _ \<Rightarrow> (False, conflict, ctx)))"

text \<open>One \<open>count_if\<close> over the clauses.\<close>

fun propagate_pass ::
    "('vs, 'cs) platform \<Rightarrow> struct_id list \<Rightarrow> struct_id option \<Rightarrow> ('vs, 'cs) solver_context \<Rightarrow>
     nat \<times> struct_id option \<times> ('vs, 'cs) solver_context" where
  "propagate_pass P [] conflict ctx = (0, conflict, ctx)"
| "propagate_pass P (c # cs) conflict ctx =
     (let (propagated, conflict1, ctx1) = propagate P conflict ctx c;
          (n, conflict2, ctx2) = propagate_pass P cs conflict1 ctx1
      in ((if propagated then n + 1 else n), conflict2, ctx2))"

definition propagation_round ::
    "('vs, 'cs) platform \<Rightarrow> ('vs, 'cs) solver_context \<Rightarrow>
     (('vs, 'cs) solver_context + struct_id option \<times> ('vs, 'cs) solver_context) option" where
  "propagation_round P ctx =
     (let (n, conflict, ctx1) = propagate_pass P (clause_ids P ctx) None ctx
      in if n = 0 \<or> conflict \<noteq> None then Some (Inr (conflict, ctx1))
         else Some (Inl (ctx1\<lparr>stats := (stats ctx1)\<lparr>propagations := propagations (stats ctx1) + n\<rparr>\<rparr>)))"

definition unit_propagation ::
    "('vs, 'cs) platform \<Rightarrow> ('vs, 'cs) solver_context \<Rightarrow>
     (struct_id option \<times> ('vs, 'cs) solver_context) option" where
  "unit_propagation P ctx = loop_until (propagation_round P) ctx"

section \<open>Learning and deciding\<close>

definition learn_additional_clause ::
    "('vs, 'cs) platform \<Rightarrow> ('vs, 'cs) solver_context \<Rightarrow> clause \<Rightarrow> ('vs, 'cs) solver_context fallible" where
  "learn_additional_clause P ctx clause_learned =
     (if is_empty clause_learned then Inr ctx
      else
        (case make_clause_watcher P (vars_soa ctx) clause_learned of
           Inl e \<Rightarrow> Inl e
         | Inr w \<Rightarrow>
             Inr (ctx\<lparr>clauses_soa := fst (soa_insert (clauses_lib P) (clauses_soa ctx)
                        \<lparr>soa_clause = clause_learned, soa_watcher = w,
                         soa_clause_compiler_ctx = empty_metadata\<rparr>),
                      stats := (stats ctx)
                        \<lparr>learned_clause_count := learned_clause_count (stats ctx) + 1\<rparr>\<rparr>)))"

definition unassigned_vars :: "('vs, 'cs) platform \<Rightarrow> ('vs, 'cs) solver_context \<Rightarrow> struct_id list" where
  "unassigned_vars P ctx = filter (\<lambda>i. var_val P ctx i = not_assigned) (var_ids P ctx)"

definition assign_decision ::
    "('vs, 'cs) platform \<Rightarrow> ('vs, 'cs) solver_context \<Rightarrow> struct_id \<Rightarrow> ('vs, 'cs) solver_context" where
  "assign_decision P ctx v =
     (let level = current_decision_level ctx + 1;
          ctx1 = ctx\<lparr>current_decision_level := level,
                     stats := (stats ctx)
                       \<lparr>max_decision_lvl := max (max_decision_lvl (stats ctx)) level,
                        decisions := decisions (stats ctx) + 1\<rparr>\<rparr>
      in (set_var P ctx1 v
            ((var_at P ctx1 v)
               \<lparr>soa_assignment := on,
                soa_assignment_ctx := (soa_assignment_ctx (var_at P ctx1 v))\<lparr>decision_level := level\<rparr>\<rparr>))
           \<lparr>trail := trail ctx1 @ [v]\<rparr>)"

definition make_decision ::
    "('vs, 'cs) platform \<Rightarrow> ('vs, 'cs) solver_context \<Rightarrow> bool \<times> ('vs, 'cs) solver_context" where
  "make_decision P ctx =
     (case unassigned_vars P ctx of
        [] \<Rightarrow> (False, ctx)
      | v # vs \<Rightarrow>
          (True, assign_decision P ctx
             (max_element_from (\<lambda>a b. var_activity P ctx a < var_activity P ctx b) v vs)))"

section \<open>The main loop\<close>

definition restart_if_needed ::
    "('vs, 'cs) platform \<Rightarrow> ('vs, 'cs) solver_context \<Rightarrow> ('vs, 'cs) solver_context" where
  "restart_if_needed P ctx =
     (if unat (restart_threshold (config ctx)) \<le> conflict_count_since_last_restart ctx
      then
        (let ctx1 = backtrack P
               (ctx\<lparr>conflict_count_since_last_restart := 0,
                    stats := (stats ctx)\<lparr>restarts := restarts (stats ctx) + 1\<rparr>\<rparr>) 0
         in ctx1\<lparr>config := (config ctx1)
              \<lparr>restart_threshold :=
                 restart_threshold (config ctx1) * restart_multiplier (config ctx1)\<rparr>\<rparr>)
      else ctx)"

definition extract_solution :: "('vs, 'cs) platform \<Rightarrow> ('vs, 'cs) solver_context \<Rightarrow> literal list" where
  "extract_solution P ctx =
     map (\<lambda>i. Literal (if var_val P ctx i = on then lit_value (var_lit P ctx i)
                       else - lit_value (var_lit P ctx i)))
       (var_ids P ctx)"

definition count_conflict :: "('vs, 'cs) solver_context \<Rightarrow> ('vs, 'cs) solver_context" where
  "count_conflict ctx =
     ctx\<lparr>conflict_count_since_last_restart := conflict_count_since_last_restart ctx + 1,
         stats := (stats ctx)\<lparr>conflicts := conflicts (stats ctx) + 1\<rparr>\<rparr>"

type_synonym ('vs, 'cs) solve_outcome =
  "(sat_error + solver_result) fallible \<times> ('vs, 'cs) solver_context"

definition handle_conflict ::
    "('vs, 'cs) platform \<Rightarrow> ('vs, 'cs) solver_context \<Rightarrow> struct_id \<Rightarrow>
     ('vs, 'cs) solver_context + ('vs, 'cs) solve_outcome" where
  "handle_conflict P ctx conflict =
     (let ctx1 = count_conflict ctx in
      case resolve_conflict P ctx1 conflict of
        Inl e \<Rightarrow> Inr (Inl e, ctx1)
      | Inr r \<Rightarrow>
          if current_decision_level ctx1 = 0 \<and> backtrack_level r = 0
          then Inr (Inr (Inl unsatisfiable), ctx1)
          else if is_empty (learned_clause r) then Inr (Inr (Inl unsatisfiable), ctx1)
          else
            (case learn_additional_clause P ctx1 (learned_clause r) of
               Inl e \<Rightarrow> Inr (Inl e, ctx1)
             | Inr ctx2 \<Rightarrow>
                 (let ctx3 = backtrack P ctx2 (backtrack_level r) in
                  case update_vsids_activity P ctx3 (learned_clause r) of
                    Inl e \<Rightarrow> Inr (Inl e, ctx3)
                  | Inr ctx4 \<Rightarrow> Inl ctx4)))"

definition decide_or_finish ::
    "('vs, 'cs) platform \<Rightarrow> ('vs, 'cs) solver_context \<Rightarrow>
     ('vs, 'cs) solver_context + ('vs, 'cs) solve_outcome" where
  "decide_or_finish P ctx =
     (let (decided, ctx1) = make_decision P ctx in
      if decided then Inl ctx1
      else if list_all (\<lambda>c. is_clause_satisfied P ctx1 (soa_clause (clause_at P ctx1 c))) (clause_ids P ctx1)
              \<and> extract_solution P ctx1 \<noteq> []
      then Inr (Inr (Inr \<lparr>result_literals = extract_solution P ctx1\<rparr>), ctx1)
      else Inl ctx1)"

definition solve_round ::
    "('vs, 'cs) platform \<Rightarrow> ('vs, 'cs) solver_context \<Rightarrow>
     (('vs, 'cs) solver_context + ('vs, 'cs) solve_outcome) option" where
  "solve_round P ctx =
     (case unit_propagation P (restart_if_needed P ctx) of
        None \<Rightarrow> None
      | Some (Some conflict, ctx1) \<Rightarrow> Some (handle_conflict P ctx1 conflict)
      | Some (None, ctx1) \<Rightarrow> Some (decide_or_finish P ctx1))"

definition solve_sat ::
    "('vs, 'cs) platform \<Rightarrow> ('vs, 'cs) solver_context \<Rightarrow> ('vs, 'cs) solve_outcome option" where
  "solve_sat P ctx = loop_until (solve_round P) ctx"

section \<open>\<open>solver::solve\<close>\<close>

fun solve_times ::
    "('vs, 'cs) platform \<Rightarrow> nat \<Rightarrow> solver_result list \<Rightarrow> ('vs, 'cs) solver_context \<Rightarrow>
     (solver_result list fallible \<times> ('vs, 'cs) solver_context) option" where
  "solve_times P 0 res ctx = Some (Inr res, ctx)"
| "solve_times P (Suc n) res ctx =
     (case solve_sat P ctx of
        None \<Rightarrow> None
      | Some (Inl e, ctx') \<Rightarrow> Some (Inl e, ctx')
      | Some (Inr (Inl error), ctx') \<Rightarrow> Some (Inr res, ctx')
      | Some (Inr (Inr r), ctx') \<Rightarrow> solve_times P n (res @ [r]) ctx')"

definition solve ::
    "('vs, 'cs) platform \<Rightarrow> ('vs, 'cs) solver_context \<Rightarrow> int \<Rightarrow>
     (solver_result list fallible \<times> ('vs, 'cs) solver_context) option" where
  "solve P ctx expected = solve_times P (nat expected) [] ctx"

text \<open>The default argument of \<open>solve\<close>.\<close>

definition default_expected :: int where
  "default_expected = -1"

end
