(* ===== verification/Sat_Invariant.thy ===== *)
theory Sat_Invariant
  imports Sat_Solver
begin

text \<open>
  What a SAT solver has to compute (valuations, satisfaction, entailment, solutions of a model)
  and the invariant of the solver context: struct ids are linked to variables, the trail records
  every assignment with its level and its reason, below the current decision level no clause was
  left unit or falsified, and the clause database stays equivalent to the model's clauses.
\<close>

named_theorems solver_defs

section \<open>Propositional semantics\<close>

type_synonym valuation = "int \<Rightarrow> bool"

definition lit_holds :: "valuation \<Rightarrow> literal \<Rightarrow> bool" where
  "lit_holds \<sigma> l \<longleftrightarrow> (is_on l \<and> \<sigma> (lit_value l)) \<or> (is_off l \<and> \<not> \<sigma> (lit_value l))"

definition clause_holds :: "valuation \<Rightarrow> literal list \<Rightarrow> bool" where
  "clause_holds \<sigma> c \<longleftrightarrow> (\<exists>l\<in>set c. lit_holds \<sigma> l)"

definition cnf_holds :: "valuation \<Rightarrow> literal list list \<Rightarrow> bool" where
  "cnf_holds \<sigma> cs \<longleftrightarrow> (\<forall>c\<in>set cs. clause_holds \<sigma> c)"

definition cnf_satisfiable :: "literal list list \<Rightarrow> bool" where
  "cnf_satisfiable cs \<longleftrightarrow> (\<exists>\<sigma>. cnf_holds \<sigma> cs)"

text \<open>
  A model is well formed when its literals name distinct variables and its clauses use these
  variables only; 0 is no literal. A solution gives every variable of the model a sign and
  contains a literal of every clause.
\<close>

definition wf_model :: "model \<Rightarrow> bool" where
  "wf_model m \<longleftrightarrow>
     distinct (map lit_value (literals m)) \<and>
     (\<forall>c\<in>set (clauses m). \<forall>l\<in>set c. raw_value l \<noteq> 0 \<and> lit_value l \<in> lit_value ` set (literals m))"

definition is_solution :: "model \<Rightarrow> literal list \<Rightarrow> bool" where
  "is_solution m ls \<longleftrightarrow>
     map lit_value ls = map lit_value (literals m) \<and> (\<forall>c\<in>set (clauses m). \<exists>l\<in>set c. l \<in> set ls)"

definition valuation_of :: "literal list \<Rightarrow> valuation" where
  "valuation_of ls = (\<lambda>v. \<exists>l\<in>set ls. is_on l \<and> lit_value l = v)"

lemma solution_satisfies:
  assumes wf: "wf_model m" and sol: "is_solution m ls"
  shows "cnf_holds (valuation_of ls) (clauses m)"
  unfolding cnf_holds_def clause_holds_def
proof
  fix c assume c: "c \<in> set (clauses m)"
  with sol obtain l where l: "l \<in> set c" "l \<in> set ls" by (auto simp: is_solution_def)
  have nz: "raw_value l \<noteq> 0" using wf c l by (auto simp: wf_model_def)
  have dist: "distinct (map lit_value ls)"
    using wf sol by (simp add: wf_model_def is_solution_def)
  have "lit_holds (valuation_of ls) l"
  proof (cases "is_on l")
    case True
    then show ?thesis using l by (auto simp: lit_holds_def valuation_of_def)
  next
    case False
    have "\<not> valuation_of ls (lit_value l)"
    proof
      assume "valuation_of ls (lit_value l)"
      then obtain l' where "l' \<in> set ls" "is_on l'" "lit_value l' = lit_value l"
        by (auto simp: valuation_of_def)
      with dist l(2) have "l' = l" by (auto simp: distinct_map inj_on_def)
      with False \<open>is_on l'\<close> show False by simp
    qed
    then show ?thesis using False nz by (simp add: lit_holds_def is_on_off_iff)
  qed
  with l show "\<exists>l\<in>set c. lit_holds (valuation_of ls) l" by blast
qed

section \<open>The invariant\<close>

definition pair_ok :: "('vs, 'cs) platform \<Rightarrow> ('vs, 'cs) solver_context \<Rightarrow> literal \<times> struct_id \<Rightarrow> bool" where
  "pair_ok P ctx p \<longleftrightarrow>
     snd p \<in> set (var_ids P ctx) \<and> lit_value (fst p) = lit_value (var_lit P ctx (snd p)) \<and>
     raw_value (fst p) \<noteq> 0"

definition linked :: "('vs, 'cs) platform \<Rightarrow> ('vs, 'cs) solver_context \<Rightarrow> bool" where
  "linked P ctx \<longleftrightarrow>
     inj_on (\<lambda>v. lit_value (var_lit P ctx v)) (set (var_ids P ctx)) \<and>
     (\<forall>c\<in>set (clause_ids P ctx). \<forall>p\<in>set (lits_of P ctx c). pair_ok P ctx p)"

text \<open>
  Why a variable on the trail has its value, given the part of the trail below it: a decision
  opens a new level, a propagated variable is the one true literal of its clause, all others being
  falsified by earlier assignments.
\<close>

definition justified ::
    "('vs, 'cs) platform \<Rightarrow> ('vs, 'cs) solver_context \<Rightarrow> struct_id list \<Rightarrow> struct_id \<Rightarrow> bool" where
  "justified P ctx pre v \<longleftrightarrow>
     (case var_reason P ctx v of
        None \<Rightarrow> 0 < var_level P ctx v \<and> (\<forall>u\<in>set pre. var_level P ctx u < var_level P ctx v)
      | Some c \<Rightarrow>
          c \<in> set (clause_ids P ctx) \<and>
          (\<exists>l. filter (\<lambda>p. snd p = v) (lits_of P ctx c) = [(l, v)] \<and> lit_satisfied P ctx (l, v)) \<and>
          (\<forall>p\<in>set (lits_of P ctx c). snd p \<noteq> v \<longrightarrow> snd p \<in> set pre \<and> lit_falsified P ctx p))"

definition trail_inv :: "('vs, 'cs) platform \<Rightarrow> ('vs, 'cs) solver_context \<Rightarrow> bool" where
  "trail_inv P ctx \<longleftrightarrow>
     distinct (trail ctx) \<and>
     set (trail ctx) = {v \<in> set (var_ids P ctx). var_val P ctx v \<noteq> not_assigned} \<and>
     sorted (map (var_level P ctx) (trail ctx)) \<and>
     (\<forall>v\<in>set (trail ctx). var_level P ctx v \<le> current_decision_level ctx) \<and>
     (\<forall>v\<in>set (var_ids P ctx). var_val P ctx v = not_assigned \<longrightarrow> var_reason P ctx v = None) \<and>
     (\<forall>pre v post. trail ctx = pre @ v # post \<longrightarrow> justified P ctx pre v)"

text \<open>A clause was neither unit nor falsified when level \<open>k\<close> was complete.\<close>

definition closed_at :: "('vs, 'cs) platform \<Rightarrow> ('vs, 'cs) solver_context \<Rightarrow> nat \<Rightarrow>
    (literal \<times> struct_id) list \<Rightarrow> bool" where
  "closed_at P ctx k ps \<longleftrightarrow>
     (\<exists>p\<in>set ps. lit_satisfied P ctx p \<and> var_level P ctx (snd p) \<le> k) \<or>
     2 \<le> length (filter (\<lambda>p. var_val P ctx (snd p) = not_assigned \<or> k < var_level P ctx (snd p)) ps)"

definition closed_below :: "('vs, 'cs) platform \<Rightarrow> ('vs, 'cs) solver_context \<Rightarrow> bool" where
  "closed_below P ctx \<longleftrightarrow>
     (\<forall>k<current_decision_level ctx. \<forall>c\<in>set (clause_ids P ctx). closed_at P ctx k (lits_of P ctx c))"

definition equivalent_db ::
    "('vs, 'cs) platform \<Rightarrow> literal list list \<Rightarrow> ('vs, 'cs) solver_context \<Rightarrow> bool" where
  "equivalent_db P F ctx \<longleftrightarrow>
     (\<forall>\<sigma>. cnf_holds \<sigma> F \<longrightarrow> (\<forall>c\<in>set (clause_ids P ctx). clause_holds \<sigma> (map fst (lits_of P ctx c)))) \<and>
     (\<forall>cl\<in>set F. \<exists>c\<in>set (clause_ids P ctx). map fst (lits_of P ctx c) = cl)"

definition solver_inv ::
    "('vs, 'cs) platform \<Rightarrow> literal list list \<Rightarrow> ('vs, 'cs) solver_context \<Rightarrow> bool" where
  "solver_inv P F ctx \<longleftrightarrow>
     linked P ctx \<and> trail_inv P ctx \<and> closed_below P ctx \<and> equivalent_db P F ctx"

lemmas [solver_defs] = lit_satisfied_def lit_falsified_def pair_ok_def

lemma solver_invD:
  "solver_inv P F ctx \<Longrightarrow> linked P ctx" "solver_inv P F ctx \<Longrightarrow> trail_inv P ctx"
  "solver_inv P F ctx \<Longrightarrow> closed_below P ctx" "solver_inv P F ctx \<Longrightarrow> equivalent_db P F ctx"
  by (simp_all add: solver_inv_def)

lemma trail_invD:
  assumes "trail_inv P ctx"
  shows "distinct (trail ctx)"
    and "set (trail ctx) = {v \<in> set (var_ids P ctx). var_val P ctx v \<noteq> not_assigned}"
    and "sorted (map (var_level P ctx) (trail ctx))"
    and "v \<in> set (trail ctx) \<Longrightarrow> var_level P ctx v \<le> current_decision_level ctx"
    and "v \<in> set (var_ids P ctx) \<Longrightarrow> var_val P ctx v = not_assigned \<Longrightarrow> var_reason P ctx v = None"
    and "trail ctx = pre @ v # post \<Longrightarrow> justified P ctx pre v"
  using assms by (simp_all add: trail_inv_def)

section \<open>Literals of a linked context\<close>

lemma falsified_if_unsatisfied:
  "pair_ok P ctx p \<Longrightarrow> var_val P ctx (snd p) \<noteq> not_assigned \<Longrightarrow> \<not> lit_satisfied P ctx p \<Longrightarrow>
   lit_falsified P ctx p"
  by (cases "var_val P ctx (snd p)") (auto simp: solver_defs is_on_def is_off_def)

lemma falsified_not_satisfied: "lit_falsified P ctx p \<Longrightarrow> \<not> lit_satisfied P ctx p"
  by (auto simp: solver_defs is_on_def is_off_def)

lemma falsified_assigned: "lit_falsified P ctx p \<Longrightarrow> var_val P ctx (snd p) \<noteq> not_assigned"
  by (auto simp: solver_defs)

lemma satisfied_assigned: "lit_satisfied P ctx p \<Longrightarrow> var_val P ctx (snd p) \<noteq> not_assigned"
  by (auto simp: solver_defs)

text \<open>Of the two literals of a variable at most one is falsified: the variable determines it.\<close>

lemma falsified_unique:
  assumes "linked P ctx" "pair_ok P ctx p" "pair_ok P ctx q"
    and "lit_falsified P ctx p" "lit_falsified P ctx q"
    and "lit_value (fst p) = lit_value (fst q)"
  shows "p = q"
proof -
  have "snd p = snd q" using assms by (auto simp: linked_def pair_ok_def inj_on_def)
  moreover have "raw_value (fst p) = raw_value (fst q)"
    using assms calculation
    by (auto simp: solver_defs is_on_def is_off_def lit_value_def split: if_splits)
  ultimately show ?thesis by (cases p; cases q) (auto intro: literal.expand)
qed

lemma pair_ok_var_inj:
  "linked P ctx \<Longrightarrow> pair_ok P ctx p \<Longrightarrow> v \<in> set (var_ids P ctx) \<Longrightarrow>
   lit_value (fst p) = lit_value (var_lit P ctx v) \<longleftrightarrow> snd p = v"
  by (auto simp: linked_def pair_ok_def inj_on_def)

section \<open>Contexts the invariant cannot tell apart\<close>

definition same_state :: "('vs, 'cs) platform \<Rightarrow> ('vs, 'cs) solver_context \<Rightarrow> ('vs, 'cs) solver_context \<Rightarrow> bool" where
  "same_state P ctx ctx' \<longleftrightarrow>
     var_ids P ctx' = var_ids P ctx \<and>
     (\<forall>v\<in>set (var_ids P ctx).
        var_lit P ctx' v = var_lit P ctx v \<and> var_val P ctx' v = var_val P ctx v \<and>
        var_level P ctx' v = var_level P ctx v \<and> var_reason P ctx' v = var_reason P ctx v) \<and>
     clause_ids P ctx' = clause_ids P ctx \<and>
     (\<forall>c\<in>set (clause_ids P ctx). lits_of P ctx' c = lits_of P ctx c) \<and>
     trail ctx' = trail ctx \<and> current_decision_level ctx' = current_decision_level ctx"

text \<open>Facts about a variable or a literal carry over between contexts that agree on the variable.\<close>

definition agree_on ::
    "('vs, 'cs) platform \<Rightarrow> ('vs, 'cs) solver_context \<Rightarrow> ('vs, 'cs) solver_context \<Rightarrow> struct_id \<Rightarrow> bool" where
  "agree_on P ctx ctx' v \<longleftrightarrow>
     var_val P ctx' v = var_val P ctx v \<and> var_level P ctx' v = var_level P ctx v \<and>
     var_reason P ctx' v = var_reason P ctx v"

lemma agree_lits:
  "agree_on P ctx ctx' (snd p) \<Longrightarrow> lit_satisfied P ctx' p = lit_satisfied P ctx p"
  "agree_on P ctx ctx' (snd p) \<Longrightarrow> lit_falsified P ctx' p = lit_falsified P ctx p"
  by (simp_all add: agree_on_def solver_defs)

lemma justified_agree:
  assumes j: "justified P ctx pre v"
    and agree: "\<And>u. u \<in> set (v # pre) \<Longrightarrow> agree_on P ctx ctx' u"
    and ids: "set (clause_ids P ctx) \<subseteq> set (clause_ids P ctx')"
    and lits: "\<And>c. c \<in> set (clause_ids P ctx) \<Longrightarrow> lits_of P ctx' c = lits_of P ctx c"
  shows "justified P ctx' pre v"
proof (cases "var_reason P ctx v")
  case None
  then show ?thesis using j agree by (auto simp: justified_def agree_on_def)
next
  case (Some c)
  then obtain l where c: "c \<in> set (clause_ids P ctx)"
    and l: "filter (\<lambda>p. snd p = v) (lits_of P ctx c) = [(l, v)]" "lit_satisfied P ctx (l, v)"
    and others: "\<forall>p\<in>set (lits_of P ctx c). snd p \<noteq> v \<longrightarrow> snd p \<in> set pre \<and> lit_falsified P ctx p"
    using j by (auto simp: justified_def)
  have "lit_satisfied P ctx' (l, v)" using l(2) agree [of v] by (simp add: agree_lits)
  moreover have "\<forall>p\<in>set (lits_of P ctx c). snd p \<noteq> v \<longrightarrow> snd p \<in> set pre \<and> lit_falsified P ctx' p"
  proof (intro ballI impI)
    fix p assume "p \<in> set (lits_of P ctx c)" "snd p \<noteq> v"
    then have p: "snd p \<in> set pre" "lit_falsified P ctx p" using others by blast+
    then show "snd p \<in> set pre \<and> lit_falsified P ctx' p"
      using agree_lits(2) [of P ctx ctx' p] agree [of "snd p"] by simp
  qed
  moreover have "var_reason P ctx' v = Some c" using Some agree [of v] by (simp add: agree_on_def)
  ultimately show ?thesis
    using c l(1) ids by (auto simp: justified_def lits)
qed

lemma closed_at_agree:
  assumes "closed_at P ctx k ps" and "\<And>p. p \<in> set ps \<Longrightarrow> agree_on P ctx ctx' (snd p)"
  shows "closed_at P ctx' k ps"
proof -
  have "filter (\<lambda>p. var_val P ctx' (snd p) = not_assigned \<or> k < var_level P ctx' (snd p)) ps =
      filter (\<lambda>p. var_val P ctx (snd p) = not_assigned \<or> k < var_level P ctx (snd p)) ps"
    using assms(2) by (intro filter_cong) (auto simp: agree_on_def)
  moreover have "(lit_satisfied P ctx' p \<and> var_level P ctx' (snd p) \<le> k) \<longleftrightarrow>
      (lit_satisfied P ctx p \<and> var_level P ctx (snd p) \<le> k)" if "p \<in> set ps" for p
    using agree_lits(1) [OF assms(2) [OF that]] assms(2) [OF that] by (simp add: agree_on_def)
  ultimately show ?thesis using assms(1) by (simp add: closed_at_def)
qed

lemma same_state_agree:
  "same_state P ctx ctx' \<Longrightarrow> v \<in> set (var_ids P ctx) \<Longrightarrow> agree_on P ctx ctx' v"
  by (simp add: same_state_def agree_on_def)

lemma linked_var: "linked P ctx \<Longrightarrow> c \<in> set (clause_ids P ctx) \<Longrightarrow> p \<in> set (lits_of P ctx c) \<Longrightarrow>
   snd p \<in> set (var_ids P ctx)"
  by (auto simp: linked_def pair_ok_def)

lemma solver_inv_same_state:
  assumes inv: "solver_inv P F ctx" and same: "same_state P ctx ctx'"
  shows "solver_inv P F ctx'"
proof -
  note link = solver_invD(1) [OF inv] and tr = solver_invD(2) [OF inv]
  have vars: "var_ids P ctx' = var_ids P ctx" and cls: "clause_ids P ctx' = clause_ids P ctx"
    and trl: "trail ctx' = trail ctx" and lvl: "current_decision_level ctx' = current_decision_level ctx"
    and lits: "\<And>c. c \<in> set (clause_ids P ctx) \<Longrightarrow> lits_of P ctx' c = lits_of P ctx c"
    using same by (simp_all add: same_state_def)
  have tvars: "set (trail ctx) \<subseteq> set (var_ids P ctx)" using trail_invD(2) [OF tr] by auto
  have ag: "agree_on P ctx ctx' v" if "v \<in> set (var_ids P ctx)" for v
    using same that by (rule same_state_agree)
  have lit: "\<And>v. v \<in> set (var_ids P ctx) \<Longrightarrow> var_lit P ctx' v = var_lit P ctx v"
    using same by (simp add: same_state_def)
  have "linked P ctx'"
    using link lit by (auto simp: linked_def vars cls lits pair_ok_def inj_on_def)
  moreover have "trail_inv P ctx'"
    unfolding trail_inv_def trl vars lvl
  proof (intro conjI allI impI)
    show "distinct (trail ctx)" by (rule trail_invD(1) [OF tr])
    show "set (trail ctx) = {v \<in> set (var_ids P ctx). var_val P ctx' v \<noteq> not_assigned}"
      using trail_invD(2) [OF tr] ag by (auto simp: agree_on_def)
    have "map (var_level P ctx') (trail ctx) = map (var_level P ctx) (trail ctx)"
      using tvars ag by (auto simp: agree_on_def)
    then show "sorted (map (var_level P ctx') (trail ctx))"
      by (rule ssubst) (rule trail_invD(3) [OF tr])
    show "\<forall>v\<in>set (trail ctx). var_level P ctx' v \<le> current_decision_level ctx"
      using trail_invD(4) [OF tr] tvars ag by (auto simp: agree_on_def)
    show "\<forall>v\<in>set (var_ids P ctx). var_val P ctx' v = not_assigned \<longrightarrow> var_reason P ctx' v = None"
      using trail_invD(5) [OF tr] ag by (auto simp: agree_on_def)
    fix pre v post assume split: "trail ctx = pre @ v # post"
    show "justified P ctx' pre v"
      by (rule justified_agree [OF trail_invD(6) [OF tr split]])
        (use tvars split in \<open>auto intro: ag simp: cls lits\<close>)
  qed
  moreover have "closed_below P ctx'"
    unfolding closed_below_def cls lvl
  proof (intro allI impI ballI)
    fix k c assume k: "k < current_decision_level ctx" and c: "c \<in> set (clause_ids P ctx)"
    have "closed_at P ctx k (lits_of P ctx c)"
      using solver_invD(3) [OF inv] k c by (simp add: closed_below_def)
    then have "closed_at P ctx' k (lits_of P ctx c)"
      by (rule closed_at_agree) (rule ag, rule linked_var [OF link c])
    then show "closed_at P ctx' k (lits_of P ctx' c)" by (simp only: lits [OF c])
  qed
  moreover have "equivalent_db P F ctx'"
    using solver_invD(4) [OF inv] by (auto simp: equivalent_db_def cls lits)
  ultimately show ?thesis by (simp add: solver_inv_def)
qed

end
