(* ===== verification/Sat_Propagation.thy ===== *)
theory Sat_Propagation
  imports Sat_Invariant
begin

text \<open>
  Assigning one more variable (\<open>unit_propagation\<close>, \<open>make_decision\<close>) keeps the invariant; unit
  propagation returns, and either finds a clause that is falsified or leaves every clause
  satisfied or with two unassigned literals.
\<close>

section \<open>Assigning a variable\<close>

definition assigns ::
    "('vs, 'cs) platform \<Rightarrow> ('vs, 'cs) solver_context \<Rightarrow> struct_id \<Rightarrow> ('vs, 'cs) solver_context \<Rightarrow> bool" where
  "assigns P ctx v ctx' \<longleftrightarrow>
     v \<in> set (var_ids P ctx) \<and> var_val P ctx v = not_assigned \<and>
     trail ctx' = trail ctx @ [v] \<and> clauses_soa ctx' = clauses_soa ctx \<and>
     var_ids P ctx' = var_ids P ctx \<and>
     (\<forall>u\<in>set (var_ids P ctx). u \<noteq> v \<longrightarrow> var_at P ctx' u = var_at P ctx u) \<and>
     var_lit P ctx' v = var_lit P ctx v \<and> var_val P ctx' v \<noteq> not_assigned \<and>
     var_level P ctx' v = current_decision_level ctx' \<and>
     current_decision_level ctx \<le> current_decision_level ctx'"

lemma assignsD:
  assumes "assigns P ctx v ctx'"
  shows "v \<in> set (var_ids P ctx)" and "var_val P ctx v = not_assigned"
    and "trail ctx' = trail ctx @ [v]" and "clauses_soa ctx' = clauses_soa ctx"
    and "var_ids P ctx' = var_ids P ctx"
    and "u \<in> set (var_ids P ctx) \<Longrightarrow> u \<noteq> v \<Longrightarrow> var_at P ctx' u = var_at P ctx u"
    and "var_lit P ctx' v = var_lit P ctx v" and "var_val P ctx' v \<noteq> not_assigned"
    and "var_level P ctx' v = current_decision_level ctx'"
    and "current_decision_level ctx \<le> current_decision_level ctx'"
  using assms by (auto simp: assigns_def)

lemma assigns_agree:
  "assigns P ctx v ctx' \<Longrightarrow> u \<in> set (var_ids P ctx) \<Longrightarrow> u \<noteq> v \<Longrightarrow> agree_on P ctx ctx' u"
  by (simp add: assigns_def agree_on_def)

lemma assigns_lit:
  "assigns P ctx v ctx' \<Longrightarrow> u \<in> set (var_ids P ctx) \<Longrightarrow> var_lit P ctx' u = var_lit P ctx u"
  by (cases "u = v") (simp_all add: assigns_def)

lemma closed_at_assigns:
  assumes a: "assigns P ctx v ctx'" and c: "closed_at P ctx k ps"
    and ps: "\<And>p. p \<in> set ps \<Longrightarrow> snd p \<in> set (var_ids P ctx)" and k: "k < current_decision_level ctx'"
  shows "closed_at P ctx' k ps"
proof -
  have "(var_val P ctx' (snd p) = not_assigned \<or> k < var_level P ctx' (snd p)) \<longleftrightarrow>
      (var_val P ctx (snd p) = not_assigned \<or> k < var_level P ctx (snd p))" if "p \<in> set ps" for p
    using assignsD(2,6,8,9) [OF a] ps [OF that] k by (cases "snd p = v") auto
  then have "filter (\<lambda>p. var_val P ctx' (snd p) = not_assigned \<or> k < var_level P ctx' (snd p)) ps =
      filter (\<lambda>p. var_val P ctx (snd p) = not_assigned \<or> k < var_level P ctx (snd p)) ps"
    by (intro filter_cong) auto
  moreover have "lit_satisfied P ctx' p \<and> var_level P ctx' (snd p) \<le> k"
    if p: "p \<in> set ps" and sat: "lit_satisfied P ctx p" and lvl: "var_level P ctx (snd p) \<le> k" for p
  proof -
    have "snd p \<noteq> v" using satisfied_assigned [OF sat] assignsD(2) [OF a] by auto
    then have "agree_on P ctx ctx' (snd p)" using assigns_agree [OF a] ps [OF p] by blast
    then show ?thesis using agree_lits(1) [of P ctx ctx' p] sat lvl by (simp add: agree_on_def)
  qed
  ultimately show ?thesis using c by (auto simp: closed_at_def)
qed

lemma assigns_trail_inv:
  assumes inv: "trail_inv P ctx" and a: "assigns P ctx v ctx'"
    and just: "justified P ctx' (trail ctx) v"
  shows "trail_inv P ctx'"
proof -
  note D = assignsD [OF a]
  have tvars: "set (trail ctx) \<subseteq> set (var_ids P ctx)" using trail_invD(2) [OF inv] by auto
  have fresh: "v \<notin> set (trail ctx)" using trail_invD(2) [OF inv] D(2) by auto
  have ag: "agree_on P ctx ctx' u" if "u \<in> set (trail ctx)" for u
    using that fresh tvars by (intro assigns_agree [OF a]) auto
  show ?thesis
    unfolding trail_inv_def D(3) D(5)
  proof (intro conjI allI impI)
    show "distinct (trail ctx @ [v])" using trail_invD(1) [OF inv] fresh by simp
    show "set (trail ctx @ [v]) = {v \<in> set (var_ids P ctx). var_val P ctx' v \<noteq> not_assigned}"
    proof (rule set_eqI)
      fix u
      show "u \<in> set (trail ctx @ [v]) \<longleftrightarrow> u \<in> {v \<in> set (var_ids P ctx). var_val P ctx' v \<noteq> not_assigned}"
        using trail_invD(2) [OF inv] D(1,6,8) by (cases "u = v") auto
    qed
    have levels: "map (var_level P ctx') (trail ctx) = map (var_level P ctx) (trail ctx)"
      using ag by (auto simp: agree_on_def)
    have "\<forall>u\<in>set (trail ctx). var_level P ctx u \<le> current_decision_level ctx'"
      using trail_invD(4) [OF inv] D(10) le_trans by blast
    then show "sorted (map (var_level P ctx') (trail ctx @ [v]))"
      using trail_invD(3) [OF inv] D(9) by (simp add: levels sorted_append)
    show "\<forall>u\<in>set (trail ctx @ [v]). var_level P ctx' u \<le> current_decision_level ctx'"
    proof
      fix u assume "u \<in> set (trail ctx @ [v])"
      then consider "u = v" | "u \<in> set (trail ctx)" by auto
      then show "var_level P ctx' u \<le> current_decision_level ctx'"
      proof cases
        case 1
        then show ?thesis using D(9) by simp
      next
        case 2
        then show ?thesis using trail_invD(4) [OF inv 2] D(10) ag [OF 2] by (simp add: agree_on_def)
      qed
    qed
    show "\<forall>u\<in>set (var_ids P ctx). var_val P ctx' u = not_assigned \<longrightarrow> var_reason P ctx' u = None"
      using trail_invD(5) [OF inv] D(6,8) by metis
    fix pre u post assume split: "trail ctx @ [v] = pre @ u # post"
    show "justified P ctx' pre u"
    proof (cases post rule: rev_cases)
      case Nil
      then show ?thesis using split just by simp
    next
      case (snoc post' w)
      with split have "trail ctx = pre @ u # post'" by simp
      moreover from this have "justified P ctx pre u" by (rule trail_invD(6) [OF inv])
      ultimately show ?thesis
        by (rule_tac justified_agree [of P ctx]) (auto intro: ag simp: D(4))
    qed
  qed
qed

lemma assigns_solver_inv:
  assumes inv: "solver_inv P F ctx" and a: "assigns P ctx v ctx'"
    and just: "justified P ctx' (trail ctx) v"
    and closed: "\<And>k c. current_decision_level ctx \<le> k \<Longrightarrow> k < current_decision_level ctx' \<Longrightarrow>
      c \<in> set (clause_ids P ctx) \<Longrightarrow> closed_at P ctx k (lits_of P ctx c)"
  shows "solver_inv P F ctx'"
proof -
  note link = solver_invD(1) [OF inv] and D = assignsD [OF a]
  have "linked P ctx'"
    using link assigns_lit [OF a] by (auto simp: linked_def pair_ok_def inj_on_def D(4,5))
  moreover have "trail_inv P ctx'"
    by (rule assigns_trail_inv [OF solver_invD(2) [OF inv] a just])
  moreover have "closed_below P ctx'"
    unfolding closed_below_def D(4)
  proof (intro allI impI ballI)
    fix k c assume k: "k < current_decision_level ctx'" and c: "c \<in> set (clause_ids P ctx)"
    have "closed_at P ctx k (lits_of P ctx c)"
      using solver_invD(3) [OF inv] closed [OF _ k c] c
      by (cases "k < current_decision_level ctx") (auto simp: closed_below_def)
    then show "closed_at P ctx' k (lits_of P ctx c)"
      by (rule closed_at_assigns [OF a]) (auto intro: linked_var [OF link c] k)
  qed
  moreover have "equivalent_db P F ctx'"
    using solver_invD(4) [OF inv] by (simp add: equivalent_db_def D(4))
  ultimately show ?thesis by (simp add: solver_inv_def)
qed

section \<open>Writing a variable\<close>

context solver_platform begin

lemma set_var_simps [simp]:
  "v \<in> set (var_ids P ctx) \<Longrightarrow> var_ids P (set_var P ctx v e) = var_ids P ctx"
  "v \<in> set (var_ids P ctx) \<Longrightarrow> u \<in> set (var_ids P ctx) \<Longrightarrow>
     var_at P (set_var P ctx v e) u = (if u = v then e else var_at P ctx u)"
  "clauses_soa (set_var P ctx v e) = clauses_soa ctx"
  "trail (set_var P ctx v e) = trail ctx"
  "current_decision_level (set_var P ctx v e) = current_decision_level ctx"
  "config (set_var P ctx v e) = config ctx"
  "stats (set_var P ctx v e) = stats ctx"
  "conflict_count_since_last_restart (set_var P ctx v e) = conflict_count_since_last_restart ctx"
  "context_model (set_var P ctx v e) = context_model ctx"
  "solutions_found (set_var P ctx v e) = solutions_found ctx"
  by (simp_all add: set_var_def)

lemma assign_propagated_assigns:
  assumes "snd p \<in> set (var_ids P ctx)" and "var_val P ctx (snd p) = not_assigned"
  shows "assigns P ctx (snd p) (assign_propagated P ctx c p)"
  using assms by (simp add: assigns_def assign_propagated_def)

lemma assign_decision_assigns:
  assumes "v \<in> set (var_ids P ctx)" and "var_val P ctx v = not_assigned"
  shows "assigns P ctx v (assign_decision P ctx v)"
  using assms by (simp add: assigns_def assign_decision_def Let_def)

section \<open>One clause\<close>

lemma unassigned_singleton:
  assumes inv: "solver_inv P F ctx" and c: "c \<in> set (clause_ids P ctx)"
    and unsat: "\<not> is_clause_satisfied P ctx (soa_clause (clause_at P ctx c))"
    and unit: "unassigned_pairs P ctx c = [p]"
  shows "solver_inv P F (assign_propagated P ctx c p)"
proof -
  let ?ctx = "assign_propagated P ctx c p" and ?v = "snd p"
  note link = solver_invD(1) [OF inv] and tr = solver_invD(2) [OF inv]
  have p: "p \<in> set (lits_of P ctx c)" "var_val P ctx ?v = not_assigned"
    and only: "\<And>q. q \<in> set (lits_of P ctx c) \<Longrightarrow> var_val P ctx (snd q) = not_assigned \<Longrightarrow> q = p"
    using filter_singletonD [OF unit [unfolded unassigned_pairs_def]] by auto
  have ok: "pair_ok P ctx q" if "q \<in> set (lits_of P ctx c)" for q
    using link c that by (simp add: linked_def)
  have v: "?v \<in> set (var_ids P ctx)" using ok [OF p(1)] by (simp add: pair_ok_def)
  have a: "assigns P ctx ?v ?ctx" using v p(2) by (rule assign_propagated_assigns)
  have sat: "lit_satisfied P ?ctx p"
    using ok [OF p(1)] v by (auto simp: solver_defs assign_propagated_def is_on_off_iff)
  have "filter (\<lambda>q. snd q = ?v) (lits_of P ctx c) = unassigned_pairs P ctx c"
    unfolding unassigned_pairs_def
  proof (rule filter_cong [OF refl])
    fix q assume q: "q \<in> set (lits_of P ctx c)"
    show "(snd q = ?v) = (var_val P ctx (snd q) = not_assigned)"
    proof
      assume "snd q = ?v"
      then show "var_val P ctx (snd q) = not_assigned" using p(2) by simp
    next
      assume "var_val P ctx (snd q) = not_assigned"
      from only [OF q this] show "snd q = ?v" by (rule arg_cong)
    qed
  qed
  then have once: "filter (\<lambda>q. snd q = ?v) (lits_of P ctx c) = [(fst p, ?v)]"
    using unit by simp
  have others: "snd q \<in> set (trail ctx) \<and> lit_falsified P ?ctx q"
    if q: "q \<in> set (lits_of P ctx c)" and ne: "snd q \<noteq> ?v" for q
  proof -
    have val: "var_val P ctx (snd q) \<noteq> not_assigned" using only [OF q] ne by auto
    have "\<not> lit_satisfied P ctx q"
      using unsat q by (auto simp: is_clause_satisfied_def list_ex_iff)
    then have "lit_falsified P ctx q" using falsified_if_unsatisfied ok [OF q] val by blast
    moreover have "snd q \<in> set (var_ids P ctx)" using ok [OF q] by (simp add: pair_ok_def)
    moreover from this have "agree_on P ctx ?ctx (snd q)" using ne by (rule assigns_agree [OF a])
    ultimately show ?thesis
      using trail_invD(2) [OF tr] val by (simp add: agree_lits(2))
  qed
  have reason: "var_reason P ?ctx ?v = Some c" using v by (simp add: assign_propagated_def)
  have cl: "clauses_soa ?ctx = clauses_soa ctx" by (rule assignsD(4) [OF a])
  have "justified P ?ctx (trail ctx) ?v"
    unfolding justified_def reason cl option.case
  proof (intro conjI exI ballI impI)
    show "c \<in> set (clause_ids P ctx)" by (rule c)
    show "filter (\<lambda>q. snd q = ?v) (lits_of P ctx c) = [(fst p, ?v)]" by (rule once)
    show "lit_satisfied P ?ctx (fst p, ?v)" using sat by simp
  qed (use others in blast)+
  then show ?thesis
    by (rule assigns_solver_inv [OF inv a]) (simp add: assign_propagated_def)
qed

end

section \<open>What propagation and decisions leave alone\<close>

definition search_frame ::
    "('vs, 'cs) platform \<Rightarrow> ('vs, 'cs) solver_context \<Rightarrow> ('vs, 'cs) solver_context \<Rightarrow> bool" where
  "search_frame P ctx ctx' \<longleftrightarrow>
     var_ids P ctx' = var_ids P ctx \<and>
     (\<forall>v\<in>set (var_ids P ctx). var_lit P ctx' v = var_lit P ctx v \<and>
        var_activity P ctx' v = var_activity P ctx v) \<and>
     clauses_soa ctx' = clauses_soa ctx \<and> config ctx' = config ctx \<and>
     conflict_count_since_last_restart ctx' = conflict_count_since_last_restart ctx \<and>
     context_model ctx' = context_model ctx"

lemma search_frame_refl [simp]: "search_frame P ctx ctx"
  by (simp add: search_frame_def)

lemma search_frame_trans:
  "search_frame P ctx1 ctx2 \<Longrightarrow> search_frame P ctx2 ctx3 \<Longrightarrow> search_frame P ctx1 ctx3"
  by (simp add: search_frame_def)

lemma assigns_unassigned_vars:
  assumes a: "assigns P ctx v ctx'" and dist: "distinct (var_ids P ctx)"
  shows "length (unassigned_vars P ctx) = Suc (length (unassigned_vars P ctx'))"
proof -
  note D = assignsD [OF a]
  have "unassigned_vars P ctx' = filter (\<lambda>u. u \<noteq> v) (unassigned_vars P ctx)"
    unfolding unassigned_vars_def filter_filter D(5)
  proof (rule filter_cong [OF refl])
    fix u assume "u \<in> set (var_ids P ctx)"
    then show "(var_val P ctx' u = not_assigned) = (var_val P ctx u = not_assigned \<and> u \<noteq> v)"
      using D(6) [of u] D(8) by (cases "u = v") auto
  qed
  then have "unassigned_vars P ctx' = remove1 v (unassigned_vars P ctx)"
    using dist by (simp add: distinct_remove1_removeAll removeAll_filter_not_eq unassigned_vars_def
        neq_commute)
  moreover have "v \<in> set (unassigned_vars P ctx)" using D(1,2) by (simp add: unassigned_vars_def)
  ultimately show ?thesis
    by (metis One_nat_def Suc_pred length_pos_if_in_set length_remove1)
qed

section \<open>One pass over the clauses\<close>

definition all_falsified :: "('vs, 'cs) platform \<Rightarrow> ('vs, 'cs) solver_context \<Rightarrow> struct_id \<Rightarrow> bool" where
  "all_falsified P ctx c \<longleftrightarrow>
     c \<in> set (clause_ids P ctx) \<and> (\<forall>p\<in>set (lits_of P ctx c). lit_falsified P ctx p)"

definition settled :: "('vs, 'cs) platform \<Rightarrow> ('vs, 'cs) solver_context \<Rightarrow> struct_id \<Rightarrow> bool" where
  "settled P ctx c \<longleftrightarrow>
     is_clause_satisfied P ctx (soa_clause (clause_at P ctx c)) \<or> 2 \<le> length (unassigned_pairs P ctx c)"

lemma propagate_conflict [simp]: "propagate P (Some d) ctx c = (False, Some d, ctx)"
  by (simp add: propagate_def)

lemma propagate_pass_conflict [simp]: "propagate_pass P cs (Some d) ctx = (0, Some d, ctx)"
  by (induction cs) auto

context solver_platform begin

lemma propagate_cases:
  assumes inv: "solver_inv P F ctx" and c: "c \<in> set (clause_ids P ctx)"
  shows "(propagate P None ctx c = (False, None, ctx) \<and> settled P ctx c) \<or>
    (propagate P None ctx c = (False, Some c, ctx) \<and> all_falsified P ctx c) \<or>
    (\<exists>p. propagate P None ctx c = (True, None, assign_propagated P ctx c p) \<and>
       assigns P ctx (snd p) (assign_propagated P ctx c p) \<and>
       solver_inv P F (assign_propagated P ctx c p))"
proof (cases "is_clause_satisfied P ctx (soa_clause (clause_at P ctx c))")
  case True
  then show ?thesis by (simp add: propagate_def settled_def)
next
  case unsat: False
  have ok: "pair_ok P ctx p" if "p \<in> set (lits_of P ctx c)" for p
    using solver_invD(1) [OF inv] c that by (simp add: linked_def)
  consider "unassigned_pairs P ctx c = []" | p where "unassigned_pairs P ctx c = [p]"
    | p q ps where "unassigned_pairs P ctx c = p # q # ps"
    by (cases "unassigned_pairs P ctx c" rule: remdups_adj.cases) auto
  then show ?thesis
  proof cases
    case 1
    have "lit_falsified P ctx p" if p: "p \<in> set (lits_of P ctx c)" for p
    proof (rule falsified_if_unsatisfied [OF ok [OF p]])
      show "var_val P ctx (snd p) \<noteq> not_assigned"
        using 1 p by (auto simp: unassigned_pairs_def filter_empty_conv)
      show "\<not> lit_satisfied P ctx p"
        using unsat p by (auto simp: is_clause_satisfied_def list_ex_iff)
    qed
    then show ?thesis using 1 unsat c by (simp add: propagate_def all_falsified_def)
  next
    case 2
    have "p \<in> set (unassigned_pairs P ctx c)" by (simp add: 2)
    then have "p \<in> set (lits_of P ctx c)" and val: "var_val P ctx (snd p) = not_assigned"
      by (simp_all add: unassigned_pairs_def)
    then have "snd p \<in> set (var_ids P ctx)" using ok by (simp add: pair_ok_def)
    then have "assigns P ctx (snd p) (assign_propagated P ctx c p)"
      using val by (rule assign_propagated_assigns)
    moreover have "solver_inv P F (assign_propagated P ctx c p)"
      by (rule unassigned_singleton [OF inv c unsat 2])
    moreover have "propagate P None ctx c = (True, None, assign_propagated P ctx c p)"
      using 2 unsat by (simp add: propagate_def)
    ultimately show ?thesis by blast
  next
    case 3
    then show ?thesis using unsat by (simp add: propagate_def settled_def)
  qed
qed

lemma assign_propagated_frame:
  "snd p \<in> set (var_ids P ctx) \<Longrightarrow> search_frame P ctx (assign_propagated P ctx c p) \<and>
     current_decision_level (assign_propagated P ctx c p) = current_decision_level ctx \<and>
     stats (assign_propagated P ctx c p) = stats ctx"
  by (simp add: search_frame_def assign_propagated_def)

end

definition pass_result ::
    "('vs, 'cs) platform \<Rightarrow> literal list list \<Rightarrow> ('vs, 'cs) solver_context \<Rightarrow> struct_id list \<Rightarrow>
     nat \<times> struct_id option \<times> ('vs, 'cs) solver_context \<Rightarrow> bool" where
  "pass_result P F ctx cs out \<longleftrightarrow>
     (case out of (n, conflict, ctx') \<Rightarrow>
        solver_inv P F ctx' \<and> search_frame P ctx ctx' \<and>
        current_decision_level ctx' = current_decision_level ctx \<and> stats ctx' = stats ctx \<and>
        length (unassigned_vars P ctx) = length (unassigned_vars P ctx') + n \<and>
        (\<forall>c. conflict = Some c \<longrightarrow> all_falsified P ctx' c) \<and>
        (n = 0 \<longrightarrow> ctx' = ctx) \<and>
        (n = 0 \<and> conflict = None \<longrightarrow> (\<forall>c\<in>set cs. settled P ctx c)))"

context solver_platform begin

lemma propagate_pass_result:
  "solver_inv P F ctx \<Longrightarrow> set cs \<subseteq> set (clause_ids P ctx) \<Longrightarrow>
   pass_result P F ctx cs (propagate_pass P cs None ctx)"
proof (induction cs arbitrary: ctx)
  case Nil
  then show ?case by (simp add: pass_result_def)
next
  case (Cons c cs)
  from Cons.prems have c: "c \<in> set (clause_ids P ctx)" by simp
  from propagate_cases [OF Cons.prems(1) c] show ?case
  proof (elim disjE conjE exE)
    assume p: "propagate P None ctx c = (False, None, ctx)" and s: "settled P ctx c"
    have "pass_result P F ctx cs (propagate_pass P cs None ctx)"
      using Cons by simp
    then show ?thesis using p s by (auto simp: pass_result_def split: prod.splits)
  next
    assume "propagate P None ctx c = (False, Some c, ctx)" and "all_falsified P ctx c"
    then show ?thesis using Cons.prems(1) by (simp add: pass_result_def)
  next
    fix p
    let ?ctx = "assign_propagated P ctx c p"
    assume p: "propagate P None ctx c = (True, None, ?ctx)"
      and a: "assigns P ctx (snd p) ?ctx" and inv: "solver_inv P F ?ctx"
    have frame: "search_frame P ctx ?ctx"
      "current_decision_level ?ctx = current_decision_level ctx" "stats ?ctx = stats ctx"
      using assign_propagated_frame [OF assignsD(1) [OF a], of c] by auto
    have "set cs \<subseteq> set (clause_ids P ?ctx)" using Cons.prems(2) assignsD(4) [OF a] by simp
    then have "pass_result P F ?ctx cs (propagate_pass P cs None ?ctx)" by (rule Cons.IH [OF inv])
    then show ?thesis
      using p frame search_frame_trans [OF frame(1)] assigns_unassigned_vars [OF a vs.distinct_ids]
      by (auto simp: pass_result_def split: prod.splits)
  qed
qed

end

section \<open>Unit propagation\<close>

text \<open>What a round starts from, and what the loop leaves.\<close>

definition propagation_from ::
    "('vs, 'cs) platform \<Rightarrow> literal list list \<Rightarrow> ('vs, 'cs) solver_context \<Rightarrow>
     ('vs, 'cs) solver_context \<Rightarrow> bool" where
  "propagation_from P F ctx0 ctx \<longleftrightarrow>
     solver_platform P \<and> solver_inv P F ctx \<and> search_frame P ctx0 ctx \<and>
     current_decision_level ctx = current_decision_level ctx0 \<and>
     conflicts (stats ctx) = conflicts (stats ctx0) \<and>
     length (unassigned_vars P ctx) \<le> length (unassigned_vars P ctx0)"

definition propagation_done ::
    "('vs, 'cs) platform \<Rightarrow> literal list list \<Rightarrow> ('vs, 'cs) solver_context \<Rightarrow>
     struct_id option \<times> ('vs, 'cs) solver_context \<Rightarrow> bool" where
  "propagation_done P F ctx0 out \<longleftrightarrow>
     propagation_from P F ctx0 (snd out) \<and>
     (case fst out of
        Some c \<Rightarrow> all_falsified P (snd out) c
      | None \<Rightarrow> \<forall>c\<in>set (clause_ids P (snd out)). settled P (snd out) c)"

lemma same_state_stats [simp]: "same_state P ctx (ctx\<lparr>stats := s\<rparr>)"
  by (simp add: same_state_def)

lemma propagation_round_cases:
  assumes from_ctx: "propagation_from P F ctx0 ctx"
  shows "(\<exists>ctx'. propagation_round P ctx = Some (Inl ctx') \<and> propagation_from P F ctx0 ctx' \<and>
       length (unassigned_vars P ctx') < length (unassigned_vars P ctx)) \<or>
    (\<exists>out. propagation_round P ctx = Some (Inr out) \<and> propagation_done P F ctx0 out)"
proof -
  obtain n conflict ctx1 where pass: "propagate_pass P (clause_ids P ctx) None ctx = (n, conflict, ctx1)"
    by (cases "propagate_pass P (clause_ids P ctx) None ctx")
  have "solver_platform P" and inv: "solver_inv P F ctx"
    using from_ctx by (simp_all add: propagation_from_def)
  then have res: "pass_result P F ctx (clause_ids P ctx) (n, conflict, ctx1)"
    using solver_platform.propagate_pass_result [of P F ctx "clause_ids P ctx"] by (simp add: pass)
  then have from1: "propagation_from P F ctx0 ctx1"
    using from_ctx search_frame_trans [of P ctx0 ctx ctx1]
    by (simp add: pass_result_def propagation_from_def)
  show ?thesis
  proof (cases "n = 0 \<or> conflict \<noteq> None")
    case True
    then have "propagation_round P ctx = Some (Inr (conflict, ctx1))"
      by (simp add: propagation_round_def pass)
    moreover have "propagation_done P F ctx0 (conflict, ctx1)"
      using True from1 res by (auto simp: propagation_done_def pass_result_def split: option.split)
    ultimately show ?thesis by blast
  next
    case False
    let ?ctx = "ctx1\<lparr>stats := (stats ctx1)\<lparr>propagations := propagations (stats ctx1) + n\<rparr>\<rparr>"
    have "propagation_round P ctx = Some (Inl ?ctx)"
      using False by (simp add: propagation_round_def pass)
    moreover have "unassigned_vars P ?ctx = unassigned_vars P ctx1" by (simp add: unassigned_vars_def)
    then have "propagation_from P F ctx0 ?ctx"
      using from1 solver_inv_same_state [of P F ctx1 ?ctx]
      by (simp add: propagation_from_def search_frame_def)
    moreover have "length (unassigned_vars P ?ctx) < length (unassigned_vars P ctx)"
      using res False by (simp add: pass_result_def unassigned_vars_def)
    ultimately show ?thesis by blast
  qed
qed

interpretation propagation: loop_total "propagation_round P" "propagation_from P F ctx0"
    "propagation_done P F ctx0" "measure (\<lambda>ctx. length (unassigned_vars P ctx))" for P F ctx0
proof unfold_locales
  fix ctx ctx' assume "propagation_from P F ctx0 ctx" and "propagation_round P ctx = Some (Inl ctx')"
  then show "propagation_from P F ctx0 ctx'"
    and "(ctx', ctx) \<in> measure (\<lambda>ctx. length (unassigned_vars P ctx))"
    using propagation_round_cases [of P F ctx0 ctx] by auto
next
  fix ctx out assume "propagation_from P F ctx0 ctx" and "propagation_round P ctx = Some (Inr out)"
  then show "propagation_done P F ctx0 out"
    using propagation_round_cases [of P F ctx0 ctx] by auto
next
  fix ctx assume "propagation_from P F ctx0 ctx"
  then show "\<exists>out. propagation_round P ctx = Some out"
    using propagation_round_cases [of P F ctx0 ctx] by blast
qed simp

lemma unit_propagation_done:
  assumes "solver_platform P" and "solver_inv P F ctx"
  shows "\<exists>out. unit_propagation P ctx = Some out \<and> propagation_done P F ctx out"
  unfolding unit_propagation_def
  by (rule propagation.loop_returns) (simp add: propagation_from_def assms)

section \<open>Decisions\<close>

lemma settled_closed_at:
  assumes inv: "solver_inv P F ctx" and c: "c \<in> set (clause_ids P ctx)" and s: "settled P ctx c"
  shows "closed_at P ctx (current_decision_level ctx) (lits_of P ctx c)"
proof (cases "is_clause_satisfied P ctx (soa_clause (clause_at P ctx c))")
  case True
  then obtain p where p: "p \<in> set (lits_of P ctx c)" "lit_satisfied P ctx p"
    by (auto simp: is_clause_satisfied_def list_ex_iff)
  then have "snd p \<in> set (trail ctx)"
    using linked_var [OF solver_invD(1) [OF inv] c p(1)] satisfied_assigned [OF p(2)]
      trail_invD(2) [OF solver_invD(2) [OF inv]] by auto
  then have "var_level P ctx (snd p) \<le> current_decision_level ctx"
    by (rule trail_invD(4) [OF solver_invD(2) [OF inv]])
  with p show ?thesis by (auto simp: closed_at_def)
next
  case False
  have "2 \<le> length (unassigned_pairs P ctx c)" using False s by (simp add: settled_def)
  also have "\<dots> \<le> length (filter (\<lambda>p. var_val P ctx (snd p) = not_assigned \<or>
      current_decision_level ctx < var_level P ctx (snd p)) (lits_of P ctx c))"
    unfolding unassigned_pairs_def by (rule length_filter_mono) simp
  finally show ?thesis by (simp add: closed_at_def)
qed

text \<open>A decision takes an unassigned variable of greatest activity.\<close>

lemma make_decision_cases:
  obtains (none) "unassigned_vars P ctx = []" "make_decision P ctx = (False, ctx)"
  | (decided) v where "make_decision P ctx = (True, assign_decision P ctx v)"
      "v \<in> set (unassigned_vars P ctx)"
      "\<And>u. u \<in> set (unassigned_vars P ctx) \<Longrightarrow> var_activity P ctx u \<le> var_activity P ctx v"
proof (cases "unassigned_vars P ctx")
  case Nil
  then show ?thesis using none by (simp add: make_decision_def)
next
  case (Cons u us)
  let ?v = "max_element_from (\<lambda>a b. var_activity P ctx a < var_activity P ctx b) u us"
  show ?thesis
  proof (rule decided)
    show "make_decision P ctx = (True, assign_decision P ctx ?v)" by (simp add: make_decision_def Cons)
    show "?v \<in> set (unassigned_vars P ctx)" unfolding Cons by (rule max_element_from_in)
    show "var_activity P ctx w \<le> var_activity P ctx ?v" if "w \<in> set (unassigned_vars P ctx)" for w
      using that max_element_from_best [of "var_activity P ctx" u us]
        max_element_from_ge [of w us "var_activity P ctx" u] unfolding Cons by auto
  qed
qed

context solver_platform begin

lemma decision_solver_inv:
  assumes inv: "solver_inv P F ctx"
    and settled: "\<forall>c\<in>set (clause_ids P ctx). settled P ctx c"
    and v: "v \<in> set (unassigned_vars P ctx)"
  shows "solver_inv P F (assign_decision P ctx v)"
    and "length (unassigned_vars P ctx) = Suc (length (unassigned_vars P (assign_decision P ctx v)))"
    and "search_frame P ctx (assign_decision P ctx v)"
proof -
  let ?ctx = "assign_decision P ctx v"
  have var: "v \<in> set (var_ids P ctx)" "var_val P ctx v = not_assigned"
    using v by (simp_all add: unassigned_vars_def)
  then have a: "assigns P ctx v ?ctx" by (rule assign_decision_assigns)
  show "length (unassigned_vars P ctx) = Suc (length (unassigned_vars P ?ctx))"
    by (rule assigns_unassigned_vars [OF a]) simp
  show "search_frame P ctx ?ctx"
    using var by (simp add: search_frame_def assign_decision_def Let_def)
  have lvl: "current_decision_level ?ctx = Suc (current_decision_level ctx)"
    by (simp add: assign_decision_def Let_def)
  note tr = solver_invD(2) [OF inv]
  have "var_reason P ?ctx v = None"
    using var trail_invD(5) [OF tr var] by (simp add: assign_decision_def Let_def)
  moreover have "var_level P ?ctx u < var_level P ?ctx v" if "u \<in> set (trail ctx)" for u
  proof -
    have "u \<noteq> v" "u \<in> set (var_ids P ctx)" using that var trail_invD(2) [OF tr] by auto
    then show ?thesis
      using assignsD(6) [OF a, of u] assignsD(9) [OF a] trail_invD(4) [OF tr that] by (simp add: lvl)
  qed
  ultimately have "justified P ?ctx (trail ctx) v"
    using assignsD(9) [OF a] by (simp add: justified_def lvl)
  then show "solver_inv P F ?ctx"
    by (rule assigns_solver_inv [OF inv a])
      (use settled in \<open>simp add: lvl less_Suc_eq settled_closed_at [OF inv]\<close>)
qed

end

end
