(* ===== verification/Sat_Backtrack.thy ===== *)
theory Sat_Backtrack
  imports Sat_Propagation
begin

text \<open>
  Backtracking: it unassigns exactly the variables of the trail above the level it goes to, keeps
  everything else, and keeps the invariant.
\<close>

definition backtracked ::
    "('vs, 'cs) platform \<Rightarrow> nat \<Rightarrow> ('vs, 'cs) solver_context \<Rightarrow> ('vs, 'cs) solver_context \<Rightarrow> bool" where
  "backtracked P level ctx ctx' \<longleftrightarrow>
     var_ids P ctx' = var_ids P ctx \<and> clauses_soa ctx' = clauses_soa ctx \<and>
     config ctx' = config ctx \<and> stats ctx' = stats ctx \<and> context_model ctx' = context_model ctx \<and>
     conflict_count_since_last_restart ctx' = conflict_count_since_last_restart ctx \<and>
     (\<forall>v\<in>set (var_ids P ctx). var_at P ctx' v =
        (if v \<in> set (trail ctx) \<and> level < var_level P ctx v then unassign (var_at P ctx v)
         else var_at P ctx v)) \<and>
     (\<exists>undone. trail ctx = trail ctx' @ undone \<and>
        (\<forall>v\<in>set undone. level < var_level P ctx v) \<and>
        (\<forall>v\<in>set (trail ctx'). var_level P ctx v \<le> level))"

lemma unassign_simps [simp]:
  "soa_literal (unassign v) = soa_literal v"
  "soa_assignment (unassign v) = not_assigned"
  "decision_level (soa_assignment_ctx (unassign v)) = decision_level (soa_assignment_ctx v)"
  "vsids_activity (soa_assignment_ctx (unassign v)) = vsids_activity (soa_assignment_ctx v)"
  "clause_propagation (soa_assignment_ctx (unassign v)) = None"
  by (simp_all add: unassign_def)

context solver_platform begin

lemma backtrack_loop_backtracked:
  assumes "distinct (trail ctx)" and "set (trail ctx) \<subseteq> set (var_ids P ctx)"
    and "sorted (map (var_level P ctx) (trail ctx))"
  shows "backtracked P level ctx (backtrack_loop P level ctx) \<and>
    current_decision_level (backtrack_loop P level ctx) = current_decision_level ctx"
  using assms
proof (induction "trail ctx" arbitrary: ctx rule: rev_induct)
  case Nil
  then show ?case by (subst (1 2) backtrack_loop.simps) (simp add: backtracked_def)
next
  case (snoc v vs)
  have tr: "trail ctx = vs @ [v]" using snoc(2) by simp
  have v: "v \<in> set (var_ids P ctx)" using snoc.prems(2) by (simp add: tr)
  show ?case
  proof (cases "var_level P ctx v \<le> level")
    case True
    have "\<forall>u\<in>set (vs @ [v]). var_level P ctx u \<le> level"
      using snoc.prems(3) True by (auto simp: tr sorted_append)
    then show ?thesis
      using True by (subst (1 2) backtrack_loop.simps) (auto simp: backtracked_def tr)
  next
    case False
    define ctx1 where "ctx1 = (set_var P ctx v (unassign (var_at P ctx v)))\<lparr>trail := vs\<rparr>"
    have step: "backtrack_loop P level ctx = backtrack_loop P level ctx1"
      using False by (subst backtrack_loop.simps) (simp add: ctx1_def tr)
    have at: "var_at P ctx1 u = (if u = v then unassign (var_at P ctx v) else var_at P ctx u)"
      if "u \<in> set (var_ids P ctx)" for u using that v by (simp add: ctx1_def)
    have lvl: "var_level P ctx1 u = var_level P ctx u" if "u \<in> set (var_ids P ctx)" for u
      using at [OF that] by simp
    have same: "var_ids P ctx1 = var_ids P ctx" "trail ctx1 = vs" "clauses_soa ctx1 = clauses_soa ctx"
      "config ctx1 = config ctx" "stats ctx1 = stats ctx" "context_model ctx1 = context_model ctx"
      "conflict_count_since_last_restart ctx1 = conflict_count_since_last_restart ctx"
      "current_decision_level ctx1 = current_decision_level ctx"
      using v by (simp_all add: ctx1_def)
    have sub: "set vs \<subseteq> set (var_ids P ctx)" and fresh: "v \<notin> set vs" "distinct vs"
      using snoc.prems by (simp_all add: tr)
    have "map (var_level P ctx1) vs = map (var_level P ctx) vs" using sub lvl by auto
    then have "sorted (map (var_level P ctx1) (trail ctx1))"
      unfolding same by (rule sorted_map_eq) (use snoc.prems(3) in \<open>simp add: tr sorted_append\<close>)
    then have IH: "backtracked P level ctx1 (backtrack_loop P level ctx1)"
      "current_decision_level (backtrack_loop P level ctx1) = current_decision_level ctx"
      using snoc(1) [of ctx1] fresh sub by (simp_all add: same)
    have "backtracked P level ctx (backtrack_loop P level ctx1)"
      unfolding backtracked_def
    proof (intro conjI ballI)
      fix u assume u: "u \<in> set (var_ids P ctx)"
      have "var_at P (backtrack_loop P level ctx1) u =
          (if u \<in> set vs \<and> level < var_level P ctx1 u then unassign (var_at P ctx1 u)
           else var_at P ctx1 u)"
        using IH(1) u by (simp add: backtracked_def same)
      then show "var_at P (backtrack_loop P level ctx1) u =
          (if u \<in> set (trail ctx) \<and> level < var_level P ctx u then unassign (var_at P ctx u)
           else var_at P ctx u)"
        unfolding lvl [OF u] at [OF u] tr using False fresh(1) by (cases "u = v") simp_all
    next
      obtain undone where undone: "vs = trail (backtrack_loop P level ctx1) @ undone"
        and out: "\<forall>v\<in>set undone. level < var_level P ctx1 v"
        and kept: "\<forall>v\<in>set (trail (backtrack_loop P level ctx1)). var_level P ctx1 v \<le> level"
        using IH(1) by (auto simp: backtracked_def same)
      have "set undone \<subseteq> set (var_ids P ctx)"
        "set (trail (backtrack_loop P level ctx1)) \<subseteq> set (var_ids P ctx)"
        using sub by (auto simp: undone)
      then have "trail ctx = trail (backtrack_loop P level ctx1) @ (undone @ [v]) \<and>
          (\<forall>v\<in>set (undone @ [v]). level < var_level P ctx v) \<and>
          (\<forall>v\<in>set (trail (backtrack_loop P level ctx1)). var_level P ctx v \<le> level)"
        using False out kept undone tr by (auto simp: lvl [symmetric] subset_iff)
      then show "\<exists>undone. trail ctx = trail (backtrack_loop P level ctx1) @ undone \<and>
          (\<forall>v\<in>set undone. level < var_level P ctx v) \<and>
          (\<forall>v\<in>set (trail (backtrack_loop P level ctx1)). var_level P ctx v \<le> level)" by blast
    qed (use IH in \<open>simp_all add: backtracked_def same\<close>)
    then show ?thesis using IH(2) by (simp add: step)
  qed
qed

lemma backtrack_backtracked:
  assumes "trail_inv P ctx"
  shows "backtracked P level ctx (backtrack P ctx level)"
    and "current_decision_level (backtrack P ctx level) = level"
proof -
  have "set (trail ctx) \<subseteq> set (var_ids P ctx)" using trail_invD(2) [OF assms] by auto
  then have "backtracked P level ctx (backtrack_loop P level ctx)"
    using backtrack_loop_backtracked trail_invD(1,3) [OF assms] by blast
  then show "backtracked P level ctx (backtrack P ctx level)"
    by (simp add: backtracked_def backtrack_def)
  show "current_decision_level (backtrack P ctx level) = level" by (simp add: backtrack_def)
qed

end

lemma backtrack_loop_config:
  "config (backtrack_loop P level ctx) = config ctx \<and>
   conflict_count_since_last_restart (backtrack_loop P level ctx) = conflict_count_since_last_restart ctx"
  by (induction P level ctx rule: backtrack_loop.induct)
    (subst (1 2) backtrack_loop.simps, simp add: set_var_def)

lemma backtrack_config:
  "config (backtrack P ctx level) = config ctx \<and>
   conflict_count_since_last_restart (backtrack P ctx level) = conflict_count_since_last_restart ctx"
  using backtrack_loop_config [of P level ctx] by (simp add: backtrack_def)

section \<open>The invariant after backtracking\<close>

lemma backtracked_agree:
  assumes "backtracked P level ctx ctx'" and "v \<in> set (var_ids P ctx)" and "var_level P ctx v \<le> level"
  shows "agree_on P ctx ctx' v"
  using assms by (simp add: backtracked_def agree_on_def)

lemma backtracked_var:
  assumes "backtracked P level ctx ctx'" and "v \<in> set (var_ids P ctx)"
  shows "var_lit P ctx' v = var_lit P ctx v" and "var_level P ctx' v = var_level P ctx v"
    and "var_activity P ctx' v = var_activity P ctx v"
    and "var_val P ctx v = not_assigned \<Longrightarrow> var_val P ctx' v = not_assigned"
  using assms by (auto simp: backtracked_def)

lemma backtracked_closed_at:
  assumes b: "backtracked P level ctx ctx'" and c: "closed_at P ctx k ps" and k: "k < level"
    and ps: "\<And>p. p \<in> set ps \<Longrightarrow> snd p \<in> set (var_ids P ctx)"
  shows "closed_at P ctx' k ps"
  using c unfolding closed_at_def
proof (elim disjE bexE conjE)
  fix p assume p: "p \<in> set ps" "lit_satisfied P ctx p" "var_level P ctx (snd p) \<le> k"
  then have "agree_on P ctx ctx' (snd p)" using backtracked_agree [OF b ps] k by simp
  then have "lit_satisfied P ctx' p \<and> var_level P ctx' (snd p) \<le> k"
    using p agree_lits(1) [of P ctx ctx' p] by (simp add: agree_on_def)
  with p(1) show "(\<exists>p\<in>set ps. lit_satisfied P ctx' p \<and> var_level P ctx' (snd p) \<le> k) \<or>
      2 \<le> length (filter (\<lambda>p. var_val P ctx' (snd p) = not_assigned \<or> k < var_level P ctx' (snd p)) ps)"
    by blast
next
  assume "2 \<le> length (filter (\<lambda>p. var_val P ctx (snd p) = not_assigned \<or> k < var_level P ctx (snd p)) ps)"
  also have "\<dots> \<le> length (filter (\<lambda>p. var_val P ctx' (snd p) = not_assigned \<or> k < var_level P ctx' (snd p)) ps)"
    by (rule length_filter_mono) (use backtracked_var [OF b ps] in auto)
  finally show "(\<exists>p\<in>set ps. lit_satisfied P ctx' p \<and> var_level P ctx' (snd p) \<le> k) \<or>
      2 \<le> length (filter (\<lambda>p. var_val P ctx' (snd p) = not_assigned \<or> k < var_level P ctx' (snd p)) ps)"
    by blast
qed

lemma backtracked_trail_inv:
  assumes inv: "trail_inv P ctx" and b: "backtracked P level ctx ctx'"
    and lvl: "current_decision_level ctx' = level"
  shows "trail_inv P ctx'"
proof -
  have ids: "var_ids P ctx' = var_ids P ctx" and cls: "clauses_soa ctx' = clauses_soa ctx"
    using b by (simp_all add: backtracked_def)
  obtain undone where tr: "trail ctx = trail ctx' @ undone"
    and out: "\<forall>v\<in>set undone. level < var_level P ctx v"
    and kept: "\<forall>v\<in>set (trail ctx'). var_level P ctx v \<le> level"
    using b by (auto simp: backtracked_def)
  have sub: "set (trail ctx') \<subseteq> set (var_ids P ctx)" using trail_invD(2) [OF inv] tr by auto
  have ag: "agree_on P ctx ctx' u" if "u \<in> set (trail ctx')" for u
    using backtracked_agree [OF b] sub kept that by blast
  show ?thesis
    unfolding trail_inv_def ids lvl
  proof (intro conjI allI impI)
    show "distinct (trail ctx')" using trail_invD(1) [OF inv] by (simp add: tr)
    have "u \<in> set (trail ctx') \<longleftrightarrow> var_val P ctx' u \<noteq> not_assigned" if u: "u \<in> set (var_ids P ctx)" for u
    proof (cases "u \<in> set (trail ctx)")
      case True
      then have "var_val P ctx u \<noteq> not_assigned" using trail_invD(2) [OF inv] by auto
      moreover have "u \<in> set (trail ctx') \<longleftrightarrow> var_level P ctx u \<le> level"
        using True out kept by (auto simp: tr)
      moreover have "var_at P ctx' u =
          (if level < var_level P ctx u then unassign (var_at P ctx u) else var_at P ctx u)"
        using b u True by (simp add: backtracked_def)
      ultimately show ?thesis by (simp add: not_less)
    next
      case False
      then have "var_val P ctx u = not_assigned" using trail_invD(2) [OF inv] u by blast
      then show ?thesis using backtracked_var(4) [OF b u] False by (simp add: tr)
    qed
    then show "set (trail ctx') = {v \<in> set (var_ids P ctx). var_val P ctx' v \<noteq> not_assigned}"
      using sub by blast
    have "map (var_level P ctx') (trail ctx') = map (var_level P ctx) (trail ctx')"
      using backtracked_var(2) [OF b] sub by auto
    then show "sorted (map (var_level P ctx') (trail ctx'))"
      by (rule sorted_map_eq) (use trail_invD(3) [OF inv] in \<open>simp add: tr sorted_append\<close>)
    show "\<forall>v\<in>set (trail ctx'). var_level P ctx' v \<le> level"
      using kept backtracked_var(2) [OF b] sub by (auto simp: subset_iff)
    show "\<forall>v\<in>set (var_ids P ctx). var_val P ctx' v = not_assigned \<longrightarrow> var_reason P ctx' v = None"
      using b trail_invD(5) [OF inv] by (auto simp: backtracked_def)
    fix pre v post assume split: "trail ctx' = pre @ v # post"
    then have "justified P ctx pre v"
      using trail_invD(6) [OF inv, of pre v "post @ undone"] by (simp add: tr)
    then show "justified P ctx' pre v"
      by (rule justified_agree) (use split in \<open>auto intro: ag simp: cls\<close>)
  qed
qed

text \<open>Backtracking needs the clauses closed only below the level it goes to.\<close>

definition solver_inv_below ::
    "('vs, 'cs) platform \<Rightarrow> literal list list \<Rightarrow> nat \<Rightarrow> ('vs, 'cs) solver_context \<Rightarrow> bool" where
  "solver_inv_below P F level ctx \<longleftrightarrow>
     linked P ctx \<and> trail_inv P ctx \<and> equivalent_db P F ctx \<and>
     (\<forall>k<level. \<forall>c\<in>set (clause_ids P ctx). closed_at P ctx k (lits_of P ctx c))"

lemma solver_inv_belowI:
  "solver_inv P F ctx \<Longrightarrow> level \<le> current_decision_level ctx \<Longrightarrow> solver_inv_below P F level ctx"
  by (simp add: solver_inv_def solver_inv_below_def closed_below_def)

lemma backtracked_solver_inv:
  assumes inv: "solver_inv_below P F level ctx" and b: "backtracked P level ctx ctx'"
    and lvl: "current_decision_level ctx' = level"
  shows "solver_inv P F ctx'"
proof -
  have link: "linked P ctx" and tr: "trail_inv P ctx" and db: "equivalent_db P F ctx"
    using inv by (simp_all add: solver_inv_below_def)
  have ids: "var_ids P ctx' = var_ids P ctx" and cls: "clauses_soa ctx' = clauses_soa ctx"
    using b by (simp_all add: backtracked_def)
  have "linked P ctx'"
    using link backtracked_var(1) [OF b] by (auto simp: linked_def pair_ok_def inj_on_def ids cls)
  moreover have "trail_inv P ctx'" by (rule backtracked_trail_inv [OF tr b lvl])
  moreover have "closed_below P ctx'"
    unfolding closed_below_def lvl cls
  proof (intro allI impI ballI)
    fix k c assume k: "k < level" and c: "c \<in> set (clause_ids P ctx)"
    have "closed_at P ctx k (lits_of P ctx c)"
      using inv k c by (simp add: solver_inv_below_def)
    then show "closed_at P ctx' k (lits_of P ctx c)"
      by (rule backtracked_closed_at [OF b _ k]) (rule linked_var [OF link c])
  qed
  moreover have "equivalent_db P F ctx'"
    using db by (simp add: equivalent_db_def cls)
  ultimately show ?thesis by (simp add: solver_inv_def)
qed

context solver_platform begin

lemma backtrack_solver_inv_below:
  assumes "solver_inv_below P F level ctx"
  shows "solver_inv P F (backtrack P ctx level)"
  using backtracked_solver_inv [OF assms] backtrack_backtracked assms
  unfolding solver_inv_below_def by blast

lemma backtrack_solver_inv:
  assumes "solver_inv P F ctx" and "level \<le> current_decision_level ctx"
  shows "solver_inv P F (backtrack P ctx level)"
  by (intro backtrack_solver_inv_below solver_inv_belowI assms)

section \<open>Restarts\<close>

lemma restart_solver_inv:
  assumes inv: "solver_inv P F ctx"
  shows "solver_inv P F (restart_if_needed P ctx)"
proof (cases "unat (restart_threshold (config ctx)) \<le> conflict_count_since_last_restart ctx")
  case True
  let ?ctx1 = "ctx\<lparr>conflict_count_since_last_restart := 0,
      stats := (stats ctx)\<lparr>restarts := restarts (stats ctx) + 1\<rparr>\<rparr>"
  have "solver_inv P F ?ctx1"
    by (rule solver_inv_same_state [OF inv]) (simp add: same_state_def)
  then have "solver_inv P F (backtrack P ?ctx1 0)" by (rule backtrack_solver_inv) simp
  then show ?thesis
    by (rule solver_inv_same_state) (simp add: same_state_def restart_if_needed_def True Let_def)
qed (simp add: restart_if_needed_def inv)

end

section \<open>The trail cut at a level\<close>

text \<open>The trail loses what is above the level; what is left of it, and the clauses, stay.\<close>

definition cut_to ::
    "('vs, 'cs) platform \<Rightarrow> nat \<Rightarrow> ('vs, 'cs) solver_context \<Rightarrow> ('vs, 'cs) solver_context \<Rightarrow> bool" where
  "cut_to P level ctx ctx' \<longleftrightarrow>
     current_decision_level ctx' = level \<and> var_ids P ctx' = var_ids P ctx \<and>
     trail ctx' = takeWhile (\<lambda>v. var_level P ctx v \<le> level) (trail ctx) \<and>
     (\<forall>v\<in>set (var_ids P ctx). var_lit P ctx' v = var_lit P ctx v) \<and>
     (\<forall>v\<in>set (trail ctx'). agree_on P ctx ctx' v) \<and>
     (\<forall>c\<in>set (clause_ids P ctx). c \<in> set (clause_ids P ctx') \<and> lits_of P ctx' c = lits_of P ctx c)"

lemma backtracked_cut_to:
  assumes b: "backtracked P level ctx ctx'" and "current_decision_level ctx' = level"
    and ids: "set (trail ctx) \<subseteq> set (var_ids P ctx)"
  shows "cut_to P level ctx ctx'"
proof -
  obtain undone where tr: "trail ctx = trail ctx' @ undone"
    and out: "\<forall>v\<in>set undone. level < var_level P ctx v" and kept: "\<forall>v\<in>set (trail ctx'). var_level P ctx v \<le> level"
    using b by (auto simp: backtracked_def)
  have "takeWhile (\<lambda>v. var_level P ctx v \<le> level) undone = []" using out by (cases undone) auto
  then have "trail ctx' = takeWhile (\<lambda>v. var_level P ctx v \<le> level) (trail ctx)"
    unfolding tr using kept by (simp add: takeWhile_append2)
  moreover have "agree_on P ctx ctx' v" if "v \<in> set (trail ctx')" for v
    by (rule backtracked_agree [OF b]) (use that kept ids tr in auto)
  ultimately show ?thesis using b assms(2) by (auto simp: cut_to_def backtracked_def)
qed

lemma cut_to_before:
  assumes "cut_to P level ctx1 ctx2" and "vars_soa ctx1 = vars_soa ctx" and "trail ctx1 = trail ctx"
    and "\<forall>c\<in>set (clause_ids P ctx). c \<in> set (clause_ids P ctx1) \<and> lits_of P ctx1 c = lits_of P ctx c"
  shows "cut_to P level ctx ctx2"
  using assms by (auto simp: cut_to_def agree_on_def)

lemma cut_to_after:
  assumes c: "cut_to P level ctx ctx1" and s: "same_state P ctx1 ctx2" and "set (trail ctx1) \<subseteq> set (var_ids P ctx1)"
  shows "cut_to P level ctx ctx2"
proof -
  have "agree_on P ctx ctx2 v" if "v \<in> set (trail ctx1)" for v
    using c s that assms(3) by (fastforce simp: cut_to_def same_state_def agree_on_def)
  then show ?thesis using c s by (simp add: cut_to_def same_state_def)
qed

end
