(* ===== verification/Sat_Conflict.thy ===== *)
theory Sat_Conflict
  imports Sat_Backtrack
begin

text \<open>
  Conflict resolution: every state of the resolution loop is a falsified clause the model entails,
  with \<open>current_level_vars\<close> its variables of the current level; the learned clause has exactly one
  variable of the current level and is not in the database yet; learning it keeps the invariant.
\<close>

section \<open>Adding an antecedent clause\<close>

definition current_vars ::
    "('vs, 'cs) platform \<Rightarrow> ('vs, 'cs) solver_context \<Rightarrow> (literal \<times> struct_id) list \<Rightarrow> struct_id set" where
  "current_vars P ctx ps = snd ` {p \<in> set ps. at_current_level P ctx (snd p)}"

definition level_witness ::
    "('vs, 'cs) platform \<Rightarrow> ('vs, 'cs) solver_context \<Rightarrow> (literal \<times> struct_id) list \<Rightarrow> nat \<Rightarrow> bool" where
  "level_witness P ctx ps bt \<longleftrightarrow>
     bt = 0 \<or> (\<exists>p\<in>set ps. var_level P ctx (snd p) = bt \<and> bt < current_decision_level ctx)"

lemma current_vars_simps [simp]:
  "current_vars P ctx [] = {}"
  "current_vars P ctx (ps @ qs) = current_vars P ctx ps \<union> current_vars P ctx qs"
  "current_vars P ctx (p # ps) =
     (if at_current_level P ctx (snd p) then insert (snd p) (current_vars P ctx ps) else current_vars P ctx ps)"
  by (auto simp: current_vars_def)

lemma level_witness_mono: "level_witness P ctx ps bt \<Longrightarrow> set ps \<subseteq> set qs \<Longrightarrow> level_witness P ctx qs bt"
  by (auto simp: level_witness_def)

lemma add_antecedent_sets:
  "add_antecedent P ctx tlit ps (learned, cur, bt) = (learned', cur', bt') \<Longrightarrow>
   set learned \<subseteq> set learned' \<and>
   set learned' \<subseteq> set learned \<union> {p \<in> set ps. lit_value (fst p) \<noteq> lit_value tlit} \<and>
   (\<forall>p\<in>set ps. lit_value (fst p) \<noteq> lit_value tlit \<longrightarrow>
      (\<exists>q\<in>set learned'. lit_value (fst p) = lit_value (fst q)))"
proof (induction ps arbitrary: learned cur bt)
  case (Cons p ps)
  obtain l u where p: "p = (l, u)" by (cases p)
  show ?case
  proof (cases "lit_value l = lit_value tlit \<or> list_ex (\<lambda>q. lit_value l = lit_value (fst q)) learned")
    case True
    then have "add_antecedent P ctx tlit ps (learned, cur, bt) = (learned', cur', bt')"
      using Cons.prems by (simp add: p)
    from Cons.IH [OF this] True show ?thesis by (auto simp: p list_ex_iff)
  next
    case False
    then obtain cur2 bt2 where
      "add_antecedent P ctx tlit ps (learned @ [(l, u)], cur2, bt2) = (learned', cur', bt')"
      using Cons.prems by (auto simp: p split: if_splits)
    from Cons.IH [OF this] False show ?thesis by (auto simp: p intro: bexI [of _ "(l, u)"])
  qed
qed simp

lemma add_antecedent_current:
  "add_antecedent P ctx tlit ps (learned, cur, bt) = (learned', cur', bt') \<Longrightarrow>
   set cur = X \<union> current_vars P ctx learned \<Longrightarrow> set cur' = X \<union> current_vars P ctx learned'"
proof (induction ps arbitrary: learned cur bt)
  case (Cons p ps)
  obtain l u where p: "p = (l, u)" by (cases p)
  show ?case
    using Cons.prems(1) Cons.IH Cons.prems(2) by (simp add: p split: if_splits)
qed simp

lemma add_antecedent_level:
  "add_antecedent P ctx tlit ps (learned, cur, bt) = (learned', cur', bt') \<Longrightarrow>
   \<forall>p\<in>set ps. lit_value (fst p) \<noteq> lit_value tlit \<longrightarrow> var_level P ctx (snd p) \<le> current_decision_level ctx \<Longrightarrow>
   level_witness P ctx learned bt \<Longrightarrow> level_witness P ctx learned' bt'"
proof (induction ps arbitrary: learned cur bt)
  case (Cons p ps)
  obtain l u where p: "p = (l, u)" by (cases p)
  have more: "level_witness P ctx (learned @ [(l, u)]) bt"
    using Cons.prems(3) by (rule level_witness_mono) auto
  have new: "level_witness P ctx (learned @ [(l, u)]) (var_level P ctx u)"
    if "lit_value l \<noteq> lit_value tlit" "\<not> at_current_level P ctx u"
    using Cons.prems(2) that by (auto simp: p level_witness_def at_current_level_def)
  show ?case
    using Cons.prems Cons.IH more new by (simp add: p split: if_splits)
qed simp

section \<open>The search for an antecedent\<close>

lemma find_antecedent_found:
  "find_antecedent P ctx cur t = i \<Longrightarrow> i \<noteq> 0 \<Longrightarrow> is_antecedent P ctx cur (trail ctx ! i)"
  by (induction t) (auto split: if_splits)

lemma find_antecedent_skipped:
  "find_antecedent P ctx cur t < j \<Longrightarrow> j \<le> t \<Longrightarrow> \<not> is_antecedent P ctx cur (trail ctx ! j)"
  by (induction t) (auto split: if_splits simp: le_Suc_eq)

section \<open>The trail by position\<close>

lemma trail_split:
  assumes "i < length (trail ctx)"
  shows "trail ctx = take i (trail ctx) @ trail ctx ! i # drop (Suc i) (trail ctx)"
  using assms by (rule id_take_nth_drop)

lemma justified_at:
  assumes "trail_inv P ctx" and "i < length (trail ctx)"
  shows "justified P ctx (take i (trail ctx)) (trail ctx ! i)"
  using trail_invD(6) [OF assms(1) trail_split [OF assms(2)]] .

lemma decision_at:
  assumes "trail_inv P ctx" and "i < length (trail ctx)" and "var_reason P ctx (trail ctx ! i) = None"
    and "j < i"
  shows "var_level P ctx (trail ctx ! j) < var_level P ctx (trail ctx ! i)"
proof -
  have "trail ctx ! j \<in> set (take i (trail ctx))"
    using assms(2,4) by (auto simp: in_set_conv_nth intro!: exI [of _ j])
  then show ?thesis using justified_at [OF assms(1,2)] assms(3) by (simp add: justified_def)
qed

lemma reason_at:
  assumes inv: "solver_inv P F ctx" and i: "i < length (trail ctx)"
    and reason: "var_reason P ctx (trail ctx ! i) = Some r"
  obtains l where "r \<in> set (clause_ids P ctx)" "(l, trail ctx ! i) \<in> set (lits_of P ctx r)"
    "lit_satisfied P ctx (l, trail ctx ! i)"
    "filter (\<lambda>p. snd p = trail ctx ! i) (lits_of P ctx r) = [(l, trail ctx ! i)]"
    "\<And>p. p \<in> set (lits_of P ctx r) \<Longrightarrow> p \<noteq> (l, trail ctx ! i) \<Longrightarrow>
       snd p \<noteq> trail ctx ! i \<and> snd p \<in> set (take i (trail ctx)) \<and> lit_falsified P ctx p"
proof -
  let ?v = "trail ctx ! i"
  obtain l where r: "r \<in> set (clause_ids P ctx)"
    and l: "filter (\<lambda>p. snd p = ?v) (lits_of P ctx r) = [(l, ?v)]" "lit_satisfied P ctx (l, ?v)"
    and others: "\<forall>p\<in>set (lits_of P ctx r). snd p \<noteq> ?v \<longrightarrow>
      snd p \<in> set (take i (trail ctx)) \<and> lit_falsified P ctx p"
    using justified_at [OF solver_invD(2) [OF inv] i] reason by (auto simp: justified_def)
  have "(l, ?v) \<in> set (lits_of P ctx r)" and only: "\<And>p. p \<in> set (lits_of P ctx r) \<Longrightarrow> snd p = ?v \<Longrightarrow> p = (l, ?v)"
    using filter_singletonD [OF l(1)] by auto
  then show ?thesis using that r l others by blast
qed

lemma on_trail_level:
  assumes "solver_inv P F ctx" and "v \<in> set (var_ids P ctx)" and "var_val P ctx v \<noteq> not_assigned"
  shows "v \<in> set (trail ctx)" and "var_level P ctx v \<le> current_decision_level ctx"
proof -
  show "v \<in> set (trail ctx)" using trail_invD(2) [OF solver_invD(2) [OF assms(1)]] assms(2,3) by auto
  then show "var_level P ctx v \<le> current_decision_level ctx"
    by (rule trail_invD(4) [OF solver_invD(2) [OF assms(1)]])
qed

text \<open>
  A clause no literal of which was satisfied below the current level has two literals of the
  current level, for otherwise it would have been unit or falsified when the level below was
  complete.
\<close>

lemma two_of_current_level:
  assumes inv: "solver_inv P F ctx" and c: "c \<in> set (clause_ids P ctx)"
    and pos: "0 < current_decision_level ctx"
    and assigned: "\<And>p. p \<in> set (lits_of P ctx c) \<Longrightarrow> var_val P ctx (snd p) \<noteq> not_assigned"
    and sat: "\<And>p. p \<in> set (lits_of P ctx c) \<Longrightarrow> lit_satisfied P ctx p \<Longrightarrow> at_current_level P ctx (snd p)"
  shows "2 \<le> length (filter (\<lambda>p. at_current_level P ctx (snd p)) (lits_of P ctx c))"
proof -
  let ?k = "current_decision_level ctx - 1"
  have k: "?k < current_decision_level ctx" using pos by simp
  have "closed_at P ctx ?k (lits_of P ctx c)"
    using solver_invD(3) [OF inv] c k by (simp add: closed_below_def)
  moreover have "\<not> (lit_satisfied P ctx p \<and> var_level P ctx (snd p) \<le> ?k)" if "p \<in> set (lits_of P ctx c)" for p
    using sat [OF that] k by (auto simp: at_current_level_def)
  ultimately have "2 \<le> length (filter (\<lambda>p. var_val P ctx (snd p) = not_assigned \<or> ?k < var_level P ctx (snd p))
      (lits_of P ctx c))"
    by (auto simp: closed_at_def)
  also have "\<dots> \<le> length (filter (\<lambda>p. at_current_level P ctx (snd p)) (lits_of P ctx c))"
  proof (rule length_filter_mono)
    fix p assume p: "p \<in> set (lits_of P ctx c)"
      and "var_val P ctx (snd p) = not_assigned \<or> ?k < var_level P ctx (snd p)"
    then have "?k < var_level P ctx (snd p)" using assigned by blast
    moreover have "var_level P ctx (snd p) \<le> current_decision_level ctx"
      using on_trail_level(2) [OF inv linked_var [OF solver_invD(1) [OF inv] c p] assigned [OF p]] .
    ultimately show "at_current_level P ctx (snd p)" using pos by (simp add: at_current_level_def)
  qed
  finally show ?thesis .
qed

section \<open>The invariant of the resolution loop\<close>

definition entailed :: "literal list list \<Rightarrow> (literal \<times> struct_id) list \<Rightarrow> bool" where
  "entailed F ps \<longleftrightarrow> (\<forall>\<sigma>. cnf_holds \<sigma> F \<longrightarrow> clause_holds \<sigma> (map fst ps))"

definition falsified_pairs ::
    "('vs, 'cs) platform \<Rightarrow> ('vs, 'cs) solver_context \<Rightarrow> (literal \<times> struct_id) list \<Rightarrow> bool" where
  "falsified_pairs P ctx ps \<longleftrightarrow> (\<forall>p\<in>set ps. pair_ok P ctx p \<and> lit_falsified P ctx p)"

definition resolution_inv ::
    "('vs, 'cs) platform \<Rightarrow> literal list list \<Rightarrow> ('vs, 'cs) solver_context \<Rightarrow> nat \<Rightarrow> resolution \<Rightarrow> bool" where
  "resolution_inv P F ctx t st \<longleftrightarrow>
     (case st of (learned, cur, bt) \<Rightarrow>
        falsified_pairs P ctx learned \<and> entailed F learned \<and>
        set cur = current_vars P ctx learned \<and> level_witness P ctx learned bt \<and>
        set cur \<subseteq> set (take (Suc t) (trail ctx)) \<and>
        (0 < current_decision_level ctx \<longrightarrow> cur \<noteq> []))"

lemma entailed_clause: "equivalent_db P F ctx \<Longrightarrow> c \<in> set (clause_ids P ctx) \<Longrightarrow> entailed F (lits_of P ctx c)"
  by (simp add: equivalent_db_def entailed_def)

lemma entailed_iff: "entailed F ps \<longleftrightarrow> (\<forall>\<sigma>. cnf_holds \<sigma> F \<longrightarrow> (\<exists>p\<in>set ps. lit_holds \<sigma> (fst p)))"
  by (simp add: entailed_def clause_holds_def)

text \<open>A falsified and a satisfied literal of one variable are not true together.\<close>

lemma complementary:
  assumes "lit_falsified P ctx (l, v)" and "lit_satisfied P ctx (l', v)"
    and "lit_value l = lit_value l'" and "lit_holds \<sigma> l" and "lit_holds \<sigma> l'"
  shows False
  using assms by (auto simp: solver_defs lit_holds_def is_on_def is_off_def)

lemma other_pairs:
  assumes "linked P ctx" and "falsified_pairs P ctx ps" and "v \<in> set (var_ids P ctx)"
  shows "set (filter (\<lambda>q. lit_value (fst q) \<noteq> lit_value (var_lit P ctx v)) ps) = {p \<in> set ps. snd p \<noteq> v}"
  using assms(2) pair_ok_var_inj [OF assms(1) _ assms(3)] by (auto simp: falsified_pairs_def)

text \<open>The state after the literals of a variable were replaced by those of its reason.\<close>

lemma resolve_on_sets:
  assumes inv: "solver_inv P F ctx" and v: "v \<in> set (var_ids P ctx)"
    and reason: "var_reason P ctx v = Some r" and r: "r \<in> set (clause_ids P ctx)"
    and fp: "falsified_pairs P ctx learned"
    and res: "resolve_on P ctx v (learned, cur, bt) = (learned', cur', bt')"
  shows "{p \<in> set learned. snd p \<noteq> v} \<subseteq> set learned'"
    and "set learned' \<subseteq> {p \<in> set learned \<union> set (lits_of P ctx r). snd p \<noteq> v}"
    and "p \<in> set (lits_of P ctx r) \<Longrightarrow> snd p \<noteq> v \<Longrightarrow>
      \<exists>q\<in>set learned'. lit_value (fst p) = lit_value (fst q)"
proof -
  note link = solver_invD(1) [OF inv]
  let ?l1 = "filter (\<lambda>q. lit_value (fst q) \<noteq> lit_value (var_lit P ctx v)) learned"
  obtain cur2 where add: "add_antecedent P ctx (var_lit P ctx v) (lits_of P ctx r) (?l1, cur, bt) =
      (learned', cur2, bt')"
    using res reason by (auto simp: resolve_on_def Let_def split: prod.splits)
  have l1: "set ?l1 = {p \<in> set learned. snd p \<noteq> v}"
    by (rule other_pairs [OF link fp v])
  have lr: "lit_value (fst p) = lit_value (var_lit P ctx v) \<longleftrightarrow> snd p = v" if "p \<in> set (lits_of P ctx r)" for p
    using pair_ok_var_inj [OF link _ v] link r that by (simp add: linked_def)
  note sets = add_antecedent_sets [OF add]
  show "{p \<in> set learned. snd p \<noteq> v} \<subseteq> set learned'" using sets l1 by simp
  have "set learned' \<subseteq> set ?l1 \<union> {p \<in> set (lits_of P ctx r). lit_value (fst p) \<noteq> lit_value (var_lit P ctx v)}"
    using sets by blast
  then show "set learned' \<subseteq> {p \<in> set learned \<union> set (lits_of P ctx r). snd p \<noteq> v}"
    unfolding l1 using lr by blast
  show "\<exists>q\<in>set learned'. lit_value (fst p) = lit_value (fst q)"
    if "p \<in> set (lits_of P ctx r)" "snd p \<noteq> v"
    using sets lr that by blast
qed

lemma resolve_on_current:
  assumes inv: "solver_inv P F ctx" and v: "v \<in> set (var_ids P ctx)" "at_current_level P ctx v"
    and reason: "var_reason P ctx v = Some r"
    and fp: "falsified_pairs P ctx learned" and cur: "set cur = current_vars P ctx learned"
      "v \<in> set cur" "set cur \<subseteq> set (var_ids P ctx)"
    and res: "resolve_on P ctx v (learned, cur, bt) = (learned', cur', bt')"
    and lits: "\<And>p. p \<in> set learned' \<Longrightarrow> snd p \<noteq> v \<and> snd p \<in> set (var_ids P ctx)"
  shows "set cur' = current_vars P ctx learned'"
proof -
  note link = solver_invD(1) [OF inv]
  let ?l1 = "filter (\<lambda>q. lit_value (fst q) \<noteq> lit_value (var_lit P ctx v)) learned"
  obtain cur2 where add: "add_antecedent P ctx (var_lit P ctx v) (lits_of P ctx r) (?l1, cur, bt) =
      (learned', cur2, bt')"
    and cur': "cur' = filter (\<lambda>u. \<not> lit_eq (var_lit P ctx u) (var_lit P ctx v)) cur2"
    using res reason by (auto simp: resolve_on_def Let_def split: prod.splits)
  have "current_vars P ctx ?l1 = current_vars P ctx learned - {v}"
    unfolding current_vars_def other_pairs [OF link fp v(1)] by auto
  then have "set cur = {v} \<union> current_vars P ctx ?l1" using cur by auto
  from add_antecedent_current [OF add this] have cur2: "set cur2 = {v} \<union> current_vars P ctx learned'" .
  have sub: "current_vars P ctx learned' \<subseteq> set (var_ids P ctx) - {v}"
    using lits by (auto simp: current_vars_def)
  have "lit_eq (var_lit P ctx u) (var_lit P ctx v) \<longleftrightarrow> u = v" if "u \<in> set (var_ids P ctx)" for u
    using link that v(1) by (auto simp: lit_eq_iff linked_def inj_on_def)
  then show ?thesis using sub v(1) by (auto simp: cur' cur2)
qed

text \<open>One round of the loop: each part of the invariant for the new state.\<close>

lemma resolution_entailed:
  assumes inv: "solver_inv P F ctx" and i: "i < length (trail ctx)"
    and reason: "var_reason P ctx (trail ctx ! i) = Some r"
    and fp: "falsified_pairs P ctx learned" and ent: "entailed F learned"
    and res: "resolve_on P ctx (trail ctx ! i) (learned, cur, bt) = (learned', cur', bt')"
  shows "falsified_pairs P ctx learned' \<and> entailed F learned'"
proof -
  let ?v = "trail ctx ! i"
  note link = solver_invD(1) [OF inv]
  have v: "?v \<in> set (var_ids P ctx)"
    using trail_invD(2) [OF solver_invD(2) [OF inv]] i nth_mem [of i "trail ctx"] by auto
  obtain l where r: "r \<in> set (clause_ids P ctx)" and l: "(l, ?v) \<in> set (lits_of P ctx r)"
    "lit_satisfied P ctx (l, ?v)"
    and "filter (\<lambda>p. snd p = ?v) (lits_of P ctx r) = [(l, ?v)]"
    and others: "\<And>p. p \<in> set (lits_of P ctx r) \<Longrightarrow> p \<noteq> (l, ?v) \<Longrightarrow>
      snd p \<noteq> ?v \<and> snd p \<in> set (take i (trail ctx)) \<and> lit_falsified P ctx p"
    by (rule reason_at [OF inv i reason]) (rule that)
  note sets = resolve_on_sets [OF inv v reason r fp res]
  have ok: "pair_ok P ctx p" if "p \<in> set (lits_of P ctx r)" for p
    using link r that by (simp add: linked_def)
  have fp': "falsified_pairs P ctx learned'"
    unfolding falsified_pairs_def
  proof
    fix p assume "p \<in> set learned'"
    with sets(2) have ne: "p \<noteq> (l, ?v)" and "p \<in> set learned \<or> p \<in> set (lits_of P ctx r)" by auto
    then show "pair_ok P ctx p \<and> lit_falsified P ctx p"
      using fp ok [of p] others [OF _ ne] unfolding falsified_pairs_def by blast
  qed
  have "\<exists>p\<in>set learned'. lit_holds \<sigma> (fst p)" if \<sigma>: "cnf_holds \<sigma> F" for \<sigma>
  proof -
    obtain p where p: "p \<in> set learned" "lit_holds \<sigma> (fst p)"
      using ent \<sigma> by (auto simp: entailed_iff)
    obtain q where q: "q \<in> set (lits_of P ctx r)" "lit_holds \<sigma> (fst q)"
      using entailed_clause [OF solver_invD(4) [OF inv] r] \<sigma> by (auto simp: entailed_iff)
    show ?thesis
    proof (cases "snd p = ?v \<and> snd q = ?v")
      case True
      then have "q = (l, ?v)" using others [OF q(1)] by auto
      moreover have "p = (fst p, ?v)" using True by (cases p) simp
      moreover have "lit_value (fst p) = lit_value l"
        using fp p(1) ok [OF l(1)] True by (auto simp: falsified_pairs_def pair_ok_def)
      ultimately have False
        using complementary [of P ctx "fst p" ?v l \<sigma>] fp p q l(2) by (auto simp: falsified_pairs_def)
      then show ?thesis ..
    next
      case False
      show ?thesis
      proof (cases "snd p = ?v")
        case True
        with False have nq: "snd q \<noteq> ?v" by simp
        then have "q \<noteq> (l, ?v)" by auto
        then have fq: "lit_falsified P ctx q" using others [OF q(1)] by blast
        obtain q' where q': "q' \<in> set learned'" "lit_value (fst q) = lit_value (fst q')"
          using sets(3) [OF q(1) nq] by blast
        then have "q = q'"
          using fp' by (intro falsified_unique [OF link ok [OF q(1)] _ fq]) (auto simp: falsified_pairs_def)
        with q q' show ?thesis by blast
      next
        case False
        then show ?thesis using sets(1) p by blast
      qed
    qed
  qed
  with fp' show ?thesis by (simp add: entailed_iff)
qed

lemma resolution_positions:
  assumes inv: "solver_inv P F ctx" and i: "i < length (trail ctx)" and reason: "var_reason P ctx (trail ctx ! i) = Some r"
    and lvl: "at_current_level P ctx (trail ctx ! i)"
    and cur: "set cur \<subseteq> set (take (Suc t) (trail ctx))" "\<And>u. u \<in> set cur \<Longrightarrow> at_current_level P ctx u"
    and i_eq: "i = find_antecedent P ctx cur t" and t: "t < length (trail ctx)"
    and u: "u \<in> set cur" "u \<noteq> trail ctx ! i"
  shows "u \<in> set (take i (trail ctx))"
proof -
  obtain j where j: "j \<le> t" "u = trail ctx ! j"
    using cur(1) u(1) by (auto simp: in_set_conv_nth less_Suc_eq_le subset_iff)
  have "\<not> i < j"
  proof
    assume ij: "i < j"
    then have "\<not> is_antecedent P ctx cur u" using find_antecedent_skipped j by (simp add: i_eq)
    then have "var_reason P ctx (trail ctx ! j) = None"
      using u(1) cur(2) [OF u(1)] by (auto simp: is_antecedent_def is_decision_iff list_ex_iff j(2))
    then have "var_level P ctx (trail ctx ! i) < var_level P ctx u"
      using decision_at [OF solver_invD(2) [OF inv] _ _ ij] j t by simp
    then show False using lvl cur(2) [OF u(1)] by (simp add: at_current_level_def)
  qed
  then have "j < i" using u(2) j(2) by (cases i j rule: linorder_cases) auto
  then show ?thesis using i j(2) by (auto simp: in_set_conv_nth intro!: exI [of _ j])
qed

lemma falsified_level:
  assumes inv: "solver_inv P F ctx" and fp: "falsified_pairs P ctx ps" and p: "p \<in> set ps"
  shows "snd p \<in> set (trail ctx)" and "var_level P ctx (snd p) \<le> current_decision_level ctx"
proof -
  have "pair_ok P ctx p" and "lit_falsified P ctx p" using fp p by (simp_all add: falsified_pairs_def)
  then have "snd p \<in> set (var_ids P ctx)" "var_val P ctx (snd p) \<noteq> not_assigned"
    using falsified_assigned by (simp_all add: pair_ok_def)
  then show "snd p \<in> set (trail ctx)" and "var_level P ctx (snd p) \<le> current_decision_level ctx"
    by (rule on_trail_level [OF inv])+
qed

lemma resolve_on_level:
  assumes inv: "solver_inv P F ctx" and v: "v \<in> set (var_ids P ctx)" "at_current_level P ctx v"
    and reason: "var_reason P ctx v = Some r" and r: "r \<in> set (clause_ids P ctx)"
    and fp: "falsified_pairs P ctx learned" and bt: "level_witness P ctx learned bt"
    and lits: "\<And>p. p \<in> set (lits_of P ctx r) \<Longrightarrow> snd p \<noteq> v \<Longrightarrow>
      var_level P ctx (snd p) \<le> current_decision_level ctx"
    and res: "resolve_on P ctx v (learned, cur, bt) = (learned', cur', bt')"
  shows "level_witness P ctx learned' bt'"
proof -
  note link = solver_invD(1) [OF inv]
  let ?l1 = "filter (\<lambda>q. lit_value (fst q) \<noteq> lit_value (var_lit P ctx v)) learned"
  obtain cur2 where add: "add_antecedent P ctx (var_lit P ctx v) (lits_of P ctx r) (?l1, cur, bt) =
      (learned', cur2, bt')"
    using res reason by (auto simp: resolve_on_def Let_def split: prod.splits)
  have "level_witness P ctx ?l1 bt"
    using bt unfolding level_witness_def other_pairs [OF link fp v(1)]
  proof (elim disjE bexE conjE)
    fix p assume p: "p \<in> set learned" "var_level P ctx (snd p) = bt" "bt < current_decision_level ctx"
    then have "snd p \<noteq> v" using v(2) by (auto simp: at_current_level_def)
    with p show "bt = 0 \<or> (\<exists>p\<in>{p \<in> set learned. snd p \<noteq> v}.
        var_level P ctx (snd p) = bt \<and> bt < current_decision_level ctx)" by blast
  qed simp
  moreover have "\<forall>p\<in>set (lits_of P ctx r). lit_value (fst p) \<noteq> lit_value (var_lit P ctx v) \<longrightarrow>
      var_level P ctx (snd p) \<le> current_decision_level ctx"
    using pair_ok_var_inj [OF link _ v(1)] link r lits unfolding linked_def by blast
  ultimately show ?thesis using add_antecedent_level [OF add] by blast
qed

lemma resolution_current_nonempty:
  assumes inv: "solver_inv P F ctx" and r: "r \<in> set (clause_ids P ctx)"
    and pos: "0 < current_decision_level ctx"
    and l: "(l, v) \<in> set (lits_of P ctx r)" "filter (\<lambda>p. snd p = v) (lits_of P ctx r) = [(l, v)]"
    and lvl: "at_current_level P ctx v" and assigned: "var_val P ctx v \<noteq> not_assigned"
    and others: "\<And>p. p \<in> set (lits_of P ctx r) \<Longrightarrow> p \<noteq> (l, v) \<Longrightarrow>
      snd p \<noteq> v \<and> snd p \<in> set (take i (trail ctx)) \<and> lit_falsified P ctx p"
    and fp: "falsified_pairs P ctx learned'"
    and have_all: "\<And>p. p \<in> set (lits_of P ctx r) \<Longrightarrow> snd p \<noteq> v \<Longrightarrow>
      \<exists>q\<in>set learned'. lit_value (fst p) = lit_value (fst q)"
  shows "current_vars P ctx learned' \<noteq> {}"
proof -
  note link = solver_invD(1) [OF inv] and tr = solver_invD(2) [OF inv]
  have "2 \<le> length (filter (\<lambda>p. at_current_level P ctx (snd p)) (lits_of P ctx r))"
  proof (rule two_of_current_level [OF inv r pos])
    fix p assume p: "p \<in> set (lits_of P ctx r)"
    show "at_current_level P ctx (snd p)" if "lit_satisfied P ctx p"
      using others [OF p] falsified_not_satisfied [of P ctx p] that lvl by (cases "p = (l, v)") auto
    show "var_val P ctx (snd p) \<noteq> not_assigned"
    proof (cases "p = (l, v)")
      case True
      then show ?thesis using assigned by simp
    next
      case False
      then show ?thesis using others [OF p] falsified_assigned by blast
    qed
  qed
  moreover have "length (filter (\<lambda>p. snd p = v) (lits_of P ctx r)) = 1" by (simp add: l(2))
  ultimately obtain p where p: "p \<in> set (lits_of P ctx r)" "at_current_level P ctx (snd p)" "snd p \<noteq> v"
    using length_filter_mono [of "lits_of P ctx r" "\<lambda>p. at_current_level P ctx (snd p)" "\<lambda>p. snd p = v"]
    by fastforce
  then have "p \<noteq> (l, v)" by auto
  then have fp_p: "lit_falsified P ctx p" using others [OF p(1)] by blast
  obtain q where q: "q \<in> set learned'" "lit_value (fst p) = lit_value (fst q)"
    using have_all [OF p(1,3)] by blast
  have "p = q"
    using fp q link r p(1) fp_p
    by (intro falsified_unique [OF link]) (auto simp: falsified_pairs_def linked_def)
  then show ?thesis using q(1) p(2) unfolding current_vars_def by blast
qed

lemma resolution_step:
  assumes inv: "solver_inv P F ctx" and t: "t < length (trail ctx)"
    and ri: "resolution_inv P F ctx t (learned, cur, bt)"
    and i_eq: "i = find_antecedent P ctx cur t" and i0: "i \<noteq> 0"
  shows "resolution_inv P F ctx (i - 1) (resolve_on P ctx (trail ctx ! i) (learned, cur, bt))"
proof -
  let ?v = "trail ctx ! i"
  obtain learned' cur' bt' where res: "resolve_on P ctx ?v (learned, cur, bt) = (learned', cur', bt')"
    by (cases "resolve_on P ctx ?v (learned, cur, bt)")
  note link = solver_invD(1) [OF inv]
  have i: "i < length (trail ctx)" using find_antecedent_le [of P ctx cur t] t by (simp add: i_eq)
  have tvars: "set (trail ctx) \<subseteq> set (var_ids P ctx)"
    using trail_invD(2) [OF solver_invD(2) [OF inv]] by auto
  have v: "?v \<in> set (var_ids P ctx)" using tvars i nth_mem by blast
  have assigned: "var_val P ctx ?v \<noteq> not_assigned"
    using trail_invD(2) [OF solver_invD(2) [OF inv]] i nth_mem [of i "trail ctx"] by auto
  have fp: "falsified_pairs P ctx learned" and ent: "entailed F learned"
    and cur: "set cur = current_vars P ctx learned" and bt: "level_witness P ctx learned bt"
    and pos: "set cur \<subseteq> set (take (Suc t) (trail ctx))"
    using ri unfolding resolution_inv_def prod.case by blast+
  have cvars: "set cur \<subseteq> set (var_ids P ctx)"
    using subset_trans [OF pos set_take_subset] tvars by blast
  have ante: "is_antecedent P ctx cur ?v" using find_antecedent_found i_eq i0 by metis
  then obtain r where reason: "var_reason P ctx ?v = Some r" and lvl: "at_current_level P ctx ?v"
    by (auto simp: is_antecedent_def is_decision_iff)
  from ante obtain u where "u \<in> set cur" "lit_value (var_lit P ctx u) = lit_value (var_lit P ctx ?v)"
    by (auto simp: is_antecedent_def list_ex_iff)
  then have vcur: "?v \<in> set cur" using link cvars v by (auto simp: linked_def inj_on_def)
  obtain l where r: "r \<in> set (clause_ids P ctx)" and l: "(l, ?v) \<in> set (lits_of P ctx r)"
    and "lit_satisfied P ctx (l, ?v)"
    and once: "filter (\<lambda>p. snd p = ?v) (lits_of P ctx r) = [(l, ?v)]"
    and others: "\<And>p. p \<in> set (lits_of P ctx r) \<Longrightarrow> p \<noteq> (l, ?v) \<Longrightarrow>
      snd p \<noteq> ?v \<and> snd p \<in> set (take i (trail ctx)) \<and> lit_falsified P ctx p"
    by (rule reason_at [OF inv i reason]) (rule that)
  note sets = resolve_on_sets [OF inv v reason r fp res]
  have fp': "falsified_pairs P ctx learned'" "entailed F learned'"
    using resolution_entailed [OF inv i reason fp ent res] by simp_all
  have cur': "set cur' = current_vars P ctx learned'"
    by (rule resolve_on_current [OF inv v lvl reason fp cur vcur cvars res])
      (use sets(2) fp'(1) in \<open>auto simp: falsified_pairs_def pair_ok_def\<close>)
  have below: "set cur' \<subseteq> set (take (Suc (i - 1)) (trail ctx))"
  proof
    fix u assume "u \<in> set cur'"
    then obtain p where p: "p \<in> set learned'" "snd p = u" "at_current_level P ctx u"
      by (auto simp: cur' current_vars_def)
    then have ne: "u \<noteq> ?v" and "p \<in> set learned \<or> p \<in> set (lits_of P ctx r)" using sets(2) by auto
    then have "u \<in> set (take i (trail ctx))"
    proof (elim disjE)
      assume "p \<in> set learned"
      then have u: "u \<in> set cur" using p unfolding cur current_vars_def by blast
      have "at_current_level P ctx w" if "w \<in> set cur" for w
        using that unfolding cur current_vars_def by blast
      then show ?thesis by (rule resolution_positions [OF inv i reason lvl pos _ i_eq t u ne])
    next
      assume "p \<in> set (lits_of P ctx r)"
      moreover have "p \<noteq> (l, ?v)" using p(2) ne by auto
      ultimately show ?thesis using others p(2) by blast
    qed
    then show "u \<in> set (take (Suc (i - 1)) (trail ctx))" using i0 by simp
  qed
  have "var_level P ctx (snd p) \<le> current_decision_level ctx"
    if "p \<in> set (lits_of P ctx r)" "snd p \<noteq> ?v" for p
  proof -
    have "p \<noteq> (l, ?v)" using that by auto
    then have "snd p \<in> set (trail ctx)" using others [OF that(1)] in_set_takeD by metis
    then show ?thesis by (rule trail_invD(4) [OF solver_invD(2) [OF inv]])
  qed
  then have bt': "level_witness P ctx learned' bt'"
    by (intro resolve_on_level [OF inv v lvl reason r fp bt _ res])
  have "cur' \<noteq> []" if d: "0 < current_decision_level ctx"
    using resolution_current_nonempty [OF inv r d l once lvl assigned others fp'(1) sets(3)] cur' by auto
  then show ?thesis using fp' cur' below bt' by (simp add: res resolution_inv_def)
qed

end
