(* ===== verification/Sat_Learning.thy ===== *)
theory Sat_Learning
  imports Sat_Conflict
begin

text \<open>
  What \<open>resolve_conflict\<close> returns, and learning: the learned clause is strictly sorted, falsified,
  entailed and asserting; it is not a clause of the database, and adding it keeps the invariant.
\<close>

section \<open>The resolution loop\<close>

lemma resolve_loop_inv:
  assumes inv: "solver_inv P F ctx"
  shows "t < length (trail ctx) \<Longrightarrow> resolution_inv P F ctx t (learned, cur, bt) \<Longrightarrow>
    \<exists>t' learned' cur' bt'. resolve_loop P ctx (learned, cur, bt) t = (learned', cur', bt') \<and>
      t' < length (trail ctx) \<and> resolution_inv P F ctx t' (learned', cur', bt') \<and>
      (length cur' \<le> 1 \<or> (\<forall>j. 0 < j \<and> j \<le> t' \<longrightarrow> \<not> is_antecedent P ctx cur' (trail ctx ! j)))"
proof (induction t arbitrary: learned cur bt rule: less_induct)
  case (less t)
  let ?i = "find_antecedent P ctx cur t"
  show ?case
  proof (cases "length cur > 1 \<and> ?i \<noteq> 0")
    case True
    obtain learned1 cur1 bt1 where
      step: "resolve_on P ctx (trail ctx ! ?i) (learned, cur, bt) = (learned1, cur1, bt1)"
      by (cases "resolve_on P ctx (trail ctx ! ?i) (learned, cur, bt)")
    have "?i - 1 < t" and "?i - 1 < length (trail ctx)"
      using find_antecedent_le [of P ctx cur t] True less.prems(1) by linarith+
    moreover have "resolution_inv P F ctx (?i - 1) (learned1, cur1, bt1)"
      using resolution_step [OF inv less.prems refl] True by (simp add: step)
    moreover have "resolve_loop P ctx (learned, cur, bt) t = resolve_loop P ctx (learned1, cur1, bt1) (?i - 1)"
      using True by (subst resolve_loop.simps) (simp add: step)
    ultimately show ?thesis using less.IH by simp
  next
    case False
    then have "resolve_loop P ctx (learned, cur, bt) t = (learned, cur, bt)"
      by (subst resolve_loop.simps) auto
    moreover have "length cur \<le> 1 \<or> (\<forall>j. 0 < j \<and> j \<le> t \<longrightarrow> \<not> is_antecedent P ctx cur (trail ctx ! j))"
      using False find_antecedent_skipped [of P ctx cur t] by auto
    ultimately show ?thesis using less.prems by blast
  qed
qed

text \<open>The first variable of the trail opened its level, unless it is of level 0.\<close>

lemma first_of_trail:
  assumes inv: "solver_inv P F ctx" and ne: "trail ctx \<noteq> []"
    and pos: "0 < var_level P ctx (trail ctx ! 0)"
  shows "var_reason P ctx (trail ctx ! 0) = None"
proof (rule ccontr)
  assume "var_reason P ctx (trail ctx ! 0) \<noteq> None"
  then obtain r where reason: "var_reason P ctx (trail ctx ! 0) = Some r" by auto
  have len: "0 < length (trail ctx)" using ne by simp
  obtain l where r: "r \<in> set (clause_ids P ctx)" and l: "(l, trail ctx ! 0) \<in> set (lits_of P ctx r)"
    "lit_satisfied P ctx (l, trail ctx ! 0)"
    and once: "filter (\<lambda>p. snd p = trail ctx ! 0) (lits_of P ctx r) = [(l, trail ctx ! 0)]"
    and others: "\<And>p. p \<in> set (lits_of P ctx r) \<Longrightarrow> p \<noteq> (l, trail ctx ! 0) \<Longrightarrow>
      snd p \<noteq> trail ctx ! 0 \<and> snd p \<in> set (take 0 (trail ctx)) \<and> lit_falsified P ctx p"
    by (rule reason_at [OF inv len reason]) (rule that)
  have all: "p = (l, trail ctx ! 0)" if "p \<in> set (lits_of P ctx r)" for p
    using others [OF that] by auto
  have lits: "lits_of P ctx r = [(l, trail ctx ! 0)]"
    using once all by (metis (mono_tags, lifting) filter_True snd_conv)
  have "var_level P ctx (trail ctx ! 0) \<le> current_decision_level ctx"
    using trail_invD(4) [OF solver_invD(2) [OF inv], of "trail ctx ! 0"] len by simp
  then have "closed_at P ctx 0 (lits_of P ctx r)"
    using solver_invD(3) [OF inv] pos r by (simp add: closed_below_def)
  then show False using pos by (auto simp: lits closed_at_def)
qed

lemma resolution_exit:
  assumes inv: "solver_inv P F ctx" and pos: "0 < current_decision_level ctx"
    and t: "t < length (trail ctx)" and ri: "resolution_inv P F ctx t (learned, cur, bt)"
    and out: "length cur \<le> 1 \<or> (\<forall>j. 0 < j \<and> j \<le> t \<longrightarrow> \<not> is_antecedent P ctx cur (trail ctx ! j))"
  shows "\<exists>u. current_vars P ctx learned = {u}"
  using out
proof
  assume "length cur \<le> 1"
  moreover have "cur \<noteq> []" and cur: "set cur = current_vars P ctx learned"
    using ri pos by (simp_all add: resolution_inv_def)
  ultimately obtain u where "cur = [u]" by (cases cur) auto
  then show ?thesis using cur by auto
next
  assume none: "\<forall>j. 0 < j \<and> j \<le> t \<longrightarrow> \<not> is_antecedent P ctx cur (trail ctx ! j)"
  have ne: "cur \<noteq> []" and cur: "set cur = current_vars P ctx learned"
    and pos_cur: "set cur \<subseteq> set (take (Suc t) (trail ctx))"
    using ri pos unfolding resolution_inv_def prod.case by blast+
  have lvl: "at_current_level P ctx u" if "u \<in> set cur" for u
    using that unfolding cur current_vars_def by blast
  have place: "\<exists>j\<le>t. u = trail ctx ! j \<and> var_reason P ctx u = None" if u: "u \<in> set cur" for u
  proof -
    obtain j where j: "j \<le> t" "u = trail ctx ! j"
      using pos_cur u by (auto simp: in_set_conv_nth less_Suc_eq_le subset_iff)
    have "var_reason P ctx u = None"
    proof (cases "j = 0")
      case True
      have "0 < var_level P ctx (trail ctx ! 0)"
        using lvl [OF u] pos j(2) True by (simp add: at_current_level_def)
      then show ?thesis using first_of_trail [OF inv] t j(2) True by fastforce
    next
      case False
      then have "\<not> is_antecedent P ctx cur u" using none j by simp
      then show ?thesis using u lvl [OF u]
        by (auto simp: is_antecedent_def is_decision_iff list_ex_iff)
    qed
    then show ?thesis using j by blast
  qed
  have same: "u = w" if u: "u \<in> set cur" and w: "w \<in> set cur" for u w
  proof -
    obtain i j where i: "i \<le> t" "u = trail ctx ! i" "var_reason P ctx u = None"
      and j: "j \<le> t" "w = trail ctx ! j" "var_reason P ctx w = None"
      using place [OF u] place [OF w] by blast
    have levels: "var_level P ctx u = var_level P ctx w"
      using lvl [OF u] lvl [OF w] by (simp add: at_current_level_def)
    have "\<not> i < j" "\<not> j < i"
      using decision_at [OF solver_invD(2) [OF inv], of j i] decision_at [OF solver_invD(2) [OF inv], of i j]
        i j t levels by auto
    then show ?thesis using i(2) j(2) by simp
  qed
  obtain u where "u \<in> set cur" using ne by (cases cur) auto
  then have "set cur = {u}" using same by blast
  then show ?thesis using cur by auto
qed

section \<open>The learned clause\<close>

definition learned_ok ::
    "('vs, 'cs) platform \<Rightarrow> literal list list \<Rightarrow> ('vs, 'cs) solver_context \<Rightarrow>
     conflict_resolution_result \<Rightarrow> bool" where
  "learned_ok P F ctx r \<longleftrightarrow>
     (let L = get_literals (learned_clause r) in
        falsified_pairs P ctx L \<and> entailed F L \<and>
        sorted_wrt (<) (map (\<lambda>p. lit_value (fst p)) L) \<and>
        level_witness P ctx L (backtrack_level r) \<and>
        (0 < current_decision_level ctx \<longrightarrow>
           length (filter (\<lambda>p. at_current_level P ctx (snd p)) L) = 1))"

lemma normalize_learned_set:
  assumes link: "linked P ctx" and fp: "falsified_pairs P ctx ps"
  shows "set (normalize_learned ps) = set ps"
proof
  let ?eq = "\<lambda>a b :: literal \<times> struct_id. lit_value (fst a) = lit_value (fst b)"
  let ?s = "sort_key (\<lambda>a. lit_value (fst a)) ps"
  show sub: "set (normalize_learned ps) \<subseteq> set ps"
    unfolding normalize_learned_def using unique_runs_subset [of ?eq ?s] by simp
  show "set ps \<subseteq> set (normalize_learned ps)"
  proof
    fix p assume p: "p \<in> set ps"
    have "(\<lambda>a. lit_value (fst a)) ` set (normalize_learned ps) = (\<lambda>a. lit_value (fst a)) ` set ps"
      unfolding normalize_learned_def
      using unique_runs_key [of ?eq "\<lambda>a. lit_value (fst a)" ?s] by simp
    then obtain q where q: "q \<in> set (normalize_learned ps)" "lit_value (fst p) = lit_value (fst q)"
      using p by (metis (no_types, lifting) imageE image_eqI)
    have "p = q"
      by (rule falsified_unique [OF link])
        (use fp p q sub in \<open>auto simp: falsified_pairs_def\<close>)
    with q show "p \<in> set (normalize_learned ps)" by simp
  qed
qed

lemma normalize_learned_sorted:
  "sorted_wrt (<) (map (\<lambda>p. lit_value (fst p)) (normalize_learned ps))"
  unfolding normalize_learned_def by (rule unique_runs_sorted) simp_all

lemma falsified_pairs_distinct:
  assumes link: "linked P ctx" and fp: "falsified_pairs P ctx L"
    and sorted: "sorted_wrt (<) (map (\<lambda>p. lit_value (fst p)) L)"
  shows "distinct (map snd L)"
proof -
  have "distinct (map (\<lambda>p. lit_value (fst p)) L)" using sorted by (simp add: strict_sorted_iff)
  moreover have "lit_value (fst p) = lit_value (var_lit P ctx (snd p))" if "p \<in> set L" for p
    using fp that by (simp add: falsified_pairs_def pair_ok_def)
  then have "map (\<lambda>p. lit_value (fst p)) L = map (\<lambda>v. lit_value (var_lit P ctx v)) (map snd L)" by simp
  ultimately show ?thesis by (metis distinct_map)
qed

lemma one_of_current_level:
  assumes dist: "distinct (map snd L)" and one: "current_vars P ctx L = {u}"
  shows "length (filter (\<lambda>p. at_current_level P ctx (snd p)) L) = 1"
proof -
  let ?f = "filter (\<lambda>p. at_current_level P ctx (snd p)) L"
  have "set (map snd ?f) = {u}" using one by (auto simp: current_vars_def)
  moreover have "distinct (map snd ?f)" using dist by (rule distinct_map_filter)
  ultimately have "length (map snd ?f) = 1"
    using distinct_card [of "map snd ?f"] by simp
  then show ?thesis by simp
qed

lemma conflict_start:
  assumes inv: "solver_inv P F ctx" and c: "all_falsified P ctx c"
  defines "cur \<equiv> map snd (filter (\<lambda>p. at_current_level P ctx (snd p)) (lits_of P ctx c))"
  shows "falsified_pairs P ctx (lits_of P ctx c)" and "cur \<noteq> [] \<Longrightarrow> trail ctx \<noteq> []"
    and "resolution_inv P F ctx (length (trail ctx) - 1) (lits_of P ctx c, cur, 0)"
proof -
  have cid: "c \<in> set (clause_ids P ctx)" using c by (simp add: all_falsified_def)
  show fp: "falsified_pairs P ctx (lits_of P ctx c)"
    using c solver_invD(1) [OF inv] unfolding all_falsified_def falsified_pairs_def linked_def by blast
  have cur: "set cur = current_vars P ctx (lits_of P ctx c)" by (auto simp: cur_def current_vars_def)
  have "set cur \<subseteq> set (trail ctx)"
    unfolding cur current_vars_def using falsified_level(1) [OF inv fp] by blast
  moreover from this show "cur \<noteq> [] \<Longrightarrow> trail ctx \<noteq> []" by auto
  moreover have "cur \<noteq> []" if pos: "0 < current_decision_level ctx"
  proof -
    have "2 \<le> length (filter (\<lambda>p. at_current_level P ctx (snd p)) (lits_of P ctx c))"
      by (rule two_of_current_level [OF inv cid pos])
        (use c falsified_assigned falsified_not_satisfied in \<open>unfold all_falsified_def, blast+\<close>)
    then show ?thesis by (auto simp: cur_def)
  qed
  ultimately show "resolution_inv P F ctx (length (trail ctx) - 1) (lits_of P ctx c, cur, 0)"
    using fp cur entailed_clause [OF solver_invD(4) [OF inv] cid]
    by (cases "trail ctx") (auto simp: resolution_inv_def level_witness_def)
qed

lemma resolve_conflict_learned:
  assumes inv: "solver_inv P F ctx" and c: "all_falsified P ctx c"
  shows "\<exists>r. resolve_conflict P ctx c = Inr r \<and> learned_ok P F ctx r"
proof -
  let ?cur = "map snd (filter (\<lambda>p. at_current_level P ctx (snd p)) (lits_of P ctx c))"
  let ?t = "length (trail ctx) - 1"
  note start = conflict_start [OF inv c] and link = solver_invD(1) [OF inv]
  obtain learned cur bt where
    loop: "resolve_loop P ctx (lits_of P ctx c, ?cur, 0) ?t = (learned, cur, bt)"
    and fp: "falsified_pairs P ctx learned" and ent: "entailed F learned"
    and wit: "level_witness P ctx learned bt"
    and one: "0 < current_decision_level ctx \<Longrightarrow> \<exists>u. current_vars P ctx learned = {u}"
  proof (cases "trail ctx = []")
    case True
    then have cur0: "?cur = []" using start(2) by blast
    have ret: "resolve_loop P ctx (lits_of P ctx c, ?cur, 0) ?t = (lits_of P ctx c, ?cur, 0)"
      unfolding cur0 by (subst resolve_loop.simps) simp
    have base: "\<not> 0 < current_decision_level ctx"
      using start(3) cur0 unfolding resolution_inv_def prod.case by blast
    have "falsified_pairs P ctx (lits_of P ctx c)" "entailed F (lits_of P ctx c)"
      "level_witness P ctx (lits_of P ctx c) 0"
      using start(3) unfolding resolution_inv_def prod.case by blast+
    from that [OF ret this] base show ?thesis by blast
  next
    case False
    then have "?t < length (trail ctx)" by (cases "trail ctx") auto
    from resolve_loop_inv [OF inv this start(3)] obtain t' learned cur bt where
      loop: "resolve_loop P ctx (lits_of P ctx c, ?cur, 0) ?t = (learned, cur, bt)"
      and t': "t' < length (trail ctx)" and ri: "resolution_inv P F ctx t' (learned, cur, bt)"
      and out: "length cur \<le> 1 \<or> (\<forall>j. 0 < j \<and> j \<le> t' \<longrightarrow> \<not> is_antecedent P ctx cur (trail ctx ! j))"
      by blast
    show ?thesis
      by (rule that [OF loop]) (use ri resolution_exit [OF inv _ t' ri out] in
        \<open>unfold resolution_inv_def prod.case, blast+\<close>)
  qed
  let ?L = "normalize_learned learned"
  have set: "set ?L = set learned" by (rule normalize_learned_set [OF link fp])
  have fpL: "falsified_pairs P ctx ?L" using fp by (simp add: falsified_pairs_def set)
  have cur: "current_vars P ctx ?L = current_vars P ctx learned" by (simp add: current_vars_def set)
  have "length (filter (\<lambda>p. at_current_level P ctx (snd p)) ?L) = 1" if "0 < current_decision_level ctx"
    using one [OF that] one_of_current_level [of ?L P ctx]
      falsified_pairs_distinct [OF link fpL normalize_learned_sorted] by (auto simp: cur)
  then have "learned_ok P F ctx \<lparr>learned_clause = clause_of_pairs ?L, backtrack_level = bt\<rparr>"
    using fpL ent wit normalize_learned_sorted
    by (simp add: learned_ok_def Let_def entailed_iff level_witness_def set)
  moreover have "resolve_conflict P ctx c = Inr \<lparr>learned_clause = clause_of_pairs ?L, backtrack_level = bt\<rparr>"
  proof -
    have "\<not> (length ?cur > 1 \<and> trail ctx = [])"
    proof
      assume "length ?cur > 1 \<and> trail ctx = []"
      then have "?cur \<noteq> []" "trail ctx = []" by (cases ?cur, auto)
      then show False using start(2) by blast
    qed
    then show ?thesis unfolding resolve_conflict_def Let_def loop by (simp only: if_False prod.case)
  qed
  ultimately show ?thesis by blast
qed

text \<open>At level 0 nothing is backtracked to, so the solver stops.\<close>

lemma learned_ok_level:
  assumes "learned_ok P F ctx r"
  shows "backtrack_level r \<le> current_decision_level ctx"
    and "0 < current_decision_level ctx \<Longrightarrow> backtrack_level r < current_decision_level ctx"
    and "0 < current_decision_level ctx \<Longrightarrow> get_literals (learned_clause r) \<noteq> []"
  using assms by (auto simp: learned_ok_def Let_def level_witness_def)

text \<open>The learned clause is new: a clause of the database has two literals of the current level.\<close>

lemma learned_new:
  assumes inv: "solver_inv P F ctx" and ok: "learned_ok P F ctx r" and pos: "0 < current_decision_level ctx"
    and c: "c \<in> set (clause_ids P ctx)"
  shows "map fst (lits_of P ctx c) \<noteq> map fst (get_literals (learned_clause r))"
proof
  let ?L = "get_literals (learned_clause r)"
  note link = solver_invD(1) [OF inv]
  have fp: "falsified_pairs P ctx ?L"
    and one: "length (filter (\<lambda>p. at_current_level P ctx (snd p)) ?L) = 1"
    using ok pos by (simp_all add: learned_ok_def Let_def)
  assume eq: "map fst (lits_of P ctx c) = map fst ?L"
  have len: "length (lits_of P ctx c) = length ?L" using eq by (metis length_map)
  have "lits_of P ctx c ! i = ?L ! i" if i: "i < length ?L" for i
  proof -
    have p: "pair_ok P ctx (lits_of P ctx c ! i)"
      using link c i len nth_mem [of i "lits_of P ctx c"] by (auto simp: linked_def)
    have q: "pair_ok P ctx (?L ! i)" using fp i nth_mem [of i ?L] by (simp add: falsified_pairs_def)
    have f: "fst (lits_of P ctx c ! i) = fst (?L ! i)"
      using eq i len by (metis nth_map)
    have "snd (lits_of P ctx c ! i) = snd (?L ! i)"
      using pair_ok_var_inj [OF link p, of "snd (?L ! i)"] q f by (simp add: pair_ok_def)
    with f show ?thesis by (simp add: prod_eq_iff)
  qed
  with len have L: "lits_of P ctx c = ?L" by (simp add: list_eq_iff_nth_eq)
  have "2 \<le> length (filter (\<lambda>p. at_current_level P ctx (snd p)) (lits_of P ctx c))"
    by (rule two_of_current_level [OF inv c pos])
      (use fp falsified_assigned falsified_not_satisfied in \<open>unfold L falsified_pairs_def, blast+\<close>)
  with one show False by (simp add: L)
qed

text \<open>Below the level it backtracks to, the learned clause has two unassigned literals.\<close>

lemma learned_closed_at:
  assumes ok: "learned_ok P F ctx r" and k: "k < backtrack_level r"
  shows "closed_at P ctx k (get_literals (learned_clause r))"
proof -
  let ?L = "get_literals (learned_clause r)" and ?d = "current_decision_level ctx"
  have pos: "0 < ?d" and lt: "backtrack_level r < ?d"
    using k learned_ok_level [OF ok] by auto
  obtain p where p: "p \<in> set ?L" "var_level P ctx (snd p) = backtrack_level r"
    using ok k by (auto simp: learned_ok_def Let_def level_witness_def)
  have "length (filter (\<lambda>p. at_current_level P ctx (snd p)) ?L) = 1"
    using ok pos by (simp add: learned_ok_def Let_def)
  then obtain q where "filter (\<lambda>p. at_current_level P ctx (snd p)) ?L = [q]"
    unfolding length_filter_eq_1 by blast
  then have q: "q \<in> set ?L" "at_current_level P ctx (snd q)"
    using filter_singletonD [of "\<lambda>p. at_current_level P ctx (snd p)" ?L q] by simp_all
  have "2 \<le> length (filter (\<lambda>p. var_val P ctx (snd p) = not_assigned \<or> k < var_level P ctx (snd p)) ?L)"
    by (rule two_in_filter [OF p(1) q(1)]) (use p q k lt in \<open>auto simp: at_current_level_def\<close>)
  then show ?thesis by (simp add: closed_at_def)
qed

context solver_platform begin

lemma learn_additional_clause_Inr:
  assumes "get_literals c \<noteq> []"
  shows "\<exists>w. learn_additional_clause P ctx c =
    Inr (ctx\<lparr>clauses_soa := fst (soa_insert (clauses_lib P) (clauses_soa ctx)
                \<lparr>soa_clause = c, soa_watcher = w, soa_clause_compiler_ctx = empty_metadata\<rparr>),
              stats := (stats ctx)\<lparr>learned_clause_count := learned_clause_count (stats ctx) + 1\<rparr>\<rparr>)"
proof -
  obtain w where w: "make_clause_watcher P (vars_soa ctx) c = Inr w"
    using make_clause_watcher_Inr_iff [of P "vars_soa ctx" c] assms by blast
  have "\<not> is_empty c" using assms by (simp add: is_empty_def get_literals_def)
  then show ?thesis using w by (intro exI [of _ w]) (simp add: learn_additional_clause_def)
qed

lemma learn_solver_inv_below:
  assumes inv: "solver_inv P F ctx" and ok: "learned_ok P F ctx r"
    and ne: "get_literals (learned_clause r) \<noteq> []"
  shows "\<exists>ctx'. learn_additional_clause P ctx (learned_clause r) = Inr ctx' \<and>
    solver_inv_below P F (backtrack_level r) ctx' \<and>
    (\<lambda>c. map fst (lits_of P ctx' c)) ` set (clause_ids P ctx') =
      insert (map fst (get_literals (learned_clause r)))
        ((\<lambda>c. map fst (lits_of P ctx c)) ` set (clause_ids P ctx)) \<and>
    vars_soa ctx' = vars_soa ctx \<and> config ctx' = config ctx \<and> trail ctx' = trail ctx \<and>
    conflict_count_since_last_restart ctx' = conflict_count_since_last_restart ctx \<and>
    current_decision_level ctx' = current_decision_level ctx \<and>
    conflicts (stats ctx') = conflicts (stats ctx) \<and> context_model ctx' = context_model ctx \<and>
    (\<forall>c\<in>set (clause_ids P ctx). c \<in> set (clause_ids P ctx') \<and> lits_of P ctx' c = lits_of P ctx c)"
proof -
  let ?L = "get_literals (learned_clause r)"
  obtain ctx' w where learn: "learn_additional_clause P ctx (learned_clause r) = Inr ctx'"
    and ctx': "ctx' = ctx\<lparr>clauses_soa := fst (soa_insert (clauses_lib P) (clauses_soa ctx)
                \<lparr>soa_clause = learned_clause r, soa_watcher = w, soa_clause_compiler_ctx = empty_metadata\<rparr>),
              stats := (stats ctx)\<lparr>learned_clause_count := learned_clause_count (stats ctx) + 1\<rparr>\<rparr>"
    using learn_additional_clause_Inr [OF ne] by blast
  obtain n where ids: "clause_ids P ctx' = clause_ids P ctx @ [n]" and new: "lits_of P ctx' n = ?L"
    and old: "\<And>c. c \<in> set (clause_ids P ctx) \<Longrightarrow> lits_of P ctx' c = lits_of P ctx c"
    by (simp add: ctx')
  have same: "vars_soa ctx' = vars_soa ctx" "config ctx' = config ctx" "trail ctx' = trail ctx"
    "conflict_count_since_last_restart ctx' = conflict_count_since_last_restart ctx"
    "current_decision_level ctx' = current_decision_level ctx"
    "conflicts (stats ctx') = conflicts (stats ctx)" "context_model ctx' = context_model ctx"
    by (simp_all add: ctx')
  note link = solver_invD(1) [OF inv]
  have fp: "falsified_pairs P ctx ?L" and ent: "entailed F ?L"
    using ok by (simp_all add: learned_ok_def Let_def)
  have ag: "agree_on P ctx ctx' v" for v by (simp add: agree_on_def same)
  have just: "justified P ctx' pre v" if "justified P ctx pre v" for pre v
    by (rule justified_agree [OF that ag]) (auto simp: ids old)
  have "linked P ctx'"
    using link fp by (auto simp: linked_def ids new old same pair_ok_def falsified_pairs_def)
  moreover have "trail_inv P ctx'"
    using solver_invD(2) [OF inv] just unfolding trail_inv_def same by simp
  moreover have "equivalent_db P F ctx'"
    using solver_invD(4) [OF inv] ent old by (auto simp: equivalent_db_def ids new entailed_def)
  moreover have "closed_at P ctx' k (lits_of P ctx' c)"
    if k: "k < backtrack_level r" and c: "c \<in> set (clause_ids P ctx')" for k c
  proof (cases "c \<in> set (clause_ids P ctx)")
    case True
    have "k < current_decision_level ctx" using k learned_ok_level(1) [OF ok] by simp
    then have "closed_at P ctx k (lits_of P ctx c)"
      using solver_invD(3) [OF inv] True by (simp add: closed_below_def)
    then show ?thesis unfolding old [OF True] by (rule closed_at_agree) (rule ag)
  next
    case False
    then have "c = n" using c by (simp add: ids)
    then show ?thesis using closed_at_agree [OF learned_closed_at [OF ok k] ag] by (simp add: new)
  qed
  ultimately have "solver_inv_below P F (backtrack_level r) ctx'" by (simp add: solver_inv_below_def)
  moreover have "(\<lambda>c. map fst (lits_of P ctx' c)) ` set (clause_ids P ctx') =
      insert (map fst ?L) ((\<lambda>c. map fst (lits_of P ctx c)) ` set (clause_ids P ctx))"
    by (simp add: ids new old cong: image_cong)
  moreover have "\<forall>c\<in>set (clause_ids P ctx). c \<in> set (clause_ids P ctx') \<and> lits_of P ctx' c = lits_of P ctx c"
    by (simp add: ids old)
  ultimately show ?thesis using learn same by blast
qed

end

end
