(* ===== verification/Sat_Activity.thy ===== *)
theory Sat_Activity
  imports Sat_Learning
begin

text \<open>
  The variable activities: \<open>update_vsids_activity\<close> changes activities only, which the solver
  invariant does not depend on; it fails with undefined behaviour or not at all; additions stay in
  64 bits because a large activity is scaled down first.
\<close>

section \<open>Loops over variables\<close>

definition sets_activity :: "(var_struct \<Rightarrow> var_struct fallible) \<Rightarrow> bool" where
  "sets_activity f \<longleftrightarrow>
     (\<forall>v. f v = Inl Undefined_Behaviour \<or> (\<exists>a. in_int64 a \<and> f v = Inr (with_activity a v)))"

lemma sets_activityD:
  assumes "sets_activity f" and "f v = Inr w"
  obtains a where "in_int64 a" and "w = with_activity a v"
  using assms unfolding sets_activity_def by (metis sum.distinct(1) sum.inject(2))

lemma sets_activity_add [simp]: "sets_activity (add_activity n)"
  by (auto simp: sets_activity_def add_activity_def Let_def)

lemma sets_activity_divide [simp]: "sets_activity (divide_activity p r)"
  by (auto simp: sets_activity_def divide_activity_def Let_def)

lemma with_activity_simps [simp]:
  "soa_literal (with_activity a v) = soa_literal v"
  "soa_assignment (with_activity a v) = soa_assignment v"
  "decision_level (soa_assignment_ctx (with_activity a v)) = decision_level (soa_assignment_ctx v)"
  "clause_propagation (soa_assignment_ctx (with_activity a v)) = clause_propagation (soa_assignment_ctx v)"
  "vsids_activity (soa_assignment_ctx (with_activity a v)) = a"
  "with_activity a (with_activity b v) = with_activity a v"
  by (simp_all add: with_activity_def)

definition activities_changed :: "('vs, 'cs) platform \<Rightarrow> 'vs \<Rightarrow> 'vs \<Rightarrow> bool" where
  "activities_changed P vs vs' \<longleftrightarrow>
     soa_ids (vars_lib P) vs' = soa_ids (vars_lib P) vs \<and>
     (\<forall>i\<in>set (soa_ids (vars_lib P) vs). \<exists>a.
        soa_at (vars_lib P) vs' i = with_activity a (soa_at (vars_lib P) vs i))"

lemma with_activity_same [simp]: "with_activity (vsids_activity (soa_assignment_ctx v)) v = v"
  by (simp add: with_activity_def)

lemma with_activity_ex [simp]: "\<exists>a. v = with_activity a v"
  by (rule exI) (rule with_activity_same [symmetric])

lemma activities_changed_refl [simp]: "activities_changed P vs vs"
  by (simp add: activities_changed_def)

lemma activities_changed_trans:
  "activities_changed P vs1 vs2 \<Longrightarrow> activities_changed P vs2 vs3 \<Longrightarrow> activities_changed P vs1 vs3"
  unfolding activities_changed_def by (metis with_activity_simps(6))

lemma update_activities_Inl:
  "sets_activity f \<Longrightarrow> update_activities P f is vs = Inl e \<Longrightarrow> e = Undefined_Behaviour"
proof (induction "is" arbitrary: vs)
  case (Cons i "is")
  consider "f (soa_at (vars_lib P) vs i) = Inl Undefined_Behaviour"
    | a where "f (soa_at (vars_lib P) vs i) = Inr (with_activity a (soa_at (vars_lib P) vs i))"
    using Cons.prems(1) by (auto simp: sets_activity_def)
  then show ?case using Cons by cases auto
qed simp

context solver_platform begin

lemma update_activities_changed:
  "sets_activity f \<Longrightarrow> set is \<subseteq> set (soa_ids (vars_lib P) vs) \<Longrightarrow> update_activities P f is vs = Inr vs' \<Longrightarrow>
   activities_changed P vs vs'"
proof (induction "is" arbitrary: vs)
  case (Cons i "is")
  have i: "i \<in> set (soa_ids (vars_lib P) vs)" using Cons.prems(2) by simp
  obtain v where v: "f (soa_at (vars_lib P) vs i) = Inr v"
    using Cons.prems(3) by (auto split: sum.splits)
  then obtain a where a: "v = with_activity a (soa_at (vars_lib P) vs i)"
    using sets_activityD [OF Cons.prems(1) v] by blast
  have "update_activities P f is (soa_set (vars_lib P) vs i v) = Inr vs'"
    using Cons.prems(3) v by simp
  then have rest: "activities_changed P (soa_set (vars_lib P) vs i v) vs'"
    using Cons i by simp
  have "activities_changed P vs (soa_set (vars_lib P) vs i v)"
    unfolding activities_changed_def
  proof (intro conjI ballI)
    fix j assume j: "j \<in> set (soa_ids (vars_lib P) vs)"
    show "\<exists>b. soa_at (vars_lib P) (soa_set (vars_lib P) vs i v) j = with_activity b (soa_at (vars_lib P) vs j)"
      using i j a by (cases "j = i") auto
  qed (simp add: i)
  then show ?case using rest by (rule activities_changed_trans)
qed simp

text \<open>Each variable of a list without repetitions is updated once.\<close>

lemma update_activities_at:
  "distinct is \<Longrightarrow> set is \<subseteq> set (soa_ids (vars_lib P) vs) \<Longrightarrow> j \<in> set (soa_ids (vars_lib P) vs) \<Longrightarrow>
   update_activities P f is vs = Inr vs' \<Longrightarrow>
   (if j \<in> set is then f (soa_at (vars_lib P) vs j) = Inr (soa_at (vars_lib P) vs' j)
    else soa_at (vars_lib P) vs' j = soa_at (vars_lib P) vs j)"
proof (induction "is" arbitrary: vs)
  case (Cons i "is")
  have i: "i \<in> set (soa_ids (vars_lib P) vs)" using Cons.prems(2) by simp
  obtain v where v: "f (soa_at (vars_lib P) vs i) = Inr v"
    using Cons.prems(4) by (auto split: sum.splits)
  then have "update_activities P f is (soa_set (vars_lib P) vs i v) = Inr vs'"
    using Cons.prems(4) by simp
  then have "if j \<in> set is then f (soa_at (vars_lib P) (soa_set (vars_lib P) vs i v) j) = Inr (soa_at (vars_lib P) vs' j)
      else soa_at (vars_lib P) vs' j = soa_at (vars_lib P) (soa_set (vars_lib P) vs i v) j"
    using Cons.prems i by (intro Cons.IH) simp_all
  then show ?case using Cons.prems(1,3) i v by (cases "j = i") auto
qed simp

lemma update_activities_Inr:
  "distinct is \<Longrightarrow> set is \<subseteq> set (soa_ids (vars_lib P) vs) \<Longrightarrow>
   \<forall>i\<in>set is. \<exists>v. f (soa_at (vars_lib P) vs i) = Inr v \<Longrightarrow> \<exists>vs'. update_activities P f is vs = Inr vs'"
proof (induction "is" arbitrary: vs)
  case (Cons i "is")
  have i: "i \<in> set (soa_ids (vars_lib P) vs)" using Cons.prems(2) by simp
  obtain v where v: "f (soa_at (vars_lib P) vs i) = Inr v" using Cons.prems(3) by auto
  have "\<exists>w. f (soa_at (vars_lib P) (soa_set (vars_lib P) vs i v) j) = Inr w" if "j \<in> set is" for j
    using that Cons.prems i by (cases "j = i") auto
  then show ?case using Cons i v by simp
qed simp

section \<open>The whole update\<close>

lemma update_vsids_activity_Inl:
  assumes "update_vsids_activity P ctx learned = Inl e"
  shows "e = Undefined_Behaviour"
  using assms
  by (auto simp: update_vsids_activity_def normalize_activities_def decay_activities_def Let_def
      split: sum.splits if_splits dest: update_activities_Inl [rotated])

lemma update_vsids_activity_changed:
  assumes upd: "update_vsids_activity P ctx learned = Inr ctx'"
    and vars: "snd ` set (get_literals learned) \<subseteq> set (var_ids P ctx)"
  shows "\<exists>vs. ctx' = ctx\<lparr>vars_soa := vs\<rparr> \<and> activities_changed P (vars_soa ctx) vs"
proof -
  obtain vs1 vs2 vs3 where norm: "normalize_activities P ctx learned = Inr vs1"
    and bump: "update_activities P (add_activity (vsids_increment (config ctx)))
      (map snd (get_literals learned)) vs1 = Inr vs2"
    and decay: "decay_activities P ctx vs2 = Inr vs3" and ctx': "ctx' = ctx\<lparr>vars_soa := vs3\<rparr>"
    using upd by (auto simp: update_vsids_activity_def split: sum.splits)
  have "activities_changed P (vars_soa ctx) vs1"
    using norm update_activities_changed [OF sets_activity_divide subset_refl, of _ _ "vars_soa ctx" vs1]
    by (auto simp: normalize_activities_def split: if_splits)
  moreover from this have "activities_changed P vs1 vs2"
    by (intro update_activities_changed [OF _ _ bump]) (use vars in \<open>auto simp: activities_changed_def\<close>)
  ultimately have "activities_changed P (vars_soa ctx) vs2" by (rule activities_changed_trans)
  moreover have "activities_changed P vs2 vs3"
  proof -
    have "vs3 = vs2 \<or> update_activities P (divide_activity 24 (vsids_decay_ratio (config ctx)))
        (soa_ids (vars_lib P) vs2) vs2 = Inr vs3"
      using decay unfolding decay_activities_def Let_def by (simp split: if_splits)
    then show ?thesis using update_activities_changed [OF sets_activity_divide subset_refl] by (elim disjE) auto
  qed
  ultimately have "activities_changed P (vars_soa ctx) vs3" by (rule activities_changed_trans)
  then show ?thesis using ctx' by (intro exI [of _ vs3] conjI)
qed

lemma activities_changed_same_state:
  assumes "activities_changed P (vars_soa ctx) vs"
  shows "same_state P ctx (ctx\<lparr>vars_soa := vs\<rparr>)"
  using assms by (fastforce simp: activities_changed_def same_state_def)

end

end
