(* ===== verification/Sat_Round.thy ===== *)
theory Sat_Round
  imports Sat_Activity "HOL-Library.FuncSet"
begin

text \<open>
  One round of \<open>solve_sat\<close>: it decides, learns a clause that was missing, finds a solution, shows
  the model unsatisfiable, or is stopped by an activity that leaves its 64 bits.
\<close>

section \<open>Learned clauses\<close>

text \<open>The clauses that can be learned are strictly sorted: over finitely many variables, finitely many.\<close>

definition canonical_clauses :: "int set \<Rightarrow> literal list set" where
  "canonical_clauses V =
     {c. sorted_wrt (<) (map lit_value c) \<and> (\<forall>l\<in>set c. raw_value l \<noteq> 0 \<and> lit_value l \<in> V)}"

definition db_clauses :: "('vs, 'cs) platform \<Rightarrow> ('vs, 'cs) solver_context \<Rightarrow> literal list set" where
  "db_clauses P ctx = (\<lambda>c. map fst (lits_of P ctx c)) ` set (clause_ids P ctx)"

definition var_values :: "('vs, 'cs) platform \<Rightarrow> ('vs, 'cs) solver_context \<Rightarrow> int list" where
  "var_values P ctx = map (\<lambda>v. lit_value (var_lit P ctx v)) (var_ids P ctx)"

definition missing_clauses :: "('vs, 'cs) platform \<Rightarrow> ('vs, 'cs) solver_context \<Rightarrow> literal list set" where
  "missing_clauses P ctx = canonical_clauses (set (var_values P ctx)) - db_clauses P ctx"

text \<open>The sign a clause gives a variable determines the clause.\<close>

definition sign_in :: "literal list \<Rightarrow> int \<Rightarrow> nat" where
  "sign_in c v = (if Literal v \<in> set c then 1 else if Literal (- v) \<in> set c then 2 else 0)"

lemma literal_cases: "l = Literal (lit_value l) \<or> l = Literal (- lit_value l)"
  by (cases l) (auto simp: lit_value_def)

lemma canonical_sign:
  assumes "c \<in> canonical_clauses V" and "v \<noteq> 0"
  shows "Literal v \<in> set c \<Longrightarrow> Literal (- v) \<notin> set c"
proof
  assume "Literal v \<in> set c" "Literal (- v) \<in> set c"
  moreover have "distinct (map lit_value c)"
    using assms(1) by (simp add: canonical_clauses_def strict_sorted_iff)
  ultimately have "Literal v = Literal (- v)"
    by (metis (no_types, lifting) abs_minus_cancel distinct_map inj_on_def lit_value_def literal.sel)
  with assms(2) show False by simp
qed

lemma canonical_members:
  assumes c: "c \<in> canonical_clauses V"
  shows "l \<in> set c \<longleftrightarrow> raw_value l \<noteq> 0 \<and> lit_value l \<in> V \<and> (if is_on l then sign_in c (lit_value l) = 1
    else sign_in c (lit_value l) = 2)"
proof -
  have on_off: "l = Literal (if is_on l then lit_value l else - lit_value l)"
    by (cases l) (auto simp: lit_value_def is_on_def)
  have nz: "lit_value l \<noteq> 0" if "raw_value l \<noteq> 0" using that by (simp add: lit_value_def)
  have "raw_value l \<noteq> 0 \<and> lit_value l \<in> V" if "l \<in> set c" using c that by (simp add: canonical_clauses_def)
  then show ?thesis
    using canonical_sign [OF c nz] on_off
    by (cases "is_on l") (auto simp: sign_in_def split: if_splits)
qed

lemma canonical_clauses_bound:
  assumes "finite V"
  shows "finite (canonical_clauses V)" and "card (canonical_clauses V) \<le> 3 ^ card V"
proof -
  let ?S = "PiE V (\<lambda>_. {0, 1, 2 :: nat})"
  let ?g = "\<lambda>c. restrict (sign_in c) V"
  have inj: "inj_on ?g (canonical_clauses V)"
  proof (rule inj_onI)
    fix c d assume c: "c \<in> canonical_clauses V" and d: "d \<in> canonical_clauses V" and eq: "?g c = ?g d"
    have "sign_in c v = sign_in d v" if "v \<in> V" for v using fun_cong [OF eq, of v] that by simp
    then have "set c = set d" using canonical_members [OF c] canonical_members [OF d] by auto
    then show "c = d" using c d strictly_sorted_unique by (auto simp: canonical_clauses_def)
  qed
  have sub: "?g ` canonical_clauses V \<subseteq> ?S" by (auto simp: sign_in_def split: if_splits)
  have fin: "finite ?S" using assms by (intro finite_PiE) auto
  have "card ?S = 3 ^ card V" using assms by (simp add: card_PiE numeral_3_eq_3)
  moreover have "card (canonical_clauses V) \<le> card ?S" by (rule card_inj_on_le [OF inj sub fin])
  ultimately show "card (canonical_clauses V) \<le> 3 ^ card V" by simp
  show "finite (canonical_clauses V)" by (rule inj_on_finite [OF inj sub fin])
qed

lemma learned_missing:
  assumes inv: "solver_inv P F ctx" and ok: "learned_ok P F ctx r" and pos: "0 < current_decision_level ctx"
  shows "map fst (get_literals (learned_clause r)) \<in> missing_clauses P ctx"
proof -
  let ?L = "get_literals (learned_clause r)"
  have sorted: "sorted_wrt (<) (map lit_value (map fst ?L))"
    using ok by (simp add: learned_ok_def Let_def comp_def)
  have "\<forall>p\<in>set ?L. pair_ok P ctx p"
    using ok unfolding learned_ok_def Let_def falsified_pairs_def by blast
  then have "\<forall>l\<in>set (map fst ?L). raw_value l \<noteq> 0 \<and> lit_value l \<in> set (var_values P ctx)"
    by (auto simp: pair_ok_def var_values_def)
  with sorted have "map fst ?L \<in> canonical_clauses (set (var_values P ctx))"
    by (simp only: canonical_clauses_def mem_Collect_eq)
  moreover have "map fst ?L \<notin> db_clauses P ctx"
    unfolding db_clauses_def using learned_new [OF inv ok pos] by fastforce
  ultimately show ?thesis by (simp add: missing_clauses_def)
qed

section \<open>What a round keeps\<close>

text \<open>The variables, their names and the model stay; so does the restart schedule but for a restart.\<close>

definition search_base ::
    "('vs, 'cs) platform \<Rightarrow> ('vs, 'cs) solver_context \<Rightarrow> ('vs, 'cs) solver_context \<Rightarrow> bool" where
  "search_base P ctx ctx' \<longleftrightarrow>
     var_ids P ctx' = var_ids P ctx \<and>
     (\<forall>v\<in>set (var_ids P ctx). var_lit P ctx' v = var_lit P ctx v) \<and>
     context_model ctx' = context_model ctx"

text \<open>What the activities depend on, when \<open>n\<close> conflicts were counted.\<close>

definition vsids_frame ::
    "('vs, 'cs) platform \<Rightarrow> nat \<Rightarrow> ('vs, 'cs) solver_context \<Rightarrow> ('vs, 'cs) solver_context \<Rightarrow> bool" where
  "vsids_frame P n ctx ctx' \<longleftrightarrow>
     var_ids P ctx' = var_ids P ctx \<and>
     (\<forall>v\<in>set (var_ids P ctx). var_activity P ctx' v = var_activity P ctx v) \<and>
     vsids_increment (config ctx') = vsids_increment (config ctx) \<and>
     decay_interval (config ctx') = decay_interval (config ctx) \<and>
     vsids_decay_ratio (config ctx') = vsids_decay_ratio (config ctx) \<and>
     conflicts (stats ctx') = conflicts (stats ctx) + n"

lemma vsids_frame_trans:
  "vsids_frame P 0 ctx1 ctx2 \<Longrightarrow> vsids_frame P n ctx2 ctx3 \<Longrightarrow> vsids_frame P n ctx1 ctx3"
  by (simp add: vsids_frame_def)

text \<open>The update of the activities after a conflict, with the clause it works on.\<close>

definition vsids_updated ::
    "('vs, 'cs) platform \<Rightarrow> ('vs, 'cs) solver_context \<Rightarrow> ('vs, 'cs) solver_context fallible \<Rightarrow> bool" where
  "vsids_updated P ctx out \<longleftrightarrow>
     (\<exists>ctx' L. vsids_frame P 1 ctx ctx' \<and> distinct (map snd (get_literals L)) \<and>
        snd ` set (get_literals L) \<subseteq> set (var_ids P ctx) \<and> update_vsids_activity P ctx' L = out)"

lemma vsids_updated_frame:
  "vsids_frame P 0 ctx1 ctx2 \<Longrightarrow> vsids_updated P ctx2 out \<Longrightarrow> vsids_updated P ctx1 out"
  unfolding vsids_updated_def by (metis vsids_frame_def vsids_frame_trans)

lemma search_base_refl [simp]: "search_base P ctx ctx"
  by (simp add: search_base_def)

lemma search_base_trans:
  "search_base P ctx1 ctx2 \<Longrightarrow> search_base P ctx2 ctx3 \<Longrightarrow> search_base P ctx1 ctx3"
  by (simp add: search_base_def)

lemma search_base_values: "search_base P ctx ctx' \<Longrightarrow> var_values P ctx' = var_values P ctx"
  by (simp add: search_base_def var_values_def)

lemma search_frame_base: "search_frame P ctx ctx' \<Longrightarrow> search_base P ctx ctx'"
  by (simp add: search_frame_def search_base_def)

lemma backtracked_base: "backtracked P level ctx ctx' \<Longrightarrow> search_base P ctx ctx'"
  by (simp add: backtracked_def search_base_def)

lemma activities_base: "activities_changed P (vars_soa ctx) vs \<Longrightarrow> search_base P ctx (ctx\<lparr>vars_soa := vs\<rparr>)"
  by (fastforce simp: activities_changed_def search_base_def)

context solver_platform begin

lemma restart_if_needed_frame:
  assumes inv: "solver_inv P F ctx"
  shows "search_base P ctx (restart_if_needed P ctx)"
    and "clauses_soa (restart_if_needed P ctx) = clauses_soa ctx"
    and "vsids_frame P 0 ctx (restart_if_needed P ctx)"
proof -
  let ?ctx1 = "ctx\<lparr>conflict_count_since_last_restart := 0,
      stats := (stats ctx)\<lparr>restarts := restarts (stats ctx) + 1\<rparr>\<rparr>"
  have "solver_inv P F ?ctx1" by (rule solver_inv_same_state [OF inv]) (simp add: same_state_def)
  note b = backtrack_backtracked(1) [OF solver_invD(2) [OF this], of 0]
  from b show "search_base P ctx (restart_if_needed P ctx)"
    and "clauses_soa (restart_if_needed P ctx) = clauses_soa ctx"
    and "vsids_frame P 0 ctx (restart_if_needed P ctx)"
    by (auto simp: restart_if_needed_def Let_def search_base_def backtracked_def vsids_frame_def)
qed

section \<open>A round with a conflict\<close>

lemma handle_conflict_cases:
  assumes inv: "solver_inv P F ctx" and c: "all_falsified P ctx c"
  obtains (learned) ctx' where "handle_conflict P ctx c = Inl ctx'" "solver_inv P F ctx'"
      "search_base P ctx ctx'" "config ctx' = config ctx"
      "missing_clauses P ctx' \<subset> missing_clauses P ctx"
      "conflict_count_since_last_restart ctx' = conflict_count_since_last_restart ctx + 1"
      "vsids_updated P ctx (Inr ctx')"
      "\<exists>r. learned_ok P F (count_conflict ctx) r \<and> cut_to P (backtrack_level r) ctx ctx' \<and>
         0 < current_decision_level ctx \<and>
         db_clauses P ctx' = insert (map fst (get_literals (learned_clause r))) (db_clauses P ctx)"
  | (unsat) ctx' where "handle_conflict P ctx c = Inr (Inr (Inl unsatisfiable), ctx')"
      "current_decision_level ctx = 0" "solver_inv P F ctx'" "search_base P ctx ctx'"
  | (fault) ctx' where "handle_conflict P ctx c = Inr (Inl Undefined_Behaviour, ctx')"
      "0 < current_decision_level ctx" "vsids_updated P ctx (Inl Undefined_Behaviour)"
      "missing_clauses P ctx \<noteq> {}"
proof -
  let ?ctx1 = "count_conflict ctx"
  have same: "same_state P ctx ?ctx1" by (simp add: same_state_def count_conflict_def)
  have inv1: "solver_inv P F ?ctx1" by (rule solver_inv_same_state [OF inv same])
  have c1: "all_falsified P ?ctx1 c"
    using c by (simp add: all_falsified_def count_conflict_def lit_falsified_def)
  obtain r where res: "resolve_conflict P ?ctx1 c = Inr r" and ok: "learned_ok P F ?ctx1 r"
    using resolve_conflict_learned [OF inv1 c1] by blast
  have lvl: "current_decision_level ?ctx1 = current_decision_level ctx" by (simp add: count_conflict_def)
  show thesis
  proof (cases "current_decision_level ctx = 0")
    case True
    then have "handle_conflict P ctx c = Inr (Inr (Inl unsatisfiable), ?ctx1)"
      using res learned_ok_level(1) [OF ok] by (simp add: handle_conflict_def Let_def lvl)
    then show ?thesis
      by (rule unsat) (use True inv1 in \<open>simp_all add: search_base_def count_conflict_def\<close>)
  next
    case False
    then have pos: "0 < current_decision_level ?ctx1" by (simp add: lvl)
    have miss1: "missing_clauses P ?ctx1 = missing_clauses P ctx"
      by (simp add: missing_clauses_def db_clauses_def count_conflict_def var_values_def)
    note new = learned_missing [OF inv1 ok pos, unfolded miss1]
    have ne: "get_literals (learned_clause r) \<noteq> []" by (rule learned_ok_level(3) [OF ok pos])
    obtain ctx2 where learn: "learn_additional_clause P ?ctx1 (learned_clause r) = Inr ctx2"
      and below: "solver_inv_below P F (backtrack_level r) ctx2"
      and db: "db_clauses P ctx2 = insert (map fst (get_literals (learned_clause r))) (db_clauses P ?ctx1)"
      and vars2: "vars_soa ctx2 = vars_soa ?ctx1" and conf2: "config ctx2 = config ?ctx1"
      and cnt2: "conflict_count_since_last_restart ctx2 = conflict_count_since_last_restart ?ctx1"
      and model2: "context_model ctx2 = context_model ?ctx1"
      and conflicts2: "conflicts (stats ctx2) = conflicts (stats ?ctx1)"
      and trail2: "trail ctx2 = trail ?ctx1"
      and old2: "\<forall>c\<in>set (clause_ids P ?ctx1). c \<in> set (clause_ids P ctx2) \<and> lits_of P ctx2 c = lits_of P ?ctx1 c"
      using learn_solver_inv_below [OF inv1 ok ne] unfolding db_clauses_def by blast
    define ctx3 where "ctx3 = backtrack P ctx2 (backtrack_level r)"
    have inv3: "solver_inv P F ctx3" unfolding ctx3_def by (rule backtrack_solver_inv_below [OF below])
    have b: "backtracked P (backtrack_level r) ctx2 ctx3"
      unfolding ctx3_def by (rule backtrack_backtracked) (use below in \<open>simp add: solver_inv_below_def\<close>)
    have ids2: "set (trail ctx2) \<subseteq> set (var_ids P ctx2)"
      using trail_invD(2) [of P ctx2] below by (auto simp: solver_inv_below_def)
    have "cut_to P (backtrack_level r) ctx2 ctx3"
      by (rule backtracked_cut_to [OF b _ ids2]) (simp add: ctx3_def backtrack_def)
    then have cut3: "cut_to P (backtrack_level r) ctx ctx3"
      by (rule cut_to_before) (use vars2 trail2 old2 in \<open>simp_all add: count_conflict_def\<close>)
    have base12: "search_base P ctx ctx2"
      by (simp add: search_base_def vars2 model2 count_conflict_def)
    have base3: "search_base P ctx ctx3"
      by (rule search_base_trans [OF base12 backtracked_base [OF b]])
    have Lvars: "snd ` set (get_literals (learned_clause r)) \<subseteq> set (var_ids P ctx)"
      using ok by (auto simp: learned_ok_def Let_def falsified_pairs_def pair_ok_def count_conflict_def)
    have "vsids_frame P 1 ctx ctx3"
      using b backtracked_var(3) [OF b] vars2 conf2 conflicts2
      by (simp add: vsids_frame_def backtracked_def count_conflict_def)
    moreover have "distinct (map snd (get_literals (learned_clause r)))"
      using ok falsified_pairs_distinct [OF solver_invD(1) [OF inv1]] by (simp add: learned_ok_def Let_def)
    ultimately have upd: "vsids_updated P ctx (update_vsids_activity P ctx3 (learned_clause r))"
      using Lvars unfolding vsids_updated_def by blast
    have round: "handle_conflict P ctx c =
        (case update_vsids_activity P ctx3 (learned_clause r) of
           Inl e \<Rightarrow> Inr (Inl e, ctx3) | Inr ctx4 \<Rightarrow> Inl ctx4)"
      using False ne by (simp add: handle_conflict_def Let_def res learn lvl is_empty_def get_literals_def
          ctx3_def [symmetric])
    show ?thesis
    proof (cases "update_vsids_activity P ctx3 (learned_clause r)")
      case (Inl e)
      then show ?thesis using update_vsids_activity_Inl [OF Inl] False round upd new by (intro fault) auto
    next
      case (Inr ctx4)
      obtain vs where ctx4: "ctx4 = ctx3\<lparr>vars_soa := vs\<rparr>"
        and act: "activities_changed P (vars_soa ctx3) vs"
        using update_vsids_activity_changed [OF Inr] Lvars base3 by (auto simp: search_base_def)
      have base: "search_base P ctx ctx4"
        unfolding ctx4 by (rule search_base_trans [OF base3 activities_base [OF act]])
      have "missing_clauses P ctx4 = missing_clauses P ?ctx1 - {map fst (get_literals (learned_clause r))}"
        using search_base_values [OF base] db b
        by (auto simp: missing_clauses_def db_clauses_def ctx4 backtracked_def count_conflict_def var_values_def)
      then have less: "missing_clauses P ctx4 \<subset> missing_clauses P ctx" using new miss1 by auto
      have same4: "same_state P ctx3 ctx4"
        unfolding ctx4 by (rule activities_changed_same_state [OF act])
      have "cut_to P (backtrack_level r) ctx ctx4"
        by (rule cut_to_after [OF cut3 same4]) (use trail_invD(2) [OF solver_invD(2) [OF inv3]] in auto)
      moreover have "db_clauses P ctx4 = insert (map fst (get_literals (learned_clause r))) (db_clauses P ctx)"
        using db b by (simp add: db_clauses_def ctx4 backtracked_def count_conflict_def)
      ultimately have cut4: "\<exists>r. learned_ok P F (count_conflict ctx) r \<and> cut_to P (backtrack_level r) ctx ctx4 \<and>
         0 < current_decision_level ctx \<and>
         db_clauses P ctx4 = insert (map fst (get_literals (learned_clause r))) (db_clauses P ctx)"
        using ok False by blast
      have "solver_inv P F ctx4"
        unfolding ctx4 by (rule solver_inv_same_state [OF inv3 activities_changed_same_state [OF act]])
      then show ?thesis
        using base less b conf2 cnt2 upd Inr cut4
        by (intro learned [of ctx4]) (simp_all add: round ctx4 backtracked_def count_conflict_def)
    qed
  qed
qed

end

end
