(* ===== verification/Sat_Correct.thy ===== *)
theory Sat_Correct
  imports Sat_Round
begin

text \<open>
  The solver is correct: a result of \<open>solve_sat\<close> is a solution of the model or shows that there is
  none; with a restart schedule that does not wrap to 0 too early, the solver returns.
\<close>

section \<open>Unsatisfiability at level 0\<close>

text \<open>Without decisions every assigned variable is implied by the model.\<close>

lemma level_0_implied:
  assumes inv: "solver_inv P F ctx" and zero: "current_decision_level ctx = 0" and \<sigma>: "cnf_holds \<sigma> F"
  shows "i < length (trail ctx) \<Longrightarrow> pair_ok P ctx p \<Longrightarrow> snd p = trail ctx ! i \<Longrightarrow>
    lit_falsified P ctx p \<Longrightarrow> \<not> lit_holds \<sigma> (fst p)"
proof (induction i arbitrary: p rule: less_induct)
  case (less i)
  note link = solver_invD(1) [OF inv] and tr = solver_invD(2) [OF inv]
  let ?v = "trail ctx ! i"
  have "var_level P ctx ?v = 0"
    using trail_invD(4) [OF tr, of ?v] less.prems(1) zero by simp
  then have "var_reason P ctx ?v \<noteq> None"
    using justified_at [OF tr less.prems(1)] by (cases "var_reason P ctx ?v") (simp_all add: justified_def)
  then obtain r where reason: "var_reason P ctx ?v = Some r" by auto
  obtain l where r: "r \<in> set (clause_ids P ctx)" and l: "(l, ?v) \<in> set (lits_of P ctx r)"
    and sat: "lit_satisfied P ctx (l, ?v)"
    and "filter (\<lambda>p. snd p = ?v) (lits_of P ctx r) = [(l, ?v)]"
    and others: "\<And>p. p \<in> set (lits_of P ctx r) \<Longrightarrow> p \<noteq> (l, ?v) \<Longrightarrow>
      snd p \<noteq> ?v \<and> snd p \<in> set (take i (trail ctx)) \<and> lit_falsified P ctx p"
    by (rule reason_at [OF inv less.prems(1) reason]) (rule that)
  have ok: "pair_ok P ctx q" if "q \<in> set (lits_of P ctx r)" for q
    using link r that by (simp add: linked_def)
  obtain q where q: "q \<in> set (lits_of P ctx r)" "lit_holds \<sigma> (fst q)"
    using entailed_clause [OF solver_invD(4) [OF inv] r] \<sigma> unfolding entailed_iff by blast
  have "q = (l, ?v)"
  proof (rule ccontr)
    assume ne: "q \<noteq> (l, ?v)"
    then obtain j where j: "j < i" "snd q = trail ctx ! j"
      using others [OF q(1) ne] less.prems(1) by (auto simp: in_set_conv_nth)
    then have "\<not> lit_holds \<sigma> (fst q)"
      using less.IH [OF j(1) _ ok [OF q(1)] j(2)] others [OF q(1) ne] less.prems(1) by simp
    with q(2) show False by contradiction
  qed
  then have "lit_holds \<sigma> l" using q(2) by simp
  moreover have "lit_value (fst p) = lit_value l"
    using less.prems(2,3) ok [OF l] by (simp add: pair_ok_def)
  moreover have "lit_falsified P ctx (fst p, ?v)" using less.prems(3,4) by (cases p) simp
  ultimately show ?case using complementary [OF _ sat] by blast
qed

lemma conflict_at_level_0:
  assumes inv: "solver_inv P F ctx" and zero: "current_decision_level ctx = 0"
    and c: "all_falsified P ctx c"
  shows "\<not> cnf_satisfiable F"
proof
  assume "cnf_satisfiable F"
  then obtain \<sigma> where \<sigma>: "cnf_holds \<sigma> F" by (auto simp: cnf_satisfiable_def)
  have cid: "c \<in> set (clause_ids P ctx)" using c by (simp add: all_falsified_def)
  obtain p where p: "p \<in> set (lits_of P ctx c)" "lit_holds \<sigma> (fst p)"
    using entailed_clause [OF solver_invD(4) [OF inv] cid] \<sigma> unfolding entailed_iff by blast
  note fp = conflict_start(1) [OF inv c]
  obtain i where i: "i < length (trail ctx)" "snd p = trail ctx ! i"
    using falsified_level(1) [OF inv fp p(1)] by (auto simp: in_set_conv_nth)
  have "pair_ok P ctx p" and "lit_falsified P ctx p" using fp p(1) by (simp_all add: falsified_pairs_def)
  then have "\<not> lit_holds \<sigma> (fst p)" using level_0_implied [OF inv zero \<sigma> i(1) _ i(2)] by blast
  with p(2) show False by contradiction
qed

section \<open>A round without a conflict\<close>

definition solves ::
    "('vs, 'cs) platform \<Rightarrow> literal list list \<Rightarrow> ('vs, 'cs) solver_context \<Rightarrow> literal list \<Rightarrow> bool" where
  "solves P F ctx ls \<longleftrightarrow>
     map lit_value ls = var_values P ctx \<and> (\<forall>c\<in>set F. \<exists>l\<in>set c. l \<in> set ls)"

text \<open>The context a solution was found in; \<open>r0\<close> is the one the round started its propagation from.\<close>

definition solution_found ::
    "('vs, 'cs) platform \<Rightarrow> ('vs, 'cs) solver_context \<Rightarrow> ('vs, 'cs) solver_context \<Rightarrow> solver_result \<Rightarrow> bool" where
  "solution_found P r0 ctx r \<longleftrightarrow>
     unassigned_vars P ctx = [] \<and>
     (\<forall>c\<in>set (clause_ids P ctx). is_clause_satisfied P ctx (soa_clause (clause_at P ctx c))) \<and>
     r = \<lparr>result_literals = extract_solution P ctx\<rparr> \<and> extract_solution P ctx \<noteq> [] \<and>
     config ctx = config r0 \<and>
     conflict_count_since_last_restart ctx = conflict_count_since_last_restart r0"

lemma extract_solution_solves:
  assumes inv: "solver_inv P F ctx"
    and sat: "\<forall>c\<in>set (clause_ids P ctx). is_clause_satisfied P ctx (soa_clause (clause_at P ctx c))"
  shows "solves P F ctx (extract_solution P ctx)"
  unfolding solves_def
proof (intro conjI ballI)
  show "map lit_value (extract_solution P ctx) = var_values P ctx"
    by (simp add: extract_solution_def var_values_def lit_value_def)
  fix cl assume "cl \<in> set F"
  then obtain c where c: "c \<in> set (clause_ids P ctx)" "map fst (lits_of P ctx c) = cl"
    using solver_invD(4) [OF inv] by (auto simp: equivalent_db_def)
  then obtain p where p: "p \<in> set (lits_of P ctx c)" "lit_satisfied P ctx p"
    using sat by (auto simp: is_clause_satisfied_def list_ex_iff)
  then have ok: "pair_ok P ctx p" using solver_invD(1) [OF inv] c by (simp add: linked_def)
  let ?v = "snd p"
  have "fst p = Literal (if var_val P ctx ?v = on then lit_value (var_lit P ctx ?v)
      else - lit_value (var_lit P ctx ?v))"
    using ok p(2) by (cases "fst p") (auto simp: solver_defs is_on_def is_off_def lit_value_def)
  moreover have "?v \<in> set (var_ids P ctx)" using ok by (simp add: pair_ok_def)
  ultimately have "fst p \<in> set (extract_solution P ctx)"
    unfolding extract_solution_def set_map by (rule image_eqI)
  then show "\<exists>l\<in>set cl. l \<in> set (extract_solution P ctx)" using c(2) p(1) by force
qed

context solver_platform begin

lemma decide_or_finish_cases:
  assumes inv: "solver_inv P F ctx" and settled: "\<forall>c\<in>set (clause_ids P ctx). settled P ctx c"
  obtains (decided) ctx' where "decide_or_finish P ctx = Inl ctx'" "solver_inv P F ctx'"
      "search_frame P ctx ctx'" "length (unassigned_vars P ctx) = Suc (length (unassigned_vars P ctx'))"
      "conflicts (stats ctx') = conflicts (stats ctx)"
  | (solved) r where "decide_or_finish P ctx = Inr (Inr (Inr r), ctx)" "solves P F ctx (result_literals r)"
      "solution_found P ctx ctx r"
  | (no_variables) "decide_or_finish P ctx = Inl ctx" "var_ids P ctx = []"
proof (cases rule: make_decision_cases [of P ctx])
  case none
  have sat: "is_clause_satisfied P ctx (soa_clause (clause_at P ctx c))"
    if c: "c \<in> set (clause_ids P ctx)" for c
  proof -
    have "var_val P ctx (snd p) \<noteq> not_assigned" if "p \<in> set (lits_of P ctx c)" for p
      using none(1) linked_var [OF solver_invD(1) [OF inv] c that]
      by (auto simp: unassigned_vars_def filter_empty_conv)
    then have "unassigned_pairs P ctx c = []"
      by (auto simp: unassigned_pairs_def filter_empty_conv)
    then show ?thesis using settled c by (auto simp: settled_def)
  qed
  show thesis
  proof (cases "extract_solution P ctx = []")
    case True
    then show ?thesis
      using none(2) by (intro no_variables) (simp_all add: decide_or_finish_def extract_solution_def)
  next
    case False
    let ?r = "\<lparr>result_literals = extract_solution P ctx\<rparr>"
    have "decide_or_finish P ctx = Inr (Inr (Inr ?r), ctx)"
      using none(2) False sat by (simp add: decide_or_finish_def list_all_iff)
    moreover have "solves P F ctx (result_literals ?r)"
      using extract_solution_solves [OF inv] sat by simp
    moreover have "solution_found P ctx ctx ?r"
      using none(1) sat False by (simp add: solution_found_def)
    ultimately show ?thesis by (rule solved)
  qed
next
  case (decided v)
  note D = decision_solver_inv [OF inv settled decided(2)]
  show thesis
    by (rule that(1) [OF _ D(1,3,2)])
      (simp_all add: decide_or_finish_def decided(1) assign_decision_def Let_def set_var_def)
qed

end

section \<open>The loop\<close>

definition search_inv :: "('vs, 'cs) platform \<Rightarrow> model \<Rightarrow> ('vs, 'cs) solver_context \<Rightarrow> bool" where
  "search_inv P m ctx \<longleftrightarrow>
     solver_platform P \<and> solver_inv P (clauses m) ctx \<and>
     var_values P ctx = map lit_value (literals m)"

definition outcome_correct ::
    "('vs, 'cs) platform \<Rightarrow> model \<Rightarrow> ('vs, 'cs) solve_outcome \<Rightarrow> bool" where
  "outcome_correct P m out \<longleftrightarrow>
     (case fst out of
        Inl e \<Rightarrow> e = Undefined_Behaviour
      | Inr (Inl error) \<Rightarrow> error = unsatisfiable \<and> \<not> cnf_satisfiable (clauses m) \<and> search_inv P m (snd out)
      | Inr (Inr r) \<Rightarrow> is_solution m (result_literals r) \<and> search_inv P m (snd out))"

lemma search_inv_base:
  "search_inv P m ctx \<Longrightarrow> search_base P ctx ctx' \<Longrightarrow> solver_inv P (clauses m) ctx' \<Longrightarrow> search_inv P m ctx'"
  by (simp add: search_inv_def search_base_values)

lemma missing_base:
  "search_base P ctx ctx' \<Longrightarrow> clauses_soa ctx' = clauses_soa ctx \<Longrightarrow>
   missing_clauses P ctx' = missing_clauses P ctx"
  by (simp add: missing_clauses_def search_base_values db_clauses_def)

text \<open>A round, from the context \<open>r0\<close> that a restart may have left.\<close>

lemma solve_round_cases:
  assumes inv: "search_inv P m ctx"
  defines "r0 \<equiv> restart_if_needed P ctx"
  obtains (decided) ctx' where "solve_round P ctx = Some (Inl ctx')" "search_inv P m ctx'"
      "missing_clauses P ctx' = missing_clauses P ctx" "config ctx' = config r0"
      "conflict_count_since_last_restart ctx' = conflict_count_since_last_restart r0"
      "length (unassigned_vars P ctx') < length (unassigned_vars P r0)" "vsids_frame P 0 ctx ctx'"
  | (learned) ctx' where "solve_round P ctx = Some (Inl ctx')" "search_inv P m ctx'"
      "missing_clauses P ctx' \<subset> missing_clauses P ctx" "config ctx' = config r0"
      "conflict_count_since_last_restart ctx' = conflict_count_since_last_restart r0 + 1"
      "vsids_updated P ctx (Inr ctx')"
  | (finished) out where "solve_round P ctx = Some (Inr out)" "outcome_correct P m out" "fst out \<noteq> Inl Undefined_Behaviour"
      "\<And>r. fst out = Inr (Inr r) \<Longrightarrow> solution_found P r0 (snd out) r"
  | (no_variables) ctx' where "solve_round P ctx = Some (Inl ctx')" "search_inv P m ctx'" "literals m = []"
  | (fault) ctx' where "solve_round P ctx = Some (Inr (Inl Undefined_Behaviour, ctx'))"
      "vsids_updated P ctx (Inl Undefined_Behaviour)" "missing_clauses P ctx \<noteq> {}"
proof -
  have plat: "solver_platform P" and sinv: "solver_inv P (clauses m) ctx"
    and vals: "var_values P ctx = map lit_value (literals m)"
    using inv by (simp_all add: search_inv_def)
  note frame0 = solver_platform.restart_if_needed_frame [OF plat sinv, folded r0_def]
  have inv0: "solver_inv P (clauses m) r0"
    unfolding r0_def by (rule solver_platform.restart_solver_inv [OF plat sinv])
  obtain conflict ctx1 where propagated: "unit_propagation P r0 = Some (conflict, ctx1)"
    and don: "propagation_done P (clauses m) r0 (conflict, ctx1)"
    using unit_propagation_done [OF plat inv0] by (metis prod.exhaust)
  have inv1: "solver_inv P (clauses m) ctx1" and frame1: "search_frame P r0 ctx1"
    and un1: "length (unassigned_vars P ctx1) \<le> length (unassigned_vars P r0)"
    using don by (simp_all add: propagation_done_def propagation_from_def)
  have base1: "search_base P ctx ctx1"
    by (rule search_base_trans [OF frame0(1) search_frame_base [OF frame1]])
  have miss1: "missing_clauses P ctx1 = missing_clauses P ctx"
    by (rule missing_base [OF base1]) (use frame0(2) frame1 in \<open>simp add: search_frame_def\<close>)
  have vsids1: "vsids_frame P 0 ctx ctx1"
    by (rule vsids_frame_trans [OF frame0(3)])
      (use don frame1 in \<open>simp add: vsids_frame_def propagation_done_def propagation_from_def search_frame_def\<close>)
  have cnt1: "config ctx1 = config r0"
    "conflict_count_since_last_restart ctx1 = conflict_count_since_last_restart r0"
    using frame1 by (simp_all add: search_frame_def)
  show thesis
  proof (cases conflict)
    case None
    then have settled: "\<forall>c\<in>set (clause_ids P ctx1). settled P ctx1 c"
      using don by (simp add: propagation_done_def)
    have round: "solve_round P ctx = Some (decide_or_finish P ctx1)"
      by (simp add: solve_round_def r0_def [symmetric] propagated None)
    show ?thesis
    proof (cases rule: solver_platform.decide_or_finish_cases [OF plat inv1 settled])
      case (1 ctx')
      have base: "search_base P ctx1 ctx'" by (rule search_frame_base [OF 1(3)])
      show ?thesis
      proof (rule decided [of ctx'])
        show "search_inv P m ctx'" by (rule search_inv_base [OF inv search_base_trans [OF base1 base] 1(2)])
        show "missing_clauses P ctx' = missing_clauses P ctx"
          using missing_base [OF base] 1(3) miss1 by (simp add: search_frame_def)
        have "vsids_frame P 0 ctx1 ctx'" using 1(3,5) by (simp add: vsids_frame_def search_frame_def)
        then show "vsids_frame P 0 ctx ctx'" by (rule vsids_frame_trans [OF vsids1])
      qed (use 1 un1 cnt1 round in \<open>simp_all add: search_frame_def\<close>)
    next
      case (2 r)
      have "is_solution m (result_literals r)"
        using 2(2) search_base_values [OF base1] vals by (simp add: solves_def is_solution_def)
      then show ?thesis
        by (intro finished [of "(Inr (Inr r), ctx1)"])
          (use 2(3) cnt1 in \<open>simp_all add: round 2(1) outcome_correct_def solution_found_def
            search_inv_base [OF inv base1 inv1]\<close>)
    next
      case 3
      have "literals m = []" using vals search_base_values [OF base1] 3(2) by (simp add: var_values_def)
      then show ?thesis
        by (intro no_variables [of ctx1]) (simp_all add: round 3(1) search_inv_base [OF inv base1 inv1])
    qed
  next
    case (Some c)
    then have c: "all_falsified P ctx1 c" using don by (simp add: propagation_done_def)
    have round: "solve_round P ctx = Some (handle_conflict P ctx1 c)"
      by (simp add: solve_round_def r0_def [symmetric] propagated Some)
    show ?thesis
    proof (cases rule: solver_platform.handle_conflict_cases [OF plat inv1 c])
      case (1 ctx')
      show ?thesis
      proof (rule learned [of ctx'])
        show "search_inv P m ctx'" by (rule search_inv_base [OF inv search_base_trans [OF base1 1(3)] 1(2)])
        show "vsids_updated P ctx (Inr ctx')" by (rule vsids_updated_frame [OF vsids1 1(7)])
      qed (use 1 cnt1 miss1 round in simp_all)
    next
      case (2 ctx')
      have "search_inv P m ctx'" by (rule search_inv_base [OF inv search_base_trans [OF base1 2(4)] 2(3)])
      then show ?thesis
        using conflict_at_level_0 [OF inv1 2(2) c]
        by (intro finished [of "(Inr (Inl unsatisfiable), ctx')"]) (simp_all add: round 2(1) outcome_correct_def)
    next
      case (3 ctx')
      show ?thesis
        by (rule fault [of ctx']) (use 3(4) miss1 in \<open>simp_all add: round 3(1) vsids_updated_frame [OF vsids1 3(3)]\<close>)
    qed
  qed
qed

interpretation search: loop_partial "solve_round P" "search_inv P m" "outcome_correct P m" for P m
proof unfold_locales
  fix ctx ctx' assume inv: "search_inv P m ctx" and round: "solve_round P ctx = Some (Inl ctx')"
  show "search_inv P m ctx'"
    by (cases rule: solve_round_cases [OF inv]) (use round in simp_all)
next
  fix ctx out assume inv: "search_inv P m ctx" and round: "solve_round P ctx = Some (Inr out)"
  show "outcome_correct P m out"
    by (cases rule: solve_round_cases [OF inv]) (use round in \<open>auto simp: outcome_correct_def\<close>)
qed

section \<open>Solving again\<close>

text \<open>From a context that holds a solution, and that no restart is due for, the same solution is found again.\<close>

lemma propagate_pass_satisfied:
  "\<forall>c\<in>set cs. is_clause_satisfied P ctx (soa_clause (clause_at P ctx c)) \<Longrightarrow>
   propagate_pass P cs None ctx = (0, None, ctx)"
  by (induction cs) (auto simp: propagate_def)

lemma solve_round_again:
  assumes found: "solution_found P r0 ctx r"
    and room: "conflict_count_since_last_restart ctx < unat (restart_threshold (config ctx))"
  shows "solve_round P ctx = Some (Inr (Inr (Inr r), ctx))"
proof -
  have sat: "\<forall>c\<in>set (clause_ids P ctx). is_clause_satisfied P ctx (soa_clause (clause_at P ctx c))"
    using found by (simp add: solution_found_def)
  have "restart_if_needed P ctx = ctx" using room by (simp add: restart_if_needed_def)
  moreover have "unit_propagation P ctx = Some (None, ctx)"
    by (simp add: unit_propagation_def loop_until_Inr propagation_round_def propagate_pass_satisfied [OF sat])
  moreover have "decide_or_finish P ctx = Inr (Inr (Inr r), ctx)"
    using found by (simp add: solution_found_def decide_or_finish_def make_decision_def list_all_iff)
  ultimately show ?thesis by (simp add: solve_round_def)
qed

lemma solve_sat_again:
  assumes "solution_found P r0 ctx r"
    and "conflict_count_since_last_restart ctx < unat (restart_threshold (config ctx))"
  shows "solve_sat P ctx = Some (Inr (Inr r), ctx)"
  unfolding solve_sat_def by (rule loop_until_Inr) (rule solve_round_again [OF assms])

lemma solve_times_again:
  assumes "solution_found P r0 ctx r"
    and "conflict_count_since_last_restart ctx < unat (restart_threshold (config ctx))"
  shows "solve_times P n res ctx = Some (Inr (res @ replicate n r), ctx)"
  by (induction n arbitrary: res) (simp_all add: solve_sat_again [OF assms])

end
