(* ===== verification/Sat_Termination.thy ===== *)
theory Sat_Termination
  imports Sat_Correct
begin

text \<open>
  \<open>solve_sat\<close> returns. Every conflict learns a clause that was missing, of which there are finitely
  many; between conflicts decisions use up the unassigned variables; a restart uses up the conflicts
  counted since the last one, provided the threshold is not 0. The threshold is multiplied in 32
  bits at every restart, so this is a hypothesis on the schedule: it does not reach 0 before the
  conflicts that can happen are used up. A model without variables makes the loop run forever.
\<close>

section \<open>The restart schedule\<close>

definition threshold_after :: "configuration \<Rightarrow> nat \<Rightarrow> 32 word" where
  "threshold_after cf k = restart_threshold cf * restart_multiplier cf ^ k"

definition conflicts_before :: "configuration \<Rightarrow> nat \<Rightarrow> nat" where
  "conflicts_before cf k = (\<Sum>j<k. unat (threshold_after cf j))"

definition restart_schedule_ok :: "configuration \<Rightarrow> nat \<Rightarrow> bool" where
  "restart_schedule_ok cf budget \<longleftrightarrow>
     (\<forall>k. conflicts_before cf k \<le> budget \<longrightarrow> threshold_after cf k \<noteq> 0)"

lemma conflicts_before_mono: "i \<le> k \<Longrightarrow> conflicts_before cf i \<le> conflicts_before cf k"
  unfolding conflicts_before_def by (rule sum_mono2) auto

text \<open>It is enough to look at the first \<open>n\<close> restarts when these exhaust the budget.\<close>

lemma restart_schedule_prefix:
  assumes "\<And>k. k < n \<Longrightarrow> threshold_after cf k \<noteq> 0" and "budget < conflicts_before cf n"
  shows "restart_schedule_ok cf budget"
  unfolding restart_schedule_ok_def
proof (intro allI impI)
  fix k assume "conflicts_before cf k \<le> budget"
  then have "\<not> n \<le> k" using conflicts_before_mono [of n k cf] assms(2) by auto
  then show "threshold_after cf k \<noteq> 0" using assms(1) by simp
qed

text \<open>An odd multiplier never takes a threshold to 0.\<close>

lemma odd_times_nonzero:
  fixes a b :: "32 word"
  assumes "odd b" and "a * b = 0"
  shows "a = 0"
proof -
  have "unat (a * b) = unat a * unat b mod 2 ^ 32" by (simp add: unat_word_ariths)
  then have "(unat a * unat b) mod 2 ^ 32 = 0" by (simp add: assms(2))
  then have dvd: "2 ^ 32 dvd unat a * unat b" by presburger
  moreover have "odd (unat b)" using assms(1) by (simp add: bit_unsigned_iff flip: bit_0)
  then have "coprime (2 ^ 32 :: nat) (unat b)"
    by (simp only: coprime_power_left_iff coprime_left_2_iff_odd simp_thms)
  ultimately have "2 ^ 32 dvd unat a" by (simp add: coprime_dvd_mult_left_iff)
  moreover have "unat a < 2 ^ 32" using unsigned_less [of a] by simp
  ultimately have "unat a = 0" by (metis dvd_imp_le neq0_conv not_le)
  then show ?thesis by (simp only: unsigned_eq_0_iff)
qed

lemma odd_multiplier_schedule:
  assumes "odd (restart_multiplier cf)" and "restart_threshold cf \<noteq> 0"
  shows "restart_schedule_ok cf budget"
proof -
  have "threshold_after cf k \<noteq> 0" for k
  proof (induction k)
    case (Suc k)
    then show ?case
      using odd_times_nonzero [OF assms(1), of "threshold_after cf k"]
      by (auto simp: threshold_after_def ac_simps)
  qed (simp add: threshold_after_def assms(2))
  then show ?thesis by (simp add: restart_schedule_ok_def)
qed

text \<open>How far along the schedule a context is, and the conflicts it may still spend.\<close>

definition budget_inv ::
    "('vs, 'cs) platform \<Rightarrow> configuration \<Rightarrow> nat \<Rightarrow> ('vs, 'cs) solver_context \<Rightarrow> bool" where
  "budget_inv P cf budget ctx \<longleftrightarrow>
     restart_multiplier (config ctx) = restart_multiplier cf \<and>
     (\<exists>k. restart_threshold (config ctx) = threshold_after cf k \<and>
        conflicts_before cf k + conflict_count_since_last_restart ctx + card (missing_clauses P ctx) \<le> budget)"

lemma budget_threshold:
  assumes "restart_schedule_ok cf budget" and "budget_inv P cf budget ctx"
  shows "restart_threshold (config ctx) \<noteq> 0"
  using assms by (fastforce simp: restart_schedule_ok_def budget_inv_def)

lemma budget_restart:
  assumes b: "budget_inv P cf budget ctx" and m: "missing_clauses P (restart_if_needed P ctx) = missing_clauses P ctx"
  shows "budget_inv P cf budget (restart_if_needed P ctx)"
proof (cases "unat (restart_threshold (config ctx)) \<le> conflict_count_since_last_restart ctx")
  case True
  obtain k where mult: "restart_multiplier (config ctx) = restart_multiplier cf"
    and k: "restart_threshold (config ctx) = threshold_after cf k"
      "conflicts_before cf k + conflict_count_since_last_restart ctx + card (missing_clauses P ctx) \<le> budget"
    using b by (auto simp: budget_inv_def)
  have backtrack_fields: "config (backtrack P ctx1 0) = config ctx1 \<and>
      conflict_count_since_last_restart (backtrack P ctx1 0) = conflict_count_since_last_restart ctx1" for ctx1
    by (rule backtrack_config)
  let ?r = "restart_if_needed P ctx"
  have r: "restart_multiplier (config ?r) = restart_multiplier cf"
    "restart_threshold (config ?r) = threshold_after cf (Suc k)"
    "conflict_count_since_last_restart ?r = 0"
    using True mult k(1)
    by (simp_all add: restart_if_needed_def Let_def backtrack_fields threshold_after_def ac_simps)
  have "conflicts_before cf (Suc k) \<le> conflicts_before cf k + conflict_count_since_last_restart ctx"
    using True k(1) by (simp add: conflicts_before_def)
  then show ?thesis
    using r k(2) m by (auto simp: budget_inv_def intro!: exI [of _ "Suc k"])
qed (use b in \<open>simp add: restart_if_needed_def\<close>)

section \<open>The solver returns\<close>

definition solving ::
    "('vs, 'cs) platform \<Rightarrow> model \<Rightarrow> configuration \<Rightarrow> nat \<Rightarrow> ('vs, 'cs) solver_context \<Rightarrow> bool" where
  "solving P m cf budget ctx \<longleftrightarrow>
     search_inv P m ctx \<and> literals m \<noteq> [] \<and> restart_schedule_ok cf budget \<and> budget_inv P cf budget ctx"

definition solve_measure ::
    "('vs, 'cs) platform \<Rightarrow> (('vs, 'cs) solver_context \<times> ('vs, 'cs) solver_context) set" where
  "solve_measure P = inv_image (less_than <*lex*> less_than <*lex*> less_than)
     (\<lambda>ctx. (card (missing_clauses P ctx), conflict_count_since_last_restart ctx,
        length (unassigned_vars P ctx)))"

lemma finite_missing: "finite (missing_clauses P ctx)"
  unfolding missing_clauses_def using canonical_clauses_bound(1) by blast

lemma card_missing_le: "card (missing_clauses P ctx) \<le> 3 ^ length (var_ids P ctx)"
proof -
  have "card (missing_clauses P ctx) \<le> card (canonical_clauses (set (var_values P ctx)))"
    unfolding missing_clauses_def by (rule card_mono) (auto intro: canonical_clauses_bound)
  also have "\<dots> \<le> 3 ^ card (set (var_values P ctx))" by (rule canonical_clauses_bound) simp
  also have "\<dots> \<le> 3 ^ length (var_ids P ctx)"
    using card_length [of "var_values P ctx"] by (intro power_increasing) (simp_all add: var_values_def)
  finally show ?thesis .
qed

text \<open>A restart lowers the count of conflicts; without one nothing changes.\<close>

lemma restart_progress:
  assumes "restart_threshold (config ctx) \<noteq> 0"
  shows "restart_if_needed P ctx = ctx \<or>
    conflict_count_since_last_restart (restart_if_needed P ctx) < conflict_count_since_last_restart ctx"
proof (cases "unat (restart_threshold (config ctx)) \<le> conflict_count_since_last_restart ctx")
  case True
  moreover have "0 < unat (restart_threshold (config ctx))" using assms by (simp add: unat_gt_0)
  moreover have "conflict_count_since_last_restart (restart_if_needed P ctx) = 0"
    using True by (simp add: restart_if_needed_def Let_def backtrack_config)
  ultimately show ?thesis by simp
qed (simp add: restart_if_needed_def)

lemma solving_round:
  assumes s: "solving P m cf budget ctx"
  shows "\<exists>out. solve_round P ctx = Some out"
    and "solve_round P ctx = Some (Inl ctx') \<Longrightarrow> solving P m cf budget ctx' \<and> (ctx', ctx) \<in> solve_measure P"
proof -
  let ?r = "restart_if_needed P ctx"
  have inv: "search_inv P m ctx" and lits: "literals m \<noteq> []"
    and sched: "restart_schedule_ok cf budget" and b: "budget_inv P cf budget ctx"
    using s by (simp_all add: solving_def)
  have plat: "solver_platform P" and sinv: "solver_inv P (clauses m) ctx"
    using inv by (simp_all add: search_inv_def)
  note frame = solver_platform.restart_if_needed_frame [OF plat sinv]
  have miss_r: "missing_clauses P ?r = missing_clauses P ctx" by (rule missing_base [OF frame(1,2)])
  have b_r: "budget_inv P cf budget ?r" by (rule budget_restart [OF b miss_r])
  note progress = restart_progress [OF budget_threshold [OF sched b], of P]
  show "\<exists>out. solve_round P ctx = Some out"
    by (cases rule: solve_round_cases [OF inv]) auto
  assume round: "solve_round P ctx = Some (Inl ctx')"
  show "solving P m cf budget ctx' \<and> (ctx', ctx) \<in> solve_measure P"
  proof (cases rule: solve_round_cases [OF inv])
    case (1 c)
    then have c: "c = ctx'" using round by simp
    have "budget_inv P cf budget ctx'" using b_r 1(3-5) miss_r by (simp add: budget_inv_def c)
    moreover have "(ctx', ctx) \<in> solve_measure P"
      using progress 1(3,5,6) by (auto simp: solve_measure_def c)
    ultimately show ?thesis using 1(2) lits sched by (simp add: solving_def c)
  next
    case (2 c)
    then have c: "c = ctx'" using round by simp
    have less: "card (missing_clauses P ctx') < card (missing_clauses P ctx)"
      using psubset_card_mono [OF finite_missing 2(3)] by (simp add: c)
    have "budget_inv P cf budget ctx'"
      using b_r 2(4,5) less unfolding budget_inv_def c miss_r by fastforce
    moreover have "(ctx', ctx) \<in> solve_measure P" using less by (simp add: solve_measure_def)
    ultimately show ?thesis using 2(2) lits sched by (simp add: solving_def c)
  next
    case (4 c)
    then show ?thesis using lits by simp
  qed (use round in simp_all)
qed

interpretation solving: loop_total "solve_round P" "solving P m cf budget" "outcome_correct P m"
    "solve_measure P" for P m cf budget
proof unfold_locales
  fix ctx ctx' assume "solving P m cf budget ctx" and "solve_round P ctx = Some (Inl ctx')"
  then show "solving P m cf budget ctx'" and "(ctx', ctx) \<in> solve_measure P"
    using solving_round(2) by blast+
next
  fix ctx out assume "solving P m cf budget ctx" and "solve_round P ctx = Some (Inr out)"
  then show "outcome_correct P m out" using search.round_post unfolding solving_def by blast
next
  fix ctx assume "solving P m cf budget ctx"
  then show "\<exists>out. solve_round P ctx = Some out" by (rule solving_round(1))
next
  show "wf (solve_measure P)" by (simp add: solve_measure_def wf_inv_image wf_lex_prod)
qed

text \<open>When the solver returns a solution, no restart is due.\<close>

definition solution_kept ::
    "('vs, 'cs) platform \<Rightarrow> ('vs, 'cs) solve_outcome \<Rightarrow> bool" where
  "solution_kept P out \<longleftrightarrow>
     (\<forall>r. fst out = Inr (Inr r) \<longrightarrow>
        (\<exists>r0. solution_found P r0 (snd out) r) \<and>
        conflict_count_since_last_restart (snd out) < unat (restart_threshold (config (snd out))))"

lemma restart_room:
  assumes "restart_threshold (config (restart_if_needed P ctx)) \<noteq> 0"
  shows "conflict_count_since_last_restart (restart_if_needed P ctx)
    < unat (restart_threshold (config (restart_if_needed P ctx)))"
proof (cases "unat (restart_threshold (config ctx)) \<le> conflict_count_since_last_restart ctx")
  case True
  then have "conflict_count_since_last_restart (restart_if_needed P ctx) = 0"
    by (simp add: restart_if_needed_def Let_def backtrack_config)
  then show ?thesis using assms by (simp add: unat_gt_0)
qed (simp add: restart_if_needed_def)

lemma solving_round_kept:
  assumes s: "solving P m cf budget ctx" and round: "solve_round P ctx = Some (Inr out)"
  shows "solution_kept P out"
proof -
  have inv: "search_inv P m ctx" and sched: "restart_schedule_ok cf budget" and b: "budget_inv P cf budget ctx"
    using s by (simp_all add: solving_def)
  have plat: "solver_platform P" and sinv: "solver_inv P (clauses m) ctx"
    using inv by (simp_all add: search_inv_def)
  note frame = solver_platform.restart_if_needed_frame [OF plat sinv]
  have "restart_threshold (config (restart_if_needed P ctx)) \<noteq> 0"
    by (rule budget_threshold [OF sched budget_restart [OF b missing_base [OF frame(1,2)]]])
  note room = restart_room [OF this]
  show ?thesis
  proof (cases rule: solve_round_cases [OF inv])
    case (3 out')
    then show ?thesis using round room by (auto simp: solution_kept_def solution_found_def)
  qed (use round in \<open>simp_all add: solution_kept_def\<close>)
qed

interpretation kept: loop_partial "solve_round P" "solving P m cf budget" "solution_kept P" for P m cf budget
  by unfold_locales (use solving_round(2) solving_round_kept in blast)+

section \<open>The loop that does not return\<close>

text \<open>Without literals a solution is empty, which the loop takes for no solution.\<close>

definition idle :: "('vs, 'cs) platform \<Rightarrow> ('vs, 'cs) solver_context \<Rightarrow> bool" where
  "idle P ctx \<longleftrightarrow> var_ids P ctx = [] \<and> clause_ids P ctx = [] \<and> trail ctx = []"

lemma idle_round: "idle P ctx \<Longrightarrow> \<exists>ctx'. solve_round P ctx = Some (Inl ctx') \<and> idle P ctx'"
proof -
  assume idle: "idle P ctx"
  have "idle P (restart_if_needed P ctx)"
    using idle by (simp add: idle_def restart_if_needed_def backtrack_def Let_def backtrack_loop.simps)
  then have "unit_propagation P (restart_if_needed P ctx) = Some (None, restart_if_needed P ctx)"
    by (simp add: unit_propagation_def loop_until_Inr propagation_round_def idle_def)
  moreover have "decide_or_finish P ctx0 = Inl ctx0" if "idle P ctx0" for ctx0
    using that by (simp add: decide_or_finish_def make_decision_def unassigned_vars_def
        extract_solution_def idle_def)
  ultimately show ?thesis
    using \<open>idle P (restart_if_needed P ctx)\<close> by (simp add: solve_round_def)
qed

interpretation idling: loop_diverging "solve_round P" "idle P" for P
  by unfold_locales (use idle_round in blast)

text \<open>
  With a threshold of 0 every round starts with a restart, which undoes the decision of the round
  before; without clauses nothing else is assigned.
\<close>

definition restarting :: "('vs, 'cs) platform \<Rightarrow> ('vs, 'cs) solver_context \<Rightarrow> bool" where
  "restarting P ctx \<longleftrightarrow>
     solver_platform P \<and> solver_inv P [] ctx \<and> clause_ids P ctx = [] \<and>
     restart_threshold (config ctx) = 0 \<and> var_ids P ctx \<noteq> []"

lemma level_0_without_clauses:
  assumes inv: "solver_inv P F ctx" and none: "clause_ids P ctx = []" and zero: "current_decision_level ctx = 0"
  shows "unassigned_vars P ctx = var_ids P ctx"
proof -
  note tr = solver_invD(2) [OF inv]
  have "trail ctx = []"
  proof (rule ccontr)
    assume "trail ctx \<noteq> []"
    then obtain v vs where split: "trail ctx = [] @ v # vs" by (cases "trail ctx") auto
    then have "justified P ctx [] v" by (rule trail_invD(6) [OF tr])
    moreover have "var_level P ctx v = 0" using trail_invD(4) [OF tr, of v] split zero by simp
    ultimately show False by (cases "var_reason P ctx v") (simp_all add: justified_def none)
  qed
  then have "\<forall>v\<in>set (var_ids P ctx). var_val P ctx v = not_assigned"
    using trail_invD(2) [OF tr] by auto
  then show ?thesis by (simp add: unassigned_vars_def)
qed

lemma restarting_round: "restarting P ctx \<Longrightarrow> \<exists>ctx'. solve_round P ctx = Some (Inl ctx') \<and> restarting P ctx'"
proof -
  assume r: "restarting P ctx"
  let ?r = "restart_if_needed P ctx"
  have plat: "solver_platform P" and inv: "solver_inv P [] ctx" and none: "clause_ids P ctx = []"
    and thr: "restart_threshold (config ctx) = 0" and vars: "var_ids P ctx \<noteq> []"
    using r by (simp_all add: restarting_def)
  note frame = solver_platform.restart_if_needed_frame [OF plat inv]
  have inv_r: "solver_inv P [] ?r" by (rule solver_platform.restart_solver_inv [OF plat inv])
  have none_r: "clause_ids P ?r = []" using frame(2) none by simp
  have thr_r: "restart_threshold (config ?r) = 0"
    using thr by (simp add: restart_if_needed_def Let_def backtrack_config)
  have zero: "current_decision_level ?r = 0"
    using thr by (simp add: restart_if_needed_def Let_def backtrack_def)
  have ids: "var_ids P ?r = var_ids P ctx" using frame(1) by (simp add: search_base_def)
  have prop0: "unit_propagation P ?r = Some (None, ?r)"
    by (simp add: unit_propagation_def loop_until_Inr propagation_round_def none_r)
  have settled: "\<forall>c\<in>set (clause_ids P ?r). settled P ?r c" by (simp add: none_r)
  have un: "unassigned_vars P ?r \<noteq> []"
    using level_0_without_clauses [OF inv_r none_r zero] vars ids by simp
  show ?thesis
  proof (cases rule: make_decision_cases [of P ?r])
    case none
    then show ?thesis using un by simp
  next
    case (decided v)
    note D = solver_platform.decision_solver_inv [OF plat inv_r settled decided(2)]
    have "solve_round P ctx = Some (Inl (assign_decision P ?r v))"
      by (simp add: solve_round_def prop0 decide_or_finish_def decided(1))
    moreover have "restarting P (assign_decision P ?r v)"
      using plat D(1,3) none_r thr_r vars ids by (simp add: restarting_def search_frame_def)
    ultimately show ?thesis by blast
  qed
qed

interpretation restarting: loop_diverging "solve_round P" "restarting P" for P
  by unfold_locales (use restarting_round in blast)

end
