(* ===== verification/Sat_Constructor.thy ===== *)
theory Sat_Constructor
  imports Sat_Termination
begin

text \<open>
  The \<open>solver_context\<close> constructor: it creates one unassigned variable per literal of the model and
  one clause per clause, counts the occurrences of a variable as its first activity, and
  establishes the invariant of the search; the first clause that is empty or has a literal that was not
  declared decides the error.
\<close>

lemma fresh_var_simps [simp]:
  "soa_literal (fresh_var l) = l" "soa_assignment (fresh_var l) = not_assigned"
  "soa_assignment_ctx (fresh_var l) = empty_assignment_context"
  by (simp_all add: fresh_var_def)

lemma empty_assignment_context_simps [simp]:
  "vsids_activity empty_assignment_context = 0" "decision_level empty_assignment_context = 0"
  "clause_propagation empty_assignment_context = None"
  by (simp_all add: empty_assignment_context_def)

lemma bump_activity_with: "bump_activity n v = with_activity (vsids_activity (soa_assignment_ctx v) + n) v"
  by (simp add: bump_activity_def with_activity_def)

abbreviation at_var :: "('vs, 'cs) platform \<Rightarrow> 'vs \<Rightarrow> struct_id \<Rightarrow> var_struct" where
  "at_var P vs i \<equiv> soa_at (vars_lib P) vs i"

abbreviation ids_var :: "('vs, 'cs) platform \<Rightarrow> 'vs \<Rightarrow> struct_id list" where
  "ids_var P vs \<equiv> soa_ids (vars_lib P) vs"

abbreviation activity_of :: "('vs, 'cs) platform \<Rightarrow> 'vs \<Rightarrow> struct_id \<Rightarrow> int" where
  "activity_of P vs i \<equiv> vsids_activity (soa_assignment_ctx (at_var P vs i))"

text \<open>How often the literals of a clause name a variable.\<close>

definition occurrences :: "('vs, 'cs) platform \<Rightarrow> 'vs \<Rightarrow> literal list \<Rightarrow> struct_id \<Rightarrow> int" where
  "occurrences P vs ls i = int (length (filter (\<lambda>l. find_var P vs l = Some i) ls))"

lemma find_var_SomeD:
  "find_var P vs l = Some i \<Longrightarrow> i \<in> set (ids_var P vs) \<and> lit_value (soa_literal (at_var P vs i)) = lit_value l"
  unfolding find_var_def by (drule find_SomeD) (simp add: lit_eq_iff)

lemma find_first: "\<forall>b\<in>set before. \<not> p b \<Longrightarrow> p c \<Longrightarrow> find p (before @ c # after) = Some c"
  by (induction before) simp_all

lemma find_cong_on: "(\<And>x. x \<in> set xs \<Longrightarrow> p x = q x) \<Longrightarrow> find p xs = find q xs"
  by (induction xs) auto

lemma find_var_changed:
  assumes "activities_changed P vs vs'"
  shows "find_var P vs' = find_var P vs"
proof
  fix l
  have "find (\<lambda>i. lit_eq (soa_literal (at_var P vs' i)) l) (ids_var P vs) =
      find (\<lambda>i. lit_eq (soa_literal (at_var P vs i)) l) (ids_var P vs)"
    using assms by (intro find_cong_on) (fastforce simp: activities_changed_def)
  then show "find_var P vs' l = find_var P vs l"
    using assms by (simp add: find_var_def activities_changed_def)
qed

text \<open>
  The clauses the constructor does not take, when \<open>known\<close> says which literals were declared, and what
  becomes of the first of them.
\<close>

definition clause_refused :: "bool \<Rightarrow> (literal \<Rightarrow> bool) \<Rightarrow> literal list \<Rightarrow> bool" where
  "clause_refused nd known c \<longleftrightarrow> (c = [] \<and> \<not> nd) \<or> \<not> list_all known c"

definition clause_fault :: "bool \<Rightarrow> literal list \<Rightarrow> fault" where
  "clause_fault nd c =
     (if nd then Undefined_Behaviour
      else Fabko_Thrown \<lparr>ec = \<lparr>ec_value = 42, ec_category = Fbk_Category\<rparr>,
             what = (if c = [] then ''Cannot make a clause watchers over an empty clause''
                     else ''a clause cannot contains a non-defined literal'')\<rparr>)"

context solver_platform begin

lemma insert_literals_spec:
  "\<exists>ids. ids_var P (insert_literals P lits vs) = ids_var P vs @ ids \<and>
     map (at_var P (insert_literals P lits vs)) ids = map fresh_var lits \<and>
     (\<forall>i\<in>set (ids_var P vs). at_var P (insert_literals P lits vs) i = at_var P vs i)"
proof (induction lits arbitrary: vs)
  case (Cons l lits)
  let ?vs = "fst (soa_insert (vars_lib P) vs (fresh_var l))" and ?n = "snd (soa_insert (vars_lib P) vs (fresh_var l))"
  obtain ids where ids: "ids_var P (insert_literals P lits ?vs) = ids_var P ?vs @ ids"
    "map (at_var P (insert_literals P lits ?vs)) ids = map fresh_var lits"
    "\<forall>i\<in>set (ids_var P ?vs). at_var P (insert_literals P lits ?vs) i = at_var P ?vs i"
    using Cons.IH [of ?vs] by blast
  then show ?case by (intro exI [of _ "?n # ids"]) simp
qed simp

lemma bump_changed:
  assumes "i \<in> set (ids_var P vs)"
  shows "activities_changed P vs (soa_set (vars_lib P) vs i (bump_activity n (at_var P vs i)))"
  using assms by (auto simp: activities_changed_def bump_activity_with)

lemma all_clause_ids_Inr:
  "\<forall>l\<in>set ls. find_var P vs l \<noteq> None \<Longrightarrow>
   \<exists>vs'. all_clause_ids P ls vs = Inr (vs', map (\<lambda>l. the (find_var P vs l)) ls) \<and>
     activities_changed P vs vs' \<and>
     (\<forall>i\<in>set (ids_var P vs). activity_of P vs' i = activity_of P vs i + occurrences P vs ls i)"
proof (induction ls arbitrary: vs)
  case (Cons l ls)
  obtain i where i: "find_var P vs l = Some i" using Cons.prems by auto
  have iv: "i \<in> set (ids_var P vs)" using find_var_SomeD [OF i] by simp
  let ?vs = "soa_set (vars_lib P) vs i (bump_activity 1 (at_var P vs i))"
  have ch: "activities_changed P vs ?vs" by (rule bump_changed [OF iv])
  note fv = find_var_changed [OF ch]
  have "\<forall>l\<in>set ls. find_var P ?vs l \<noteq> None" unfolding fv using Cons.prems by simp
  from Cons.IH [OF this, unfolded fv] obtain vs' where
    rest: "all_clause_ids P ls ?vs = Inr (vs', map (\<lambda>l. the (find_var P vs l)) ls)"
    and ch': "activities_changed P ?vs vs'"
    and act: "\<forall>j\<in>set (ids_var P ?vs). activity_of P vs' j = activity_of P ?vs j + occurrences P ?vs ls j"
    by blast
  have "activity_of P vs' j = activity_of P vs j + occurrences P vs (l # ls) j"
    if j: "j \<in> set (ids_var P vs)" for j
  proof -
    have "activity_of P vs' j = activity_of P ?vs j + occurrences P ?vs ls j"
      using act j iv by simp
    moreover have "occurrences P ?vs ls j = occurrences P vs ls j" by (simp only: occurrences_def fv)
    moreover have "activity_of P ?vs j = activity_of P vs j + (if j = i then 1 else 0)"
      using j iv by (simp add: bump_activity_with)
    moreover have "occurrences P vs (l # ls) j = (if j = i then 1 else 0) + occurrences P vs ls j"
      using i by (simp add: occurrences_def)
    ultimately show ?thesis by simp
  qed
  then show ?case
    using rest i activities_changed_trans [OF ch ch'] by simp
qed (simp add: occurrences_def)

lemma all_clause_ids_Inl:
  "\<not> (\<forall>l\<in>set ls. find_var P vs l \<noteq> None) \<Longrightarrow>
   all_clause_ids P ls vs = Inl (clause_fault (ndebug P) (l0 # ls0))"
proof (induction ls arbitrary: vs)
  case (Cons l ls)
  show ?case
  proof (cases "find_var P vs l")
    case None
    then show ?thesis
      by (cases "ndebug P") (simp_all add: clause_fault_def fabko_assert_debug_False)
  next
    case (Some i)
    have iv: "i \<in> set (ids_var P vs)" using find_var_SomeD [OF Some] by simp
    have "\<not> (\<forall>l\<in>set ls. find_var P (soa_set (vars_lib P) vs i (bump_activity 1 (at_var P vs i))) l \<noteq> None)"
      unfolding find_var_changed [OF bump_changed [OF iv]] using Cons.prems Some by simp
    from Cons.IH [OF this] Some show ?thesis by simp
  qed
qed simp

lemma occurrences_changed:
  assumes "activities_changed P vs vs'"
  shows "occurrences P vs' ls i = occurrences P vs ls i"
  by (simp only: occurrences_def find_var_changed [OF assms])

lemma insert_clauses_Inr:
  "\<forall>c\<in>set cls. (c \<noteq> [] \<or> ndebug P) \<and> (\<forall>l\<in>set c. find_var P vs l \<noteq> None) \<Longrightarrow>
   \<exists>vs' cs' ids. insert_clauses P cls vs cs = Inr (vs', cs') \<and> activities_changed P vs vs' \<and>
     (\<forall>i\<in>set (ids_var P vs). activity_of P vs' i = activity_of P vs i + occurrences P vs (concat cls) i) \<and>
     soa_ids (clauses_lib P) cs' = soa_ids (clauses_lib P) cs @ ids \<and>
     (\<forall>i\<in>set (soa_ids (clauses_lib P) cs). soa_at (clauses_lib P) cs' i = soa_at (clauses_lib P) cs i) \<and>
     map (\<lambda>i. get_literals (soa_clause (soa_at (clauses_lib P) cs' i))) ids =
       map (\<lambda>c. zip c (map (\<lambda>l. the (find_var P vs l)) c)) cls"
proof (induction cls arbitrary: vs cs)
  case Nil
  then show ?case by (simp add: occurrences_def)
next
  case (Cons c cls)
  let ?is = "map (\<lambda>l. the (find_var P vs l)) c"
  have "\<forall>l\<in>set c. find_var P vs l \<noteq> None" using Cons.prems by simp
  from all_clause_ids_Inr [OF this] obtain vs1 where
    ids1: "all_clause_ids P c vs = Inr (vs1, ?is)" and ch1: "activities_changed P vs vs1"
    and act1: "\<forall>i\<in>set (ids_var P vs). activity_of P vs1 i = activity_of P vs i + occurrences P vs c i"
    by blast
  have "get_literals (make_clause c ?is) \<noteq> [] \<or> ndebug P" using Cons.prems by (cases c) auto
  then obtain w where w: "make_clause_watcher P vs1 (make_clause c ?is) = Inr w"
    using make_clause_watcher_Inr_iff [of P vs1] by blast
  let ?e = "\<lparr>soa_clause = make_clause c ?is, soa_watcher = w, soa_clause_compiler_ctx = empty_metadata\<rparr>"
  let ?cs = "fst (soa_insert (clauses_lib P) cs ?e)" and ?n = "snd (soa_insert (clauses_lib P) cs ?e)"
  have "\<forall>c\<in>set cls. (c \<noteq> [] \<or> ndebug P) \<and> (\<forall>l\<in>set c. find_var P vs1 l \<noteq> None)"
    unfolding find_var_changed [OF ch1] using Cons.prems by simp
  from Cons.IH [OF this, of ?cs, unfolded find_var_changed [OF ch1] occurrences_changed [OF ch1]]
  obtain vs' cs' ids where rest: "insert_clauses P cls vs1 ?cs = Inr (vs', cs')"
    and ch: "activities_changed P vs1 vs'"
    and act: "\<forall>i\<in>set (ids_var P vs1). activity_of P vs' i = activity_of P vs1 i + occurrences P vs (concat cls) i"
    and ids: "soa_ids (clauses_lib P) cs' = soa_ids (clauses_lib P) ?cs @ ids"
    and old: "\<forall>i\<in>set (soa_ids (clauses_lib P) ?cs). soa_at (clauses_lib P) cs' i = soa_at (clauses_lib P) ?cs i"
    and new: "map (\<lambda>i. get_literals (soa_clause (soa_at (clauses_lib P) cs' i))) ids =
       map (\<lambda>c. zip c (map (\<lambda>l. the (find_var P vs l)) c)) cls"
    by blast
  have whole: "insert_clauses P (c # cls) vs cs = Inr (vs', cs')" using ids1 w rest by (simp add: Let_def)
  have acts: "activity_of P vs' i = activity_of P vs i + occurrences P vs (concat (c # cls)) i"
    if i: "i \<in> set (ids_var P vs)" for i
  proof -
    have "i \<in> set (ids_var P vs1)" using ch1 i by (simp add: activities_changed_def)
    then show ?thesis using act act1 i by (simp add: occurrences_def)
  qed
  show ?case
    by (intro exI [of _ vs'] exI [of _ cs'] exI [of _ "?n # ids"] conjI ballI whole acts
        activities_changed_trans [OF ch1 ch])
      (use ids old new in simp_all)
qed

text \<open>The first clause that is not taken decides the error.\<close>

lemma insert_clauses_Inl:
  "find (clause_refused (ndebug P) (\<lambda>l. find_var P vs l \<noteq> None)) cls = Some c \<Longrightarrow>
   insert_clauses P cls vs cs = Inl (clause_fault (ndebug P) c)"
proof (induction cls arbitrary: vs cs)
  case (Cons d cls)
  let ?known = "\<lambda>vs l. find_var P vs l \<noteq> None" and ?is = "map (\<lambda>l. the (find_var P vs l)) d"
  show ?case
  proof (cases "\<forall>l\<in>set d. ?known vs l")
    case True
    obtain vs1 where ids1: "all_clause_ids P d vs = Inr (vs1, ?is)" and ch1: "activities_changed P vs vs1"
      using all_clause_ids_Inr [OF True] by blast
    show ?thesis
    proof (cases "d = [] \<and> \<not> ndebug P")
      case False
      then obtain w where w: "make_clause_watcher P vs1 (make_clause d ?is) = Inr w"
        using make_clause_watcher_Inr_iff [of P vs1 "make_clause d ?is"] by (cases d) auto
      have "\<not> clause_refused (ndebug P) (?known vs) d"
        using True False by (auto simp: clause_refused_def list_all_iff)
      then have "find (clause_refused (ndebug P) (?known vs1)) cls = Some c"
        using Cons.prems unfolding find_var_changed [OF ch1] by simp
      from Cons.IH [OF this] show ?thesis using ids1 w by (simp add: Let_def)
    next
      case empty: True
      then have "c = d" using Cons.prems by (simp add: clause_refused_def)
      moreover have "make_clause_watcher P vs1 (make_clause d ?is) = Inl (clause_fault (ndebug P) d)"
        using empty by (simp add: make_clause_watcher_def clause_fault_def fabko_assert_debug_False)
      ultimately show ?thesis using ids1 by (simp add: Let_def)
    qed
  next
    case False
    then obtain l ls where d: "d = l # ls" by (cases d) auto
    have "c = d" using Cons.prems False by (auto simp: clause_refused_def list_all_iff split: if_splits)
    then show ?thesis using all_clause_ids_Inl [OF False, of l ls] by (simp add: d)
  qed
qed simp

end

section \<open>The context that is built\<close>

definition initial_vars :: "('vs, 'cs) platform \<Rightarrow> model \<Rightarrow> 'vs" where
  "initial_vars P m = insert_literals P (literals m) (soa_new (vars_lib P))"

definition declared :: "model \<Rightarrow> literal \<Rightarrow> bool" where
  "declared m l \<longleftrightarrow> lit_value l \<in> lit_value ` set (literals m)"

context solver_platform begin

lemma initial_vars_spec:
  "map (at_var P (initial_vars P m)) (ids_var P (initial_vars P m)) = map fresh_var (literals m)"
  using insert_literals_spec [of "literals m" "soa_new (vars_lib P)"] by (auto simp: initial_vars_def)

lemma initial_var:
  assumes "i \<in> set (ids_var P (initial_vars P m))"
  shows "\<exists>l\<in>set (literals m). at_var P (initial_vars P m) i = fresh_var l"
proof -
  have "at_var P (initial_vars P m) i \<in> set (map fresh_var (literals m))"
    unfolding initial_vars_spec [symmetric] using assms by simp
  then show ?thesis by auto
qed

lemma initial_literals:
  "map (\<lambda>i. soa_literal (at_var P (initial_vars P m) i)) (ids_var P (initial_vars P m)) = literals m"
  using arg_cong [OF initial_vars_spec [of m], of "map soa_literal"] by (simp add: comp_def)

lemma find_initial_var: "find_var P (initial_vars P m) l \<noteq> None \<longleftrightarrow> declared m l"
proof -
  have "set (literals m) = (\<lambda>i. soa_literal (at_var P (initial_vars P m) i)) ` set (ids_var P (initial_vars P m))"
    using arg_cong [OF initial_literals [of m], of set] by simp
  then show ?thesis
    unfolding declared_def find_var_def find_None_iff lit_eq_iff image_iff by fastforce
qed

lemma known_declared: "(\<lambda>l. find_var P (initial_vars P m) l \<noteq> None) = declared m"
  by (intro ext) (rule find_initial_var)

lemma make_solver_context_Inl:
  assumes "find (clause_refused (ndebug P) (declared m)) (clauses m) = Some c"
  shows "make_solver_context P m = Inl (clause_fault (ndebug P) c)"
  using insert_clauses_Inl [OF assms [folded known_declared], of "soa_new (clauses_lib P)"]
  by (simp add: make_solver_context_def initial_vars_def)

lemma make_solver_context_Inr_iff:
  "(\<exists>ctx. make_solver_context P m = Inr ctx) \<longleftrightarrow>
   (\<forall>c\<in>set (clauses m). (c \<noteq> [] \<or> ndebug P) \<and> (\<forall>l\<in>set c. declared m l))"
proof (cases "find (clause_refused (ndebug P) (declared m)) (clauses m)")
  case None
  then have ok: "\<forall>c\<in>set (clauses m). (c \<noteq> [] \<or> ndebug P) \<and> (\<forall>l\<in>set c. declared m l)"
    by (auto simp: find_None_iff clause_refused_def list_all_iff)
  then have "\<forall>c\<in>set (clauses m). (c \<noteq> [] \<or> ndebug P) \<and> (\<forall>l\<in>set c. find_var P (initial_vars P m) l \<noteq> None)"
    unfolding find_initial_var .
  from insert_clauses_Inr [OF this, of "soa_new (clauses_lib P)"] ok show ?thesis
    by (auto simp: make_solver_context_def initial_vars_def)
next
  case (Some c)
  then have "c \<in> set (clauses m)" "clause_refused (ndebug P) (declared m) c"
    using find_SomeD [OF Some] by simp_all
  then show ?thesis
    using make_solver_context_Inl [OF Some] by (fastforce simp: clause_refused_def list_all_iff)
qed

text \<open>Everything a new context holds, in terms of the model.\<close>

lemma make_solver_context_spec:
  assumes "make_solver_context P m = Inr ctx"
  shows "activities_changed P (initial_vars P m) (vars_soa ctx)"
    and "\<forall>i\<in>set (var_ids P ctx). var_activity P ctx i = occurrences P (initial_vars P m) (concat (clauses m)) i"
    and "map (lits_of P ctx) (clause_ids P ctx) =
      map (\<lambda>c. zip c (map (\<lambda>l. the (find_var P (initial_vars P m) l)) c)) (clauses m)"
    and "trail ctx = [] \<and> current_decision_level ctx = 0 \<and> conflict_count_since_last_restart ctx = 0 \<and>
      config ctx = conf m \<and> context_model ctx = m \<and> stats ctx = zero_statistics"
    and "\<forall>c\<in>set (clauses m). \<forall>l\<in>set c. declared m l"
proof -
  have ok: "\<forall>c\<in>set (clauses m). (c \<noteq> [] \<or> ndebug P) \<and> (\<forall>l\<in>set c. declared m l)"
    using make_solver_context_Inr_iff [of m] assms by blast
  then show "\<forall>c\<in>set (clauses m). \<forall>l\<in>set c. declared m l" by blast
  have "\<forall>c\<in>set (clauses m). (c \<noteq> [] \<or> ndebug P) \<and> (\<forall>l\<in>set c. find_var P (initial_vars P m) l \<noteq> None)"
    using ok unfolding find_initial_var .
  from insert_clauses_Inr [OF this, of "soa_new (clauses_lib P)"] obtain vs cs ids where
    ins: "insert_clauses P (clauses m) (initial_vars P m) (soa_new (clauses_lib P)) = Inr (vs, cs)"
    and ch: "activities_changed P (initial_vars P m) vs"
    and act: "\<forall>i\<in>set (ids_var P (initial_vars P m)). activity_of P vs i =
      activity_of P (initial_vars P m) i + occurrences P (initial_vars P m) (concat (clauses m)) i"
    and ids: "soa_ids (clauses_lib P) cs = ids"
    and new: "map (\<lambda>i. get_literals (soa_clause (soa_at (clauses_lib P) cs i))) ids =
       map (\<lambda>c. zip c (map (\<lambda>l. the (find_var P (initial_vars P m) l)) c)) (clauses m)"
    by auto
  have ctx: "vars_soa ctx = vs" "clauses_soa ctx = cs"
    using assms ins by (auto simp: make_solver_context_def initial_vars_def)
  have ids_vs: "ids_var P vs = ids_var P (initial_vars P m)" using ch by (simp add: activities_changed_def)
  show "activities_changed P (initial_vars P m) (vars_soa ctx)" by (simp add: ctx ch)
  have "activity_of P (initial_vars P m) i = 0" if "i \<in> set (ids_var P (initial_vars P m))" for i
    using initial_var [OF that] by auto
  then show "\<forall>i\<in>set (var_ids P ctx). var_activity P ctx i = occurrences P (initial_vars P m) (concat (clauses m)) i"
    using act by (simp add: ctx ids_vs)
  show "map (lits_of P ctx) (clause_ids P ctx) =
      map (\<lambda>c. zip c (map (\<lambda>l. the (find_var P (initial_vars P m) l)) c)) (clauses m)"
    using new by (simp add: ctx ids)
  show "trail ctx = [] \<and> current_decision_level ctx = 0 \<and> conflict_count_since_last_restart ctx = 0 \<and>
      config ctx = conf m \<and> context_model ctx = m \<and> stats ctx = zero_statistics"
    using assms ins by (auto simp: make_solver_context_def initial_vars_def)
qed

lemma make_solver_context_var:
  assumes mk: "make_solver_context P m = Inr ctx"
  shows "var_ids P ctx = ids_var P (initial_vars P m)"
    and "i \<in> set (var_ids P ctx) \<Longrightarrow> var_lit P ctx i = soa_literal (at_var P (initial_vars P m) i) \<and>
      var_val P ctx i = not_assigned \<and> var_level P ctx i = 0 \<and> var_reason P ctx i = None"
proof -
  note ch = make_solver_context_spec(1) [OF mk]
  then show ids: "var_ids P ctx = ids_var P (initial_vars P m)" by (simp add: activities_changed_def)
  assume i: "i \<in> set (var_ids P ctx)"
  obtain a where "at_var P (vars_soa ctx) i = with_activity a (at_var P (initial_vars P m) i)"
    using ch i by (auto simp: activities_changed_def)
  moreover obtain l where "at_var P (initial_vars P m) i = fresh_var l"
    using initial_var i ids by auto
  ultimately show "var_lit P ctx i = soa_literal (at_var P (initial_vars P m) i) \<and>
      var_val P ctx i = not_assigned \<and> var_level P ctx i = 0 \<and> var_reason P ctx i = None"
    by simp
qed

lemma make_solver_context_literals:
  assumes mk: "make_solver_context P m = Inr ctx"
  shows "map (var_lit P ctx) (var_ids P ctx) = literals m"
proof -
  have "map (var_lit P ctx) (var_ids P ctx) =
      map (\<lambda>i. soa_literal (at_var P (initial_vars P m) i)) (ids_var P (initial_vars P m))"
    using make_solver_context_var [OF mk] by simp
  then show ?thesis by (simp add: initial_literals)
qed

text \<open>The constructor establishes the invariant of the search.\<close>

lemma make_solver_context_linked:
  assumes wf: "wf_model m" and mk: "make_solver_context P m = Inr ctx"
  shows "linked P ctx"
  unfolding linked_def
proof (intro conjI ballI)
  have "distinct (map (\<lambda>v. lit_value (var_lit P ctx v)) (var_ids P ctx))"
    using wf arg_cong [OF make_solver_context_literals [OF mk], of "map lit_value"]
    by (simp add: wf_model_def comp_def)
  then show "inj_on (\<lambda>v. lit_value (var_lit P ctx v)) (set (var_ids P ctx))" by (simp add: distinct_map)
  fix c p assume c: "c \<in> set (clause_ids P ctx)" and p: "p \<in> set (lits_of P ctx c)"
  have "lits_of P ctx c \<in> set (map (lits_of P ctx) (clause_ids P ctx))" using c by simp
  then obtain cl where cl: "cl \<in> set (clauses m)"
    and lits: "lits_of P ctx c = zip cl (map (\<lambda>l. the (find_var P (initial_vars P m) l)) cl)"
    unfolding make_solver_context_spec(3) [OF mk] by auto
  have l: "fst p \<in> set cl" and v: "snd p = the (find_var P (initial_vars P m) (fst p))"
    using p by (auto simp: lits zip_map2 set_zip)
  have "find_var P (initial_vars P m) (fst p) \<noteq> None"
    unfolding find_initial_var using make_solver_context_spec(5) [OF mk] cl l by blast
  then have found: "find_var P (initial_vars P m) (fst p) = Some (snd p)" using v by auto
  have "raw_value (fst p) \<noteq> 0" using wf cl l by (auto simp: wf_model_def)
  then show "pair_ok P ctx p"
    using find_var_SomeD [OF found] make_solver_context_var [OF mk] by (simp add: pair_ok_def)
qed

lemma make_solver_context_db:
  assumes mk: "make_solver_context P m = Inr ctx"
  shows "map (\<lambda>c. map fst (lits_of P ctx c)) (clause_ids P ctx) = clauses m"
proof -
  have "map (map fst) (map (lits_of P ctx) (clause_ids P ctx)) = clauses m"
    unfolding make_solver_context_spec(3) [OF mk] by (simp add: comp_def)
  then show ?thesis by (simp add: comp_def)
qed

lemma make_solver_context_search_inv:
  assumes wf: "wf_model m" and mk: "make_solver_context P m = Inr ctx"
  shows "search_inv P m ctx"
proof -
  note spec = make_solver_context_spec(4) [OF mk] and var = make_solver_context_var(2) [OF mk]
  have "trail_inv P ctx" using spec var by (auto simp: trail_inv_def)
  moreover have "closed_below P ctx" using spec by (simp add: closed_below_def)
  moreover have "equivalent_db P (clauses m) ctx"
  proof -
    have db: "(\<lambda>c. map fst (lits_of P ctx c)) ` set (clause_ids P ctx) = set (clauses m)"
      using arg_cong [OF make_solver_context_db [OF mk], of set] by simp
    show ?thesis
      unfolding equivalent_db_def cnf_holds_def
    proof (intro conjI allI impI ballI)
      fix \<sigma> c assume "\<forall>c\<in>set (clauses m). clause_holds \<sigma> c" and "c \<in> set (clause_ids P ctx)"
      then show "clause_holds \<sigma> (map fst (lits_of P ctx c))" using db by blast
    next
      fix cl assume "cl \<in> set (clauses m)"
      then show "\<exists>c\<in>set (clause_ids P ctx). map fst (lits_of P ctx c) = cl" unfolding db [symmetric] by auto
    qed
  qed
  moreover have "solver_platform P" by (rule solver_platform_axioms)
  moreover have "var_values P ctx = map lit_value (literals m)"
    using arg_cong [OF make_solver_context_literals [OF mk], of "map lit_value"]
    by (simp add: var_values_def comp_def)
  ultimately show ?thesis
    using make_solver_context_linked [OF wf mk] by (simp add: search_inv_def solver_inv_def)
qed

text \<open>The first activity of a variable is the number of its occurrences in the clauses.\<close>

lemma make_solver_context_activity:
  assumes wf: "wf_model m" and mk: "make_solver_context P m = Inr ctx" and i: "i \<in> set (var_ids P ctx)"
  shows "var_activity P ctx i = int (length (filter (\<lambda>l. lit_eq l (var_lit P ctx i)) (concat (clauses m))))"
proof -
  note var = make_solver_context_var [OF mk]
  have "find_var P (initial_vars P m) l = Some i \<longleftrightarrow> lit_eq l (var_lit P ctx i)"
    if l: "l \<in> set (concat (clauses m))" for l
  proof -
    have "find_var P (initial_vars P m) l \<noteq> None"
      unfolding find_initial_var using make_solver_context_spec(5) [OF mk] l by auto
    then obtain j where found: "find_var P (initial_vars P m) l = Some j" by auto
    then have j: "j \<in> set (var_ids P ctx)" "lit_value (var_lit P ctx j) = lit_value l"
      using find_var_SomeD [OF found] var by simp_all
    have "inj_on (\<lambda>v. lit_value (var_lit P ctx v)) (set (var_ids P ctx))"
      using make_solver_context_linked [OF wf mk] by (simp add: linked_def)
    then have "j = i \<longleftrightarrow> lit_value (var_lit P ctx j) = lit_value (var_lit P ctx i)"
      using i j(1) inj_onD [of "\<lambda>v. lit_value (var_lit P ctx v)" "set (var_ids P ctx)" j i] by blast
    then show ?thesis using found j(2) by (simp add: lit_eq_iff)
  qed
  then have "filter (\<lambda>l. find_var P (initial_vars P m) l = Some i) (concat (clauses m)) =
      filter (\<lambda>l. lit_eq l (var_lit P ctx i)) (concat (clauses m))"
    by (rule filter_cong [OF refl])
  moreover have "var_activity P ctx i = occurrences P (initial_vars P m) (concat (clauses m)) i"
    using make_solver_context_spec(2) [OF mk] i by blast
  ultimately show ?thesis by (simp only: occurrences_def)
qed

end

end
