(* ===== verification/Sat_Headroom.thy ===== *)
theory Sat_Headroom
  imports Sat_Constructor
begin

text \<open>
  When the activities stay in 64 bits: additions always do, because a large activity is scaled down
  first; the decay adds at most a tenth to an activity, and \<open>N\<close> conflicts do so at most
  \<open>N div decay_interval\<close> times.
\<close>

definition activity_bound :: "configuration \<Rightarrow> nat \<Rightarrow> nat \<Rightarrow> int" where
  "activity_bound cf a c =
     (int a + vsids_increment cf * int c) * 11 ^ (c div nat (decay_interval cf)) div
       10 ^ (c div nat (decay_interval cf))"

definition activity_headroom :: "configuration \<Rightarrow> nat \<Rightarrow> nat \<Rightarrow> bool" where
  "activity_headroom cf a n \<longleftrightarrow>
     0 \<le> vsids_increment cf \<and> 0 < decay_interval cf \<and> decay_interval cf < 2 ^ 31 \<and>
     vsids_decay_ratio cf = vsids_decay_ratio default_configuration \<and>
     activity_bound cf a n < int64_max - vsids_increment cf"

lemma le_div_mult:
  fixes m :: int
  assumes "0 < m"
  shows "x \<le> y div m \<longleftrightarrow> x * m \<le> y"
proof
  assume "x \<le> y div m"
  then have "x * m \<le> y div m * m" using assms by (intro mult_right_mono) simp_all
  also have "\<dots> \<le> y" using assms div_mult_mod_eq [of y m] pos_mod_sign [of m y] by linarith
  finally show "x * m \<le> y" .
next
  assume "x * m \<le> y"
  from zdiv_mono1 [OF this assms] show "x \<le> y div m" using assms by simp
qed

lemma le_activity_bound:
  "x \<le> activity_bound cf a c \<longleftrightarrow>
   x * 10 ^ (c div nat (decay_interval cf)) \<le>
     (int a + vsids_increment cf * int c) * 11 ^ (c div nat (decay_interval cf))"
  unfolding activity_bound_def by (rule le_div_mult) simp

lemma activity_bound_nonneg: "0 \<le> vsids_increment cf \<Longrightarrow> 0 \<le> activity_bound cf a c"
  by (simp add: le_activity_bound)

text \<open>One conflict adds the increment, and a tenth at the end of an interval.\<close>

lemma activity_bound_Suc:
  fixes a c :: nat
  assumes inc: "0 \<le> vsids_increment cf" and i: "0 < decay_interval cf"
  defines "b \<equiv> activity_bound cf a c + vsids_increment cf"
  shows "b \<le> activity_bound cf a (Suc c)"
    and "Suc c mod nat (decay_interval cf) = 0 \<Longrightarrow> 10 * q \<le> 11 * b \<Longrightarrow> q \<le> activity_bound cf a (Suc c)"
proof -
  let ?i = "nat (decay_interval cf)" and ?n = "vsids_increment cf"
  let ?k = "c div ?i" and ?x = "int a + ?n * int (Suc c)"
  have "?n * 10 ^ ?k \<le> ?n * 11 ^ ?k" using inc by (intro mult_left_mono power_mono) simp_all
  moreover have "activity_bound cf a c * 10 ^ ?k \<le> (int a + ?n * int c) * 11 ^ ?k"
    using le_activity_bound [of "activity_bound cf a c" cf a c] by simp
  ultimately have b: "b * 10 ^ ?k \<le> ?x * 11 ^ ?k" by (simp add: b_def algebra_simps)
  have scaled: "q * 10 ^ Suc ?k \<le> ?x * 11 ^ Suc ?k" if "10 * q \<le> 11 * b" for q
  proof -
    have "q * 10 ^ Suc ?k \<le> 11 * b * 10 ^ ?k" using mult_right_mono [OF that, of "10 ^ ?k"] by (simp add: ac_simps)
    also have "\<dots> \<le> ?x * 11 ^ Suc ?k" using b by (simp add: ac_simps)
    finally show ?thesis .
  qed
  have Suc: "Suc c div ?i = (if Suc c mod ?i = 0 then Suc ?k else ?k)" by (simp add: div_Suc)
  show "Suc c mod ?i = 0 \<Longrightarrow> 10 * q \<le> 11 * b \<Longrightarrow> q \<le> activity_bound cf a (Suc c)"
    using scaled by (simp only: le_activity_bound Suc if_True simp_thms)
  have "0 \<le> b" using activity_bound_nonneg [OF inc, of a c] inc by (simp add: b_def)
  then show "b \<le> activity_bound cf a (Suc c)"
    using b scaled [of b] unfolding le_activity_bound Suc by (simp split: if_split)
qed

lemma activity_bound_mono:
  assumes "0 \<le> vsids_increment cf" and "0 < decay_interval cf" and "c \<le> d"
  shows "activity_bound cf a c \<le> activity_bound cf a d"
  using assms(3)
proof (rule lift_Suc_mono_le [rotated])
  show "activity_bound cf a n \<le> activity_bound cf a (Suc n)" for n
    using activity_bound_Suc(1) [OF assms(1,2), of a n] assms(1) by linarith
qed

context solver_platform begin

text \<open>Additions never overflow when the activities are not negative and the increment is an \<open>int32_t\<close>.\<close>

lemma bump_activities_Inr:
  assumes inc: "0 \<le> vsids_increment (config ctx)" "vsids_increment (config ctx) < 2 ^ 31"
    and dist: "distinct (map snd (get_literals L))" and vars: "snd ` set (get_literals L) \<subseteq> set (var_ids P ctx)"
    and act: "\<forall>v\<in>set (var_ids P ctx). 0 \<le> var_activity P ctx v \<and> var_activity P ctx v \<le> int64_max"
  shows "\<exists>vs1 vs2. normalize_activities P ctx L = Inr vs1 \<and>
    update_activities P (add_activity (vsids_increment (config ctx))) (map snd (get_literals L)) vs1 = Inr vs2"
proof -
  let ?n = "vsids_increment (config ctx)"
  have n: "in_int64 (int64_max - ?n)" using inc by (simp add: in_int64_def int64_max_def)
  obtain vs1 where norm: "normalize_activities P ctx L = Inr vs1"
    and ids: "ids_var P vs1 = var_ids P ctx"
    and small: "\<forall>v\<in>snd ` set (get_literals L). 0 \<le> activity_of P vs1 v \<and> activity_of P vs1 v + ?n \<le> int64_max"
  proof (cases "needs_normalization P ctx L")
    case True
    have div: "divide_activity 53 (1000000, 0) (var_at P ctx v) =
        Inr (with_activity (int64_div_float 53 (var_activity P ctx v) (1000000, 0)) (var_at P ctx v)) \<and>
        0 \<le> int64_div_float 53 (var_activity P ctx v) (1000000, 0) \<and>
        int64_div_float 53 (var_activity P ctx v) (1000000, 0) < 10 ^ 13" if v: "v \<in> set (var_ids P ctx)" for v
      using normalization_bounds [of "var_activity P ctx v"] act v
      by (auto simp: divide_activity_def Let_def in_int64_def int64_max_def)
    have "\<exists>vs1. update_activities P (divide_activity 53 (1000000, 0)) (var_ids P ctx) (vars_soa ctx) = Inr vs1"
      by (rule update_activities_Inr) (use div in auto)
    then obtain vs1 where upd: "update_activities P (divide_activity 53 (1000000, 0)) (var_ids P ctx) (vars_soa ctx) = Inr vs1"
      by blast
    have "activity_of P vs1 v < 10 ^ 13 \<and> 0 \<le> activity_of P vs1 v" if v: "v \<in> set (var_ids P ctx)" for v
    proof -
      have "at_var P vs1 v =
          with_activity (int64_div_float 53 (var_activity P ctx v) (1000000, 0)) (var_at P ctx v)"
        using update_activities_at [OF vs.distinct_ids subset_refl v upd] v div [OF v] by simp
      then show ?thesis using div [OF v] by simp
    qed
    then have "\<forall>v\<in>snd ` set (get_literals L). 0 \<le> activity_of P vs1 v \<and> activity_of P vs1 v + ?n \<le> int64_max"
      using vars inc by (fastforce simp: int64_max_def)
    moreover have "ids_var P vs1 = var_ids P ctx"
      using update_activities_changed [OF sets_activity_divide subset_refl upd] by (simp add: activities_changed_def)
    moreover have "normalize_activities P ctx L = Inr vs1"
      using True n upd by (simp add: normalize_activities_def)
    ultimately show ?thesis using that by blast
  next
    case False
    then have "\<forall>p\<in>set (get_literals L). var_activity P ctx (snd p) < int64_max - ?n"
      by (auto simp: needs_normalization_def list_ex_iff)
    then have "\<forall>v\<in>snd ` set (get_literals L). 0 \<le> var_activity P ctx v \<and> var_activity P ctx v + ?n \<le> int64_max"
      using vars act by fastforce
    then show ?thesis
      by (intro that [of "vars_soa ctx"]) (use False n in \<open>simp_all add: normalize_activities_def\<close>)
  qed
  have "\<exists>vs2. update_activities P (add_activity ?n) (map snd (get_literals L)) vs1 = Inr vs2"
  proof (rule update_activities_Inr [OF dist])
    show "set (map snd (get_literals L)) \<subseteq> set (ids_var P vs1)" using vars ids by simp
    show "\<forall>i\<in>set (map snd (get_literals L)). \<exists>v. add_activity ?n (at_var P vs1 i) = Inr v"
      using small inc(1) by (fastforce simp: add_activity_def Let_def in_int64_def int64_max_def)
  qed
  with norm show ?thesis by blast
qed

text \<open>The whole update, with the decay, from activities below the bound.\<close>

lemma update_vsids_bounded:
  assumes head: "activity_headroom (config ctx) a n" and c: "conflicts (stats ctx) = Suc c" "Suc c \<le> n"
    and dist: "distinct (map snd (get_literals L))" and vars: "snd ` set (get_literals L) \<subseteq> set (var_ids P ctx)"
    and act: "\<forall>v\<in>set (var_ids P ctx). 0 \<le> var_activity P ctx v \<and>
      var_activity P ctx v \<le> activity_bound (config ctx) a c"
  shows "\<exists>ctx'. update_vsids_activity P ctx L = Inr ctx' \<and> config ctx' = config ctx \<and> stats ctx' = stats ctx \<and>
    var_ids P ctx' = var_ids P ctx \<and>
    (\<forall>v\<in>set (var_ids P ctx). 0 \<le> var_activity P ctx' v \<and>
      var_activity P ctx' v \<le> activity_bound (config ctx) a (Suc c))"
proof -
  let ?cf = "config ctx"
  let ?n = "vsids_increment ?cf" and ?i = "nat (decay_interval ?cf)" and ?b = "activity_bound ?cf a"
  have inc: "0 \<le> ?n" and i: "0 < decay_interval ?cf" "decay_interval ?cf < 2 ^ 31"
    and ratio: "vsids_decay_ratio ?cf = (15938355, -24)" and room: "?b n < int64_max - ?n"
    using head by (simp_all add: activity_headroom_def default_configuration_def)
  have bn: "?b (Suc c) < int64_max - ?n" "?b c < int64_max - ?n"
    using activity_bound_mono [OF inc i(1), of "Suc c" n a] activity_bound_mono [OF inc i(1), of c n a] c room by simp_all
  have calm: "\<not> needs_normalization P ctx L"
    using act vars bn(2) by (fastforce simp: needs_normalization_def list_ex_iff)
  have range: "in_int64 (int64_max - ?n)"
    using inc bn(1) activity_bound_nonneg [OF inc, of a "Suc c"] by (simp add: in_int64_def int64_max_def)
  have norm: "normalize_activities P ctx L = Inr (vars_soa ctx)"
    using calm range by (simp add: normalize_activities_def)
  have add: "add_activity ?n (var_at P ctx v) = Inr (with_activity (var_activity P ctx v + ?n) (var_at P ctx v))"
    if "v \<in> set (var_ids P ctx)" for v
    using act that bn(2) inc by (fastforce simp: add_activity_def Let_def in_int64_def int64_max_def)
  obtain vs2 where bump: "update_activities P (add_activity ?n) (map snd (get_literals L)) (vars_soa ctx) = Inr vs2"
    using update_activities_Inr [OF dist, of "vars_soa ctx" "add_activity ?n"] vars add by fastforce
  have sub: "set (map snd (get_literals L)) \<subseteq> set (var_ids P ctx)" using vars by simp
  have ids2: "ids_var P vs2 = var_ids P ctx"
    using update_activities_changed [OF sets_activity_add sub bump] by (simp add: activities_changed_def)
  have act2: "0 \<le> activity_of P vs2 v \<and> activity_of P vs2 v \<le> ?b c + ?n" if v: "v \<in> set (var_ids P ctx)" for v
  proof -
    have old: "0 \<le> var_activity P ctx v" "var_activity P ctx v \<le> ?b c" using act v by simp_all
    show ?thesis
    proof (cases "v \<in> set (map snd (get_literals L))")
      case True
      then have "at_var P vs2 v = with_activity (var_activity P ctx v + ?n) (var_at P ctx v)"
        using update_activities_at [OF dist sub v bump] add [OF v] by simp
      then show ?thesis using old inc by simp
    next
      case False
      then have "at_var P vs2 v = var_at P ctx v"
        using update_activities_at [OF dist sub v bump] by (simp only: if_False)
      then show ?thesis using old inc by simp
    qed
  qed
  have interval: "nat (decay_interval ?cf mod 2 ^ 64) = ?i" using i by simp
  note step = activity_bound_Suc [OF inc i(1), where a = a and c = c]
  obtain vs3 where decay: "decay_activities P ctx vs2 = Inr vs3" and ids3: "ids_var P vs3 = var_ids P ctx"
    and act3: "\<forall>v\<in>set (var_ids P ctx). 0 \<le> activity_of P vs3 v \<and> activity_of P vs3 v \<le> ?b (Suc c)"
  proof (cases "Suc c mod ?i = 0")
    case True
    have dec: "\<exists>q. divide_activity 24 (15938355, -24) (at_var P vs2 v) = Inr (with_activity q (at_var P vs2 v)) \<and>
        0 \<le> q \<and> q \<le> ?b (Suc c)" if v: "v \<in> set (ids_var P vs2)" for v
    proof -
      let ?q = "int64_div_float 24 (activity_of P vs2 v) (15938355, -24)"
      have nonneg: "0 \<le> activity_of P vs2 v" and le: "activity_of P vs2 v \<le> ?b c + ?n"
        using act2 v ids2 by auto
      have "0 \<le> ?q" by (rule order.trans [OF nonneg decay_bounds(1) [OF nonneg]])
      moreover have "10 * ?q \<le> 11 * (?b c + ?n)"
        by (rule order.trans [OF decay_bounds(2) [OF nonneg]]) (use le in simp)
      ultimately have "0 \<le> ?q" "?q \<le> ?b (Suc c)" using step(2) [OF True] by blast+
      moreover from this have "in_int64 ?q" using bn(1) inc by (simp add: in_int64_def int64_max_def)
      ultimately show ?thesis by (intro exI [of _ ?q]) (simp add: divide_activity_def Let_def)
    qed
    obtain vs3 where upd: "update_activities P (divide_activity 24 (15938355, -24)) (ids_var P vs2) vs2 = Inr vs3"
      using update_activities_Inr [OF vs.distinct_ids subset_refl, of vs2 "divide_activity 24 (15938355, -24)"] dec
      by blast
    have "0 \<le> activity_of P vs3 v \<and> activity_of P vs3 v \<le> ?b (Suc c)" if v: "v \<in> set (var_ids P ctx)" for v
    proof -
      have v2: "v \<in> set (ids_var P vs2)" using v ids2 by simp
      then have "divide_activity 24 (15938355, -24) (at_var P vs2 v) = Inr (at_var P vs3 v)"
        using update_activities_at [OF vs.distinct_ids subset_refl v2 upd] by simp
      then show ?thesis using dec [OF v2] by auto
    qed
    moreover have "ids_var P vs3 = var_ids P ctx"
      using update_activities_changed [OF sets_activity_divide subset_refl upd] ids2 by (simp add: activities_changed_def)
    moreover have "decay_activities P ctx vs2 = Inr vs3"
      using True i upd c by (simp add: decay_activities_def Let_def interval ratio)
    ultimately show ?thesis using that by blast
  next
    case False
    then show ?thesis
      by (intro that [of vs2]) (use ids2 act2 step(1) i c in \<open>fastforce simp: decay_activities_def Let_def interval\<close>)+
  qed
  have "update_vsids_activity P ctx L = Inr (ctx\<lparr>vars_soa := vs3\<rparr>)"
    by (simp add: update_vsids_activity_def norm bump decay)
  then show ?thesis using ids3 act3 by simp
qed

end

section \<open>An overflow that is not guarded\<close>

text \<open>
  The scaling looks at the variables of the learned clause only: with the default configuration, the
  decay of a large activity of another variable does not fit 64 bits.
\<close>

lemma decay_overflow:
  assumes "89 * 10 ^ 17 \<le> vsids_activity (soa_assignment_ctx v)"
  shows "divide_activity 24 (vsids_decay_ratio default_configuration) v = Inl Undefined_Behaviour"
proof -
  let ?x = "vsids_activity (soa_assignment_ctx v)"
  have "real_of_int (89 * 10 ^ 17) \<le> real_of_int ?x" using assms by (simp only: of_int_le_iff)
  then have "(8900000000000000000 :: real) \<le> real_of_int ?x" by simp
  moreover have "float_value (15938355, -24) = 15938355 / 16777216"
    by (simp add: float_value_def power_int_def power_divide)
  ultimately have "int64_max < int64_div_float 24 ?x (15938355, -24)"
    using int64_div_float_bounds(2) [of ?x 15938355 24 "-24"] assms by (simp add: int64_max_def)
  then show ?thesis
    by (simp add: divide_activity_def Let_def default_configuration_def in_int64_def int64_max_def)
qed

context solver_platform begin

lemma decay_overflow_unguarded:
  assumes "config ctx = default_configuration" and "conflicts (stats ctx) mod 100 = 0"
    and "\<not> needs_normalization P ctx L" and "snd ` set (get_literals L) \<subseteq> set (var_ids P ctx)"
    and "distinct (map snd (get_literals L))"
    and v: "v \<in> set (var_ids P ctx)" "v \<notin> snd ` set (get_literals L)" "89 * 10 ^ 17 \<le> var_activity P ctx v"
  shows "update_vsids_activity P ctx L = Inl Undefined_Behaviour"
proof (cases "update_vsids_activity P ctx L")
  case (Inl e)
  then show ?thesis using update_vsids_activity_Inl [OF Inl] by simp
next
  case (Inr ctx')
  then obtain vs2 vs3 where bump: "update_activities P (add_activity (vsids_increment (config ctx)))
      (map snd (get_literals L)) (vars_soa ctx) = Inr vs2" and decay: "decay_activities P ctx vs2 = Inr vs3"
    using assms(3) by (auto simp: update_vsids_activity_def normalize_activities_def split: sum.splits if_splits)
  have sub: "set (map snd (get_literals L)) \<subseteq> set (var_ids P ctx)" using assms(4) by simp
  have ids: "ids_var P vs2 = var_ids P ctx"
    using update_activities_changed [OF sets_activity_add sub bump] by (simp add: activities_changed_def)
  have "at_var P vs2 v = var_at P ctx v"
    using update_activities_at [OF assms(5) sub v(1) bump] v(2) by simp
  moreover have "update_activities P (divide_activity 24 (vsids_decay_ratio default_configuration))
      (ids_var P vs2) vs2 = Inr vs3"
    using decay assms(1,2) by (simp add: decay_activities_def Let_def default_configuration_def split: if_splits)
  ultimately have "divide_activity 24 (vsids_decay_ratio default_configuration) (var_at P ctx v) = Inr (at_var P vs3 v)"
    using update_activities_at [OF vs.distinct_ids subset_refl, of v vs2] v(1) ids by simp
  then show ?thesis using decay_overflow [OF v(3)] by simp
qed

end

section \<open>Searches that stay in range\<close>

definition calm ::
    "('vs, 'cs) platform \<Rightarrow> configuration \<Rightarrow> nat \<Rightarrow> nat \<Rightarrow> ('vs, 'cs) solver_context \<Rightarrow> bool" where
  "calm P cf a n ctx \<longleftrightarrow>
     vsids_increment (config ctx) = vsids_increment cf \<and>
     decay_interval (config ctx) = decay_interval cf \<and>
     vsids_decay_ratio (config ctx) = vsids_decay_ratio cf \<and>
     conflicts (stats ctx) + card (missing_clauses P ctx) \<le> n \<and>
     (\<forall>v\<in>set (var_ids P ctx). 0 \<le> var_activity P ctx v \<and>
        var_activity P ctx v \<le> activity_bound cf a (conflicts (stats ctx)))"

definition calm_search ::
    "('vs, 'cs) platform \<Rightarrow> model \<Rightarrow> configuration \<Rightarrow> nat \<Rightarrow> nat \<Rightarrow> ('vs, 'cs) solver_context \<Rightarrow> bool" where
  "calm_search P m cf a n ctx \<longleftrightarrow> search_inv P m ctx \<and> literals m \<noteq> [] \<and> activity_headroom cf a n \<and> calm P cf a n ctx"

lemma headroom_cong:
  assumes "vsids_increment cf' = vsids_increment cf" and "decay_interval cf' = decay_interval cf"
    and "vsids_decay_ratio cf' = vsids_decay_ratio cf"
  shows "activity_bound cf' = activity_bound cf" and "activity_headroom cf' = activity_headroom cf"
  using assms by (auto simp: activity_bound_def activity_headroom_def fun_eq_iff)

text \<open>The update after a conflict succeeds, and leaves activities within the bound.\<close>

lemma calm_update:
  assumes plat: "solver_platform P" and head: "activity_headroom cf a n"
    and c: "calm P cf a n ctx" and missing: "missing_clauses P ctx \<noteq> {}"
    and upd: "vsids_updated P ctx out"
  obtains ctx' where "out = Inr ctx'" "vsids_increment (config ctx') = vsids_increment cf"
    "decay_interval (config ctx') = decay_interval cf" "vsids_decay_ratio (config ctx') = vsids_decay_ratio cf"
    "conflicts (stats ctx') = Suc (conflicts (stats ctx))"
    "\<forall>v\<in>set (var_ids P ctx'). 0 \<le> var_activity P ctx' v \<and>
       var_activity P ctx' v \<le> activity_bound cf a (conflicts (stats ctx'))"
proof -
  obtain ctx3 L where fr: "vsids_frame P 1 ctx ctx3" and dist: "distinct (map snd (get_literals L))"
    and vars: "snd ` set (get_literals L) \<subseteq> set (var_ids P ctx)" and out: "update_vsids_activity P ctx3 L = out"
    using upd by (auto simp: vsids_updated_def)
  have cf: "vsids_increment (config ctx3) = vsids_increment cf" "decay_interval (config ctx3) = decay_interval cf"
    "vsids_decay_ratio (config ctx3) = vsids_decay_ratio cf"
    using fr c by (simp_all add: vsids_frame_def calm_def)
  have cnt: "conflicts (stats ctx3) = Suc (conflicts (stats ctx))" using fr by (simp add: vsids_frame_def)
  have "0 < card (missing_clauses P ctx)" using missing finite_missing by (simp add: card_gt_0_iff)
  then have le: "Suc (conflicts (stats ctx)) \<le> n" using c by (simp add: calm_def)
  have "\<forall>v\<in>set (var_ids P ctx3). 0 \<le> var_activity P ctx3 v \<and>
      var_activity P ctx3 v \<le> activity_bound (config ctx3) a (conflicts (stats ctx))"
    using c fr by (simp add: calm_def vsids_frame_def headroom_cong(1) [OF cf])
  moreover have "snd ` set (get_literals L) \<subseteq> set (var_ids P ctx3)" using vars fr by (simp add: vsids_frame_def)
  moreover have "activity_headroom (config ctx3) a n" using head by (simp add: headroom_cong(2) [OF cf])
  ultimately obtain ctx' where "update_vsids_activity P ctx3 L = Inr ctx'" "config ctx' = config ctx3"
    "stats ctx' = stats ctx3" "var_ids P ctx' = var_ids P ctx3"
    "\<forall>v\<in>set (var_ids P ctx3). 0 \<le> var_activity P ctx' v \<and>
      var_activity P ctx' v \<le> activity_bound (config ctx3) a (Suc (conflicts (stats ctx)))"
    using solver_platform.update_vsids_bounded [OF plat _ cnt le dist] by blast
  then show ?thesis using out cf cnt by (intro that [of ctx']) (simp_all add: headroom_cong(1) [OF cf])
qed

lemma calm_round:
  assumes s: "calm_search P m cf a n ctx"
  shows "solve_round P ctx = Some (Inl ctx') \<Longrightarrow> calm_search P m cf a n ctx'"
    and "solve_round P ctx = Some (Inr out) \<Longrightarrow> outcome_correct P m out \<and> fst out \<noteq> Inl Undefined_Behaviour"
proof -
  have inv: "search_inv P m ctx" and plat: "solver_platform P" and head: "activity_headroom cf a n"
    and lits: "literals m \<noteq> []" and c: "calm P cf a n ctx"
    using s by (simp_all add: calm_search_def search_inv_def)
  show "calm_search P m cf a n ctx'" if round: "solve_round P ctx = Some (Inl ctx')"
  proof (cases rule: solve_round_cases [OF inv])
    case (1 d)
    then have d: "d = ctx'" using round by simp
    have "calm P cf a n ctx'" using c 1(3,7) by (simp add: calm_def vsids_frame_def d)
    then show ?thesis using 1(2) head lits by (simp add: calm_search_def d)
  next
    case (2 d)
    then have d: "d = ctx'" using round by simp
    have less: "card (missing_clauses P ctx') < card (missing_clauses P ctx)"
      using psubset_card_mono [OF finite_missing 2(3)] by (simp add: d)
    have ne: "missing_clauses P ctx \<noteq> {}" using 2(3) by auto
    show ?thesis
      using less 2(2) head c lits unfolding d calm_search_def calm_def [of P cf a n ctx']
      by (cases rule: calm_update [OF plat head c ne 2(6)]) (simp add: d calm_def)
  next
    case (4 d)
    then show ?thesis using lits by simp
  qed (use round in simp_all)
  show "outcome_correct P m out \<and> fst out \<noteq> Inl Undefined_Behaviour"
    if round: "solve_round P ctx = Some (Inr out)"
  proof (cases rule: solve_round_cases [OF inv])
    case (5 d)
    show ?thesis by (cases rule: calm_update [OF plat head c 5(3,2)]) simp
  qed (use round in simp_all)
qed

interpretation calm_solving: loop_partial "solve_round P" "calm_search P m cf a n"
    "\<lambda>out. outcome_correct P m out \<and> fst out \<noteq> Inl Undefined_Behaviour" for P m cf a n
  by unfold_locales (use calm_round in blast)+

end
