(* ===== verification/Sat_Properties.thy ===== *)
theory Sat_Properties
  imports Sat_Headroom
begin

text \<open>
  The properties of the solver: correctness and termination of \<open>solve_sat\<close>, the loops that do not
  return, and what each function of \<open>solver_impl.cpp\<close> and the context constructor guarantee.
\<close>

section \<open>Examples and the default configuration\<close>

definition example_model :: model where
  "example_model =
     \<lparr>literals = [Literal 1, Literal 2, Literal 3],
      clauses = [[Literal 1, Literal 2], [Literal (- 1), Literal 3], [Literal (- 2), Literal (- 3)]],
      literal_context = Map.empty, conf = default_configuration\<rparr>"

definition contradiction_model :: model where
  "contradiction_model =
     \<lparr>literals = [Literal 1], clauses = [[Literal 1], [Literal (- 1)]],
      literal_context = Map.empty, conf = default_configuration\<rparr>"

abbreviation on_lists :: "(var_struct list, clause_struct list) platform" where
  "on_lists \<equiv> list_platform False"

lemma on_lists_platform: "solver_platform on_lists"
  by (rule list_solver.solver_platform_axioms)

lemma example_wf: "wf_model example_model" "wf_model contradiction_model"
  by (simp_all add: wf_model_def example_model_def contradiction_model_def lit_value_def)

lemma example_context:
  "\<exists>ctx. make_solver_context on_lists example_model = Inr ctx"
  "\<exists>ctx. make_solver_context on_lists contradiction_model = Inr ctx"
  unfolding solver_platform.make_solver_context_Inr_iff [OF on_lists_platform]
  by (simp_all add: example_model_def contradiction_model_def declared_def lit_value_def)

lemma default_threshold:
  "k \<le> 25 \<Longrightarrow> unat (threshold_after default_configuration k) = 100 * 2 ^ k"
proof -
  assume k: "k \<le> 25"
  have "(2 :: nat) ^ k \<le> 2 ^ 25" by (rule power_increasing [OF k]) simp
  then have "100 * 2 ^ k < (2 :: nat) ^ 32" by simp
  moreover have "threshold_after default_configuration k = word_of_nat (100 * 2 ^ k)"
    by (simp add: threshold_after_def default_configuration_def)
  ultimately show ?thesis by (simp only: unat_of_nat len_of_numeral_defs) (simp add: take_bit_nat_eq_self)
qed

lemma default_conflicts_before: "k \<le> 26 \<Longrightarrow> conflicts_before default_configuration k = 100 * (2 ^ k - 1)"
proof (induction k)
  case (Suc k)
  then have "conflicts_before default_configuration (Suc k) = 100 * (2 ^ k - 1) + 100 * 2 ^ k"
    using default_threshold [of k] by (simp add: conflicts_before_def)
  then show ?case by simp
qed (simp add: conflicts_before_def)

lemma default_schedule:
  assumes "budget < 100 * (2 ^ 26 - 1)"
  shows "restart_schedule_ok default_configuration budget"
proof (rule restart_schedule_prefix [of 26])
  show "budget < conflicts_before default_configuration 26"
    using default_conflicts_before [of 26] assms by simp
  fix k :: nat assume "k < 26"
  then have "unat (threshold_after default_configuration k) = 100 * 2 ^ k" by (intro default_threshold) simp
  then show "threshold_after default_configuration k \<noteq> 0" by auto
qed

section \<open>From the constructor to the loop\<close>

lemma initial_solving:
  assumes plat: "solver_platform P" and wf: "wf_model m" and lits: "literals m \<noteq> []"
    and mk: "make_solver_context P m = Inr ctx"
    and sched: "restart_schedule_ok (conf m) (3 ^ length (literals m))"
  shows "solving P m (conf m) (3 ^ length (literals m)) ctx"
proof -
  note spec = solver_platform.make_solver_context_spec(4) [OF plat mk]
  have "length (var_ids P ctx) = length (literals m)"
    using arg_cong [OF solver_platform.make_solver_context_literals [OF plat mk], of length] by simp
  then have "card (missing_clauses P ctx) \<le> 3 ^ length (literals m)" using card_missing_le [of P ctx] by simp
  then have "budget_inv P (conf m) (3 ^ length (literals m)) ctx"
    using spec by (auto simp: budget_inv_def threshold_after_def conflicts_before_def intro!: exI [of _ 0])
  then show ?thesis
    using solver_platform.make_solver_context_search_inv [OF plat wf mk] lits sched by (simp add: solving_def)
qed

lemma initial_calm:
  assumes plat: "solver_platform P" and wf: "wf_model m" and lits: "literals m \<noteq> []"
    and mk: "make_solver_context P m = Inr ctx"
    and head: "activity_headroom (conf m) (length (concat (clauses m))) (3 ^ length (literals m))"
  shows "calm_search P m (conf m) (length (concat (clauses m))) (3 ^ length (literals m)) ctx"
proof -
  note spec = solver_platform.make_solver_context_spec(4) [OF plat mk]
  have "length (var_ids P ctx) = length (literals m)"
    using arg_cong [OF solver_platform.make_solver_context_literals [OF plat mk], of length] by simp
  then have "card (missing_clauses P ctx) \<le> 3 ^ length (literals m)" using card_missing_le [of P ctx] by simp
  moreover have "0 \<le> var_activity P ctx v \<and> var_activity P ctx v \<le> int (length (concat (clauses m)))"
    if v: "v \<in> set (var_ids P ctx)" for v
    unfolding solver_platform.make_solver_context_activity [OF plat wf mk v]
    by (simp only: of_nat_0_le_iff of_nat_le_iff length_filter_le simp_thms)
  ultimately have "calm P (conf m) (length (concat (clauses m))) (3 ^ length (literals m)) ctx"
    using spec by (simp add: calm_def activity_bound_def zero_statistics_def)
  then show ?thesis
    using solver_platform.make_solver_context_search_inv [OF plat wf mk] lits head by (simp add: calm_search_def)
qed

lemma correct_outcome_cases:
  assumes "wf_model m" and "outcome_correct P m out" and "fst out \<noteq> Inl Undefined_Behaviour"
  shows "\<exists>res. fst out = Inr res \<and>
    (case res of Inl e \<Rightarrow> e = unsatisfiable \<and> \<not> cnf_satisfiable (clauses m)
     | Inr r \<Rightarrow> is_solution m (result_literals r) \<and>
         cnf_holds (valuation_of (result_literals r)) (clauses m))"
  using assms solution_satisfies by (auto simp: outcome_correct_def split: sum.splits)

lemma default_bounds:
  assumes "conf m = default_configuration" and "length (literals m) \<le> 9"
    and "length (concat (clauses m)) \<le> 10 ^ 9"
  shows "restart_schedule_ok (conf m) (3 ^ length (literals m))"
    and "activity_headroom (conf m) (length (concat (clauses m))) (3 ^ length (literals m))"
proof -
  have n: "(3 :: nat) ^ length (literals m) \<le> 3 ^ 9" by (rule power_increasing [OF assms(2)]) simp
  then show "restart_schedule_ok (conf m) (3 ^ length (literals m))"
    unfolding assms(1) by (intro default_schedule) simp
  have "activity_bound default_configuration (length (concat (clauses m))) (3 ^ length (literals m))
      \<le> activity_bound default_configuration (length (concat (clauses m))) (3 ^ 9)"
    using n by (intro activity_bound_mono) (simp_all add: default_configuration_def)
  also have "\<dots> = (int (length (concat (clauses m))) + 196830) * 11 ^ 196 div 10 ^ 196"
    by (simp add: activity_bound_def default_configuration_def)
  also have "\<dots> \<le> (10 ^ 9 + 196830) * 11 ^ 196 div 10 ^ 196"
    using assms(3) by (intro zdiv_mono1 mult_right_mono) simp_all
  also have "\<dots> < int64_max - 10" by (simp add: int64_max_def)
  finally show "activity_headroom (conf m) (length (concat (clauses m))) (3 ^ length (literals m))"
    unfolding assms(1) by (simp add: activity_headroom_def default_configuration_def)
qed

lemma solve_sat_correct:
  assumes plat: "solver_platform P" and wf: "wf_model m" and lits: "literals m \<noteq> []"
    and mk: "make_solver_context P m = Inr ctx"
    and sched: "restart_schedule_ok (conf m) (3 ^ length (literals m))"
    and head: "activity_headroom (conf m) (length (concat (clauses m))) (3 ^ length (literals m))"
  obtains res ctx' where "solve_sat P ctx = Some (Inr res, ctx')"
    and "case res of
      Inl e \<Rightarrow> e = unsatisfiable \<and> \<not> cnf_satisfiable (clauses m)
    | Inr r \<Rightarrow> is_solution m (result_literals r) \<and> cnf_holds (valuation_of (result_literals r)) (clauses m)"
proof -
  obtain out where out: "solve_sat P ctx = Some out" and ok: "outcome_correct P m out"
    using solving.loop_returns [OF initial_solving [OF plat wf lits mk sched]] unfolding solve_sat_def by blast
  have "fst out \<noteq> Inl Undefined_Behaviour"
    using calm_solving.loop_post [OF out [unfolded solve_sat_def] initial_calm [OF plat wf lits mk head]] by blast
  from correct_outcome_cases [OF wf ok this] out that show thesis by (cases out) auto
qed

section \<open>The solver\<close>

text \<open>
  C1. For a well-formed model with at least one of its \<open>n\<close> variables, whose restart threshold does not
  reach 0 and whose activities do not leave 64 bits within \<open>3 ^ n\<close> conflicts (\<open>restart_schedule_ok\<close>,
  \<open>activity_headroom\<close>), \<open>solve_sat\<close>, started from the context the constructor builds, returns: with
  literals that form a solution of the model and satisfy its clauses, or with \<open>unsatisfiable\<close>, and then no
  valuation satisfies the clauses. Outside this scope it may not return: with a threshold of 0, or without
  variables and clauses, it does not.
\<close>

theorem solve_sat_decides:
  assumes "solver_platform P" and "wf_model m" and "literals m \<noteq> []"
    and "make_solver_context P m = Inr ctx"
    and "restart_schedule_ok (conf m) (3 ^ length (literals m))"
    and "activity_headroom (conf m) (length (concat (clauses m))) (3 ^ length (literals m))"
  shows "\<exists>res ctx'. solve_sat P ctx = Some (Inr res, ctx') \<and>
    (case res of
       Inl e \<Rightarrow> e = unsatisfiable \<and> \<not> cnf_satisfiable (clauses m)
     | Inr r \<Rightarrow> is_solution m (result_literals r) \<and>
         cnf_holds (valuation_of (result_literals r)) (clauses m))"
  using solve_sat_correct [OF assms] by (metis (no_types, lifting))

lemma example_satisfiable: "cnf_satisfiable (clauses example_model)"
  unfolding cnf_satisfiable_def
  by (intro exI [of _ "\<lambda>v. v \<noteq> 2"])
    (simp add: example_model_def cnf_holds_def clause_holds_def lit_holds_def is_on_def is_off_def lit_value_def)

lemma example_unsatisfiable: "\<not> cnf_satisfiable (clauses contradiction_model)"
  by (simp add: contradiction_model_def cnf_satisfiable_def cnf_holds_def clause_holds_def
      lit_holds_def is_on_def is_off_def lit_value_def)

lemma example_headroom:
  "activity_headroom (conf example_model) (length (concat (clauses example_model)))
     (3 ^ length (literals example_model))"
  "activity_headroom (conf contradiction_model) (length (concat (clauses contradiction_model)))
     (3 ^ length (literals contradiction_model))"
  by (simp_all add: example_model_def contradiction_model_def activity_headroom_def activity_bound_def
      default_configuration_def int64_max_def)

lemma example_schedule:
  "restart_schedule_ok (conf example_model) (3 ^ length (literals example_model))"
  "restart_schedule_ok (conf contradiction_model) (3 ^ length (literals contradiction_model))"
  by (simp_all add: example_model_def contradiction_model_def default_schedule)

lemma example_literals: "literals example_model \<noteq> []" "literals contradiction_model \<noteq> []"
  by (simp_all add: example_model_def contradiction_model_def)

theorem solve_sat_decides_witness:
  "(\<exists>ctx r ctx'. make_solver_context on_lists example_model = Inr ctx \<and>
      solve_sat on_lists ctx = Some (Inr (Inr r), ctx') \<and> is_solution example_model (result_literals r)) \<and>
   (\<exists>ctx ctx'. make_solver_context on_lists contradiction_model = Inr ctx \<and>
      solve_sat on_lists ctx = Some (Inr (Inl unsatisfiable), ctx'))"
proof (intro conjI)
  obtain ctx where ctx: "make_solver_context on_lists example_model = Inr ctx" using example_context(1) by blast
  obtain res ctx' where "solve_sat on_lists ctx = Some (Inr res, ctx')"
    and "case res of Inl e \<Rightarrow> e = unsatisfiable \<and> \<not> cnf_satisfiable (clauses example_model)
     | Inr r \<Rightarrow> is_solution example_model (result_literals r) \<and>
         cnf_holds (valuation_of (result_literals r)) (clauses example_model)"
    using solve_sat_decides [OF on_lists_platform example_wf(1) example_literals(1) ctx
        example_schedule(1) example_headroom(1)] by blast
  then show "\<exists>ctx r ctx'. make_solver_context on_lists example_model = Inr ctx \<and>
      solve_sat on_lists ctx = Some (Inr (Inr r), ctx') \<and> is_solution example_model (result_literals r)"
    using ctx example_satisfiable by (cases res) auto
next
  obtain ctx where ctx: "make_solver_context on_lists contradiction_model = Inr ctx" using example_context(2) by blast
  obtain res ctx' where "solve_sat on_lists ctx = Some (Inr res, ctx')"
    and "case res of Inl e \<Rightarrow> e = unsatisfiable \<and> \<not> cnf_satisfiable (clauses contradiction_model)
     | Inr r \<Rightarrow> is_solution contradiction_model (result_literals r) \<and>
         cnf_holds (valuation_of (result_literals r)) (clauses contradiction_model)"
    using solve_sat_decides [OF on_lists_platform example_wf(2) example_literals(2) ctx
        example_schedule(2) example_headroom(2)] by blast
  then show "\<exists>ctx ctx'. make_solver_context on_lists contradiction_model = Inr ctx \<and>
      solve_sat on_lists ctx = Some (Inr (Inl unsatisfiable), ctx')"
    using ctx example_unsatisfiable by (cases res) (auto simp: cnf_satisfiable_def)
qed

text \<open>
  C2. Whatever the configuration, from any context that satisfies the search invariant: if
  \<open>solve_sat\<close> returns, a solution it returns is one, \<open>unsatisfiable\<close> is returned only when no
  valuation satisfies the clauses, no exception is thrown, and the only undefined behaviour it can
  reach is that of the activity update.
\<close>

theorem solve_sat_sound:
  assumes "search_inv P m ctx" and "solve_sat P ctx = Some (out, ctx')"
  shows "(\<forall>r. out = Inr (Inr r) \<longrightarrow> is_solution m (result_literals r)) \<and>
    (\<forall>e. out = Inr (Inl e) \<longrightarrow> e = unsatisfiable \<and> \<not> cnf_satisfiable (clauses m)) \<and>
    (\<forall>e. out = Inl e \<longrightarrow> e = Undefined_Behaviour) \<and>
    (\<forall>res. out = Inr res \<longrightarrow> search_inv P m ctx')"
  using search.loop_post [OF assms(2) [unfolded solve_sat_def] assms(1)]
  by (auto simp: outcome_correct_def split: sum.splits)

lemma example_search_inv:
  "\<exists>ctx. make_solver_context on_lists example_model = Inr ctx \<and> search_inv on_lists example_model ctx"
  using example_context(1) solver_platform.make_solver_context_search_inv [OF on_lists_platform example_wf(1)]
  by blast

lemma example_solving:
  "\<exists>ctx. make_solver_context on_lists example_model = Inr ctx \<and>
     solving on_lists example_model (conf example_model) (3 ^ length (literals example_model)) ctx"
  using example_context(1)
    initial_solving [OF on_lists_platform example_wf(1) example_literals(1) _ example_schedule(1)] by blast

theorem solve_sat_sound_witness:
  "\<exists>ctx out ctx'. search_inv on_lists example_model ctx \<and> solve_sat on_lists ctx = Some (out, ctx') \<and>
     (\<forall>r. out = Inr (Inr r) \<longrightarrow> is_solution example_model (result_literals r))"
proof -
  obtain ctx where s: "solving on_lists example_model (conf example_model) (3 ^ length (literals example_model)) ctx"
    using example_solving by blast
  then have inv: "search_inv on_lists example_model ctx" by (simp add: solving_def)
  obtain out ctx' where "solve_sat on_lists ctx = Some (out, ctx')"
    using solving.loop_returns [OF s] unfolding solve_sat_def by auto
  with inv solve_sat_sound [OF inv this] show ?thesis by blast
qed



text \<open>
  C25. With an odd restart multiplier and a threshold other than 0 the search ends for every well-formed
  model with at least one variable, whatever its size: a multiplication modulo \<open>2 ^ 32\<close> by an odd number
  never gives 0. It ends with a solution, with \<open>unsatisfiable\<close> when there is none, or in undefined
  behaviour, when an activity leaves its 64 bits.
\<close>

theorem solve_sat_returns_odd_multiplier:
  assumes "solver_platform P" and "wf_model m" and "literals m \<noteq> []"
    and "make_solver_context P m = Inr ctx"
    and "odd (restart_multiplier (conf m))" and "restart_threshold (conf m) \<noteq> 0"
  shows "\<exists>out ctx'. solve_sat P ctx = Some (out, ctx') \<and>
    (out = Inl Undefined_Behaviour \<or>
     (out = Inr (Inl unsatisfiable) \<and> \<not> cnf_satisfiable (clauses m)) \<or>
     (\<exists>r. out = Inr (Inr r) \<and> is_solution m (result_literals r)))"
proof -
  obtain out where "solve_sat P ctx = Some out" and "outcome_correct P m out"
    using solving.loop_returns [OF initial_solving [OF assms(1-4) odd_multiplier_schedule [OF assms(5,6)]]]
    unfolding solve_sat_def by blast
  then show ?thesis
    by (intro exI [of _ "fst out"] exI [of _ "snd out"]) (auto simp: outcome_correct_def split: sum.splits)
qed

definition odd_model :: model where
  "odd_model = example_model\<lparr>conf := default_configuration\<lparr>restart_multiplier := 3\<rparr>\<rparr>"

theorem solve_sat_returns_odd_multiplier_witness:
  "\<exists>ctx out ctx'. make_solver_context on_lists odd_model = Inr ctx \<and> solve_sat on_lists ctx = Some (out, ctx')"
proof -
  have wf: "wf_model odd_model" using example_wf(1) by (simp add: odd_model_def wf_model_def)
  have "\<exists>ctx. make_solver_context on_lists odd_model = Inr ctx"
    unfolding solver_platform.make_solver_context_Inr_iff [OF on_lists_platform]
    by (simp add: odd_model_def example_model_def declared_def lit_value_def)
  then obtain ctx where ctx: "make_solver_context on_lists odd_model = Inr ctx" by blast
  have "\<exists>out ctx'. solve_sat on_lists ctx = Some (out, ctx') \<and>
    (out = Inl Undefined_Behaviour \<or>
     (out = Inr (Inl unsatisfiable) \<and> \<not> cnf_satisfiable (clauses odd_model)) \<or>
     (\<exists>r. out = Inr (Inr r) \<and> is_solution odd_model (result_literals r)))"
    by (rule solve_sat_returns_odd_multiplier [OF on_lists_platform wf _ ctx])
      (simp_all add: odd_model_def example_model_def default_configuration_def)
  with ctx show ?thesis by blast
qed

lemma no_literals_stuck:
  assumes "solver_platform P" and "make_solver_context P m = Inr ctx" and "literals m = []" and "clauses m = []"
  shows "solve_sat P ctx = None"
proof -
  have "map (var_lit P ctx) (var_ids P ctx) = []"
    using solver_platform.make_solver_context_literals [OF assms(1,2)] assms(3) by simp
  moreover have "map (\<lambda>c. map fst (lits_of P ctx c)) (clause_ids P ctx) = []"
    using solver_platform.make_solver_context_db [OF assms(1,2)] assms(4) by simp
  ultimately have "idle P ctx"
    using solver_platform.make_solver_context_spec(4) [OF assms(1,2)] by (simp add: idle_def)
  then show ?thesis unfolding solve_sat_def by (rule idling.loop_diverges)
qed

text \<open>
  For a model without literals the loop of \<open>solve_sat\<close> never ends: the empty solution it finds in
  every round is what the loop condition takes for no solution.
\<close>

theorem solve_sat_no_literals_diverges:
  assumes "solver_platform P" and "make_solver_context P m = Inr ctx" and "literals m = []" and "clauses m = []"
  shows "solve_sat P ctx = None"
  by (rule no_literals_stuck [OF assms])

definition empty_model :: "configuration \<Rightarrow> literal list \<Rightarrow> model" where
  "empty_model cf ls = \<lparr>literals = ls, clauses = [], literal_context = Map.empty, conf = cf\<rparr>"

lemma empty_model_context: "\<exists>ctx. make_solver_context on_lists (empty_model cf ls) = Inr ctx"
  unfolding solver_platform.make_solver_context_Inr_iff [OF on_lists_platform] by (simp add: empty_model_def)

theorem solve_sat_no_literals_diverges_witness:
  "\<exists>ctx. make_solver_context on_lists (empty_model default_configuration []) = Inr ctx \<and> solve_sat on_lists ctx = None"
  using empty_model_context [of default_configuration "[]"]
    solve_sat_no_literals_diverges [OF on_lists_platform, of "empty_model default_configuration []"]
  by (auto simp: empty_model_def)

text \<open>
  With a restart threshold of 0 the solver does not return on a model without clauses: every
  round restarts and undoes the decision of the round before. The default schedule reaches this
  threshold after thirty restarts, \<open>100 * 2 ^ 30\<close> being 0 modulo \<open>2 ^ 32\<close>.
\<close>

theorem solve_sat_zero_threshold_diverges:
  assumes "solver_platform P" and "wf_model m" and "make_solver_context P m = Inr ctx"
    and "literals m \<noteq> []" and "clauses m = []"
    and "restart_threshold (conf m) = threshold_after default_configuration 30"
  shows "solve_sat P ctx = None"
proof -
  have zero: "threshold_after default_configuration 30 = 0"
    by (simp add: threshold_after_def default_configuration_def)
  have "map (\<lambda>c. map fst (lits_of P ctx c)) (clause_ids P ctx) = []"
    using solver_platform.make_solver_context_db [OF assms(1,3)] assms(5) by simp
  moreover have "map (var_lit P ctx) (var_ids P ctx) \<noteq> []"
    using solver_platform.make_solver_context_literals [OF assms(1,3)] assms(4) by simp
  moreover have "solver_inv P [] ctx"
    using solver_platform.make_solver_context_search_inv [OF assms(1-3)] assms(5) by (simp add: search_inv_def)
  ultimately have "restarting P ctx"
    using solver_platform.make_solver_context_spec(4) [OF assms(1,3)] assms(1,6) zero
    by (simp add: restarting_def)
  then show ?thesis unfolding solve_sat_def by (rule restarting.loop_diverges)
qed

theorem solve_sat_zero_threshold_diverges_witness:
  "\<exists>ctx. make_solver_context on_lists
      (empty_model (default_configuration\<lparr>restart_threshold := 0\<rparr>) [Literal 1]) = Inr ctx \<and>
     solve_sat on_lists ctx = None"
proof -
  let ?m = "empty_model (default_configuration\<lparr>restart_threshold := 0\<rparr>) [Literal 1]"
  obtain ctx where ctx: "make_solver_context on_lists ?m = Inr ctx" using empty_model_context by blast
  have "solve_sat on_lists ctx = None"
    by (rule solve_sat_zero_threshold_diverges [OF on_lists_platform _ ctx])
      (simp_all add: empty_model_def wf_model_def threshold_after_def default_configuration_def)
  with ctx show ?thesis by blast
qed

text \<open>
  A call of \<open>solve(k)\<close> that finds a solution returns \<open>k\<close> copies of it: nothing excludes a
  solution that was found. An unsatisfiable model gives no result.
\<close>

theorem solve_repeats:
  assumes "solver_platform P" and "wf_model m" and "literals m \<noteq> []"
    and "make_solver_context P m = Inr ctx" and "0 < k"
    and "restart_schedule_ok (conf m) (3 ^ length (literals m))"
    and "activity_headroom (conf m) (length (concat (clauses m))) (3 ^ length (literals m))"
  shows "\<exists>res ctx'. solve P ctx k = Some (Inr res, ctx') \<and>
    (if cnf_satisfiable (clauses m)
     then \<exists>r. res = replicate (nat k) r \<and> is_solution m (result_literals r)
     else res = [])"
proof -
  note init = initial_solving [OF assms(1-4,6)]
  obtain out where out: "solve_sat P ctx = Some out" and ok: "outcome_correct P m out"
    using solving.loop_returns [OF init] unfolding solve_sat_def by blast
  have kept: "solution_kept P out" using kept.loop_post [OF out [unfolded solve_sat_def] init] .
  have "fst out \<noteq> Inl Undefined_Behaviour"
    using calm_solving.loop_post [OF out [unfolded solve_sat_def] initial_calm [OF assms(1-4,7)]] by blast
  from correct_outcome_cases [OF assms(2) ok this] obtain res where res: "fst out = Inr res"
    and c: "case res of Inl e \<Rightarrow> e = unsatisfiable \<and> \<not> cnf_satisfiable (clauses m)
      | Inr r \<Rightarrow> is_solution m (result_literals r) \<and> cnf_holds (valuation_of (result_literals r)) (clauses m)"
    by blast
  obtain n where k: "nat k = Suc n" using assms(5) by (cases "nat k") simp_all
  obtain ctx1 where o: "out = (Inr res, ctx1)" using res by (cases out) simp
  show ?thesis
  proof (cases res)
    case (Inl e)
    then have "solve P ctx k = Some (Inr [], ctx1)" by (simp add: solve_def k out o)
    then show ?thesis using c Inl by simp
  next
    case (Inr r)
    then obtain r0 where "solution_found P r0 ctx1 r"
      and "conflict_count_since_last_restart ctx1 < unat (restart_threshold (config ctx1))"
      using kept by (auto simp: solution_kept_def o)
    then have "solve P ctx k = Some (Inr (replicate (nat k) r), ctx1)"
      using Inr by (simp add: solve_def k out o solve_times_again)
    moreover have "cnf_satisfiable (clauses m)" using c Inr by (auto simp: cnf_satisfiable_def)
    ultimately show ?thesis using c Inr by auto
  qed
qed

theorem solve_repeats_witness:
  "\<exists>ctx r ctx'. make_solver_context on_lists example_model = Inr ctx \<and>
     solve on_lists ctx 2 = Some (Inr [r, r], ctx') \<and> is_solution example_model (result_literals r)"
proof -
  obtain ctx where ctx: "make_solver_context on_lists example_model = Inr ctx" using example_context(1) by blast
  have "\<exists>res ctx'. solve on_lists ctx 2 = Some (Inr res, ctx') \<and>
    (if cnf_satisfiable (clauses example_model)
     then \<exists>r. res = replicate (nat 2) r \<and> is_solution example_model (result_literals r)
     else res = [])"
    by (rule solve_repeats [OF on_lists_platform example_wf(1) example_literals(1) ctx _
        example_schedule(1) example_headroom(1)]) simp
  then show ?thesis using ctx example_satisfiable by (auto simp: numeral_2_eq_2)
qed

text \<open>The default argument of \<open>solve\<close> asks for no solution: the result is empty, whatever the model.\<close>

theorem solve_default_returns_nothing:
  "solve P ctx default_expected = Some (Inr [], ctx)"
  by (simp add: solve_def default_expected_def)

section \<open>The functions of the solver\<close>

text \<open>
  C6. Unit propagation returns, for every context that satisfies the invariant, and keeps it. It
  either reports a clause all literals of which are falsified, or leaves every clause satisfied or
  with at least two unassigned literals.
\<close>

theorem unit_propagation_complete:
  assumes "solver_platform P" and "solver_inv P F ctx"
  shows "\<exists>conflict ctx'. unit_propagation P ctx = Some (conflict, ctx') \<and> solver_inv P F ctx' \<and>
    search_frame P ctx ctx' \<and>
    (case conflict of
       Some c \<Rightarrow> c \<in> set (clause_ids P ctx') \<and> has_conflict P ctx' (soa_clause (clause_at P ctx' c))
     | None \<Rightarrow> \<forall>c\<in>set (clause_ids P ctx').
         is_clause_satisfied P ctx' (soa_clause (clause_at P ctx' c)) \<or>
         2 \<le> length (unassigned_pairs P ctx' c))"
proof -
  obtain conflict ctx' where "unit_propagation P ctx = Some (conflict, ctx')"
    and "propagation_done P F ctx (conflict, ctx')"
    using unit_propagation_done [OF assms] by (metis prod.exhaust)
  then show ?thesis
    by (intro exI [of _ conflict] exI [of _ ctx'])
      (auto simp: propagation_done_def propagation_from_def all_falsified_def settled_def
        has_conflict_def list_all_iff split: option.splits)
qed

theorem unit_propagation_complete_witness:
  "\<exists>ctx conflict ctx'. make_solver_context on_lists contradiction_model = Inr ctx \<and>
     unit_propagation on_lists ctx = Some (conflict, ctx') \<and>
     solver_inv on_lists (clauses contradiction_model) ctx'"
proof -
  obtain ctx where ctx: "make_solver_context on_lists contradiction_model = Inr ctx" using example_context(2) by blast
  have "solver_inv on_lists (clauses contradiction_model) ctx"
    using solver_platform.make_solver_context_search_inv [OF on_lists_platform example_wf(2) ctx]
    by (simp add: search_inv_def)
  from unit_propagation_complete [OF on_lists_platform this] ctx show ?thesis by blast
qed

text \<open>
  C5. Resolving a falsified clause never reads outside the trail. The learned clause follows from
  the model, has all its literals falsified and its variables in increasing order; above level 0 it
  has exactly one literal of the current level, the level to backtrack to is lower, and no clause of
  the database has the same literals.
\<close>

theorem resolve_conflict_learns:
  assumes "solver_inv P F ctx" and "c \<in> set (clause_ids P ctx)"
    and "has_conflict P ctx (soa_clause (clause_at P ctx c))"
  shows "\<exists>r. resolve_conflict P ctx c = Inr r \<and>
    (\<forall>\<sigma>. cnf_holds \<sigma> F \<longrightarrow> clause_holds \<sigma> (map fst (get_literals (learned_clause r)))) \<and>
    has_conflict P ctx (learned_clause r) \<and>
    sorted_wrt (<) (map (\<lambda>p. lit_value (fst p)) (get_literals (learned_clause r))) \<and>
    (0 < current_decision_level ctx \<longrightarrow>
       backtrack_level r < current_decision_level ctx \<and>
       length (filter (\<lambda>p. at_current_level P ctx (snd p)) (get_literals (learned_clause r))) = 1 \<and>
       (\<forall>d\<in>set (clause_ids P ctx). map fst (lits_of P ctx d) \<noteq> map fst (get_literals (learned_clause r))))"
proof -
  have c: "all_falsified P ctx c"
    using assms(2,3) by (simp add: all_falsified_def has_conflict_def list_all_iff)
  obtain r where r: "resolve_conflict P ctx c = Inr r" and ok: "learned_ok P F ctx r"
    using resolve_conflict_learned [OF assms(1) c] by blast
  show ?thesis
    using r ok learned_ok_level(2) [OF ok] learned_new [OF assms(1) ok]
    by (intro exI [of _ r])
      (auto simp: learned_ok_def Let_def entailed_def falsified_pairs_def has_conflict_def list_all_iff)
qed

lemma unit_conflict:
  "\<exists>ctx c. solver_inv on_lists (clauses contradiction_model) ctx \<and> c \<in> set (clause_ids on_lists ctx) \<and>
     has_conflict on_lists ctx (soa_clause (clause_at on_lists ctx c))"
proof -
  obtain ctx0 where ctx0: "make_solver_context on_lists contradiction_model = Inr ctx0"
    using example_context(2) by blast
  have inv: "solver_inv on_lists (clauses contradiction_model) ctx0"
    using solver_platform.make_solver_context_search_inv [OF on_lists_platform example_wf(2) ctx0]
    by (simp add: search_inv_def)
  from unit_propagation_done [OF on_lists_platform this] obtain conflict ctx where
    "unit_propagation on_lists ctx0 = Some (conflict, ctx)"
    and don: "propagation_done on_lists (clauses contradiction_model) ctx0 (conflict, ctx)" by auto
  then have inv1: "solver_inv on_lists (clauses contradiction_model) ctx"
    and frame: "search_frame on_lists ctx0 ctx"
    by (simp_all add: propagation_done_def propagation_from_def)
  have db: "map (\<lambda>c. map fst (lits_of on_lists ctx c)) (clause_ids on_lists ctx) = [[Literal 1], [Literal (- 1)]]"
    using solver_platform.make_solver_context_db [OF on_lists_platform ctx0] frame
    by (simp add: search_frame_def contradiction_model_def)
  have vals: "var_values on_lists ctx = [1]"
    using solver_platform.make_solver_context_search_inv [OF on_lists_platform example_wf(2) ctx0]
      search_base_values [OF search_frame_base [OF frame]]
    by (simp add: search_inv_def contradiction_model_def lit_value_def)
  have "conflict \<noteq> None"
  proof
    assume none: "conflict = None"
    have "is_clause_satisfied on_lists ctx (soa_clause (clause_at on_lists ctx c))"
      if c: "c \<in> set (clause_ids on_lists ctx)" for c
    proof -
      have "map fst (lits_of on_lists ctx c) \<in> set [[Literal 1], [Literal (- 1)]]"
        unfolding db [symmetric] using c by simp
      then have "length (lits_of on_lists ctx c) = 1" by (auto dest: arg_cong [where f = length])
      then have "length (unassigned_pairs on_lists ctx c) \<le> 1"
        unfolding unassigned_pairs_def by (metis length_filter_le)
      then show ?thesis using don none c by (auto simp: propagation_done_def settled_def)
    qed
    then have "solves on_lists (clauses contradiction_model) ctx (extract_solution on_lists ctx)"
      using extract_solution_solves [OF inv1] by blast
    then show False
      using vals by (auto simp: solves_def contradiction_model_def lit_value_def)
  qed
  then obtain d where "conflict = Some d" by auto
  then show ?thesis
    using don inv1
    by (intro exI [of _ ctx] exI [of _ d])
      (auto simp: propagation_done_def all_falsified_def has_conflict_def list_all_iff)
qed

theorem resolve_conflict_learns_witness:
  "\<exists>ctx c r. has_conflict on_lists ctx (soa_clause (clause_at on_lists ctx c)) \<and>
     resolve_conflict on_lists ctx c = Inr r \<and> has_conflict on_lists ctx (learned_clause r)"
proof -
  obtain ctx c where conflict: "solver_inv on_lists (clauses contradiction_model) ctx" "c \<in> set (clause_ids on_lists ctx)"
    "has_conflict on_lists ctx (soa_clause (clause_at on_lists ctx c))"
    using unit_conflict by blast
  from resolve_conflict_learns [OF conflict] conflict show ?thesis by blast
qed

text \<open>
  C18. Backtracking to a level unassigns exactly the variables of the trail assigned above it, cuts
  the trail there and keeps everything else; it keeps the invariant.
\<close>

theorem backtrack_undoes:
  assumes "solver_platform P" and "solver_inv P F ctx" and "level \<le> current_decision_level ctx"
  shows "solver_inv P F (backtrack P ctx level) \<and>
    current_decision_level (backtrack P ctx level) = level \<and>
    clauses_soa (backtrack P ctx level) = clauses_soa ctx \<and>
    (\<forall>v\<in>set (var_ids P ctx). var_at P (backtrack P ctx level) v =
       (if v \<in> set (trail ctx) \<and> level < var_level P ctx v then unassign (var_at P ctx v)
        else var_at P ctx v)) \<and>
    trail (backtrack P ctx level) = takeWhile (\<lambda>v. var_level P ctx v \<le> level) (trail ctx)"
proof -
  note b = solver_platform.backtrack_backtracked [OF assms(1) solver_invD(2) [OF assms(2)], of level]
  obtain undone where tr: "trail ctx = trail (backtrack P ctx level) @ undone"
    and out: "\<forall>v\<in>set undone. level < var_level P ctx v"
    and kept: "\<forall>v\<in>set (trail (backtrack P ctx level)). var_level P ctx v \<le> level"
    using b(1) by (auto simp: backtracked_def)
  have "takeWhile (\<lambda>v. var_level P ctx v \<le> level) undone = []"
    using out by (cases undone) auto
  then have "takeWhile (\<lambda>v. var_level P ctx v \<le> level) (trail ctx) = trail (backtrack P ctx level)"
    using kept by (subst tr) (simp add: takeWhile_append2)
  then show ?thesis
    using b solver_platform.backtrack_solver_inv [OF assms] by (simp add: backtracked_def)
qed

theorem backtrack_undoes_witness:
  "\<exists>ctx. make_solver_context on_lists example_model = Inr ctx \<and>
     solver_inv on_lists (clauses example_model) (backtrack on_lists ctx 0)"
proof -
  obtain ctx where ctx: "make_solver_context on_lists example_model = Inr ctx"
    and "search_inv on_lists example_model ctx" using example_search_inv by blast
  then have "solver_inv on_lists (clauses example_model) ctx" by (simp add: search_inv_def)
  from backtrack_undoes [OF on_lists_platform this, of 0] ctx show ?thesis by blast
qed



text \<open>
  C19. A decision takes an unassigned variable of greatest activity, sets it to \<open>on\<close> on a new
  level, and keeps the invariant when unit propagation left no clause to propagate; without
  unassigned variables it does nothing.
\<close>

theorem make_decision_picks_most_active:
  assumes "solver_platform P" and "solver_inv P F ctx"
    and "\<forall>c\<in>set (clause_ids P ctx). is_clause_satisfied P ctx (soa_clause (clause_at P ctx c)) \<or>
      2 \<le> length (unassigned_pairs P ctx c)"
  shows "(unassigned_vars P ctx = [] \<and> make_decision P ctx = (False, ctx)) \<or>
    (\<exists>v ctx'. make_decision P ctx = (True, ctx') \<and> v \<in> set (unassigned_vars P ctx) \<and>
       (\<forall>u\<in>set (unassigned_vars P ctx). var_activity P ctx u \<le> var_activity P ctx v) \<and>
       var_val P ctx' v = on \<and> trail ctx' = trail ctx @ [v] \<and>
       current_decision_level ctx' = current_decision_level ctx + 1 \<and> solver_inv P F ctx')"
proof (cases rule: make_decision_cases [of P ctx])
  case none
  then show ?thesis by simp
next
  case (decided v)
  have settled: "\<forall>c\<in>set (clause_ids P ctx). settled P ctx c" using assms(3) by (simp add: settled_def)
  have v: "v \<in> set (var_ids P ctx)" using decided(2) by (simp add: unassigned_vars_def)
  have "var_val P (assign_decision P ctx v) v = on"
    using solver_platform.set_var_simps(2) [OF assms(1), of v _ v] v by (simp add: assign_decision_def Let_def set_var_def)
  then show ?thesis
    using decided solver_platform.decision_solver_inv(1) [OF assms(1,2) settled decided(2)]
    by (intro disjI2 exI [of _ v] exI [of _ "assign_decision P ctx v"])
      (simp add: assign_decision_def Let_def set_var_def)
qed

theorem make_decision_picks_most_active_witness:
  "\<exists>ctx v ctx'. make_solver_context on_lists example_model = Inr ctx \<and>
     make_decision on_lists ctx = (True, ctx') \<and> trail ctx' = [v] \<and> var_val on_lists ctx' v = on"
proof -
  obtain ctx where ctx: "make_solver_context on_lists example_model = Inr ctx"
    and s: "search_inv on_lists example_model ctx" using example_search_inv by blast
  then have inv: "solver_inv on_lists (clauses example_model) ctx" by (simp add: search_inv_def)
  note spec = solver_platform.make_solver_context_spec(4) [OF on_lists_platform ctx]
  have un: "var_val on_lists ctx v = not_assigned" if "v \<in> set (var_ids on_lists ctx)" for v
    using solver_platform.make_solver_context_var(2) [OF on_lists_platform ctx that] by simp
  have "length (unassigned_pairs on_lists ctx c) = 2" if c: "c \<in> set (clause_ids on_lists ctx)" for c
  proof -
    have "map fst (lits_of on_lists ctx c) \<in> set (clauses example_model)"
      using c solver_platform.make_solver_context_db [OF on_lists_platform ctx, symmetric] by simp
    then have "length (lits_of on_lists ctx c) = 2"
      by (auto simp: example_model_def dest: arg_cong [where f = length])
    moreover have "unassigned_pairs on_lists ctx c = lits_of on_lists ctx c"
      unfolding unassigned_pairs_def filter_id_conv
      using un linked_var [OF solver_invD(1) [OF inv] c] by blast
    ultimately show ?thesis by simp
  qed
  then have "\<forall>c\<in>set (clause_ids on_lists ctx).
      is_clause_satisfied on_lists ctx (soa_clause (clause_at on_lists ctx c)) \<or>
      2 \<le> length (unassigned_pairs on_lists ctx c)" by simp
  moreover have "length (var_ids on_lists ctx) = 3"
    using arg_cong [OF solver_platform.make_solver_context_literals [OF on_lists_platform ctx], of length]
    by (simp add: example_model_def)
  then have "unassigned_vars on_lists ctx \<noteq> []"
    using un by (auto simp: unassigned_vars_def filter_empty_conv)
  ultimately show ?thesis
    using make_decision_picks_most_active [OF on_lists_platform inv] ctx spec by auto
qed

text \<open>
  C20. A restart happens exactly when the conflicts counted reach the threshold: the counter becomes
  0, the threshold is multiplied modulo \<open>2 ^ 32\<close>, the search goes back to level 0, where only
  consequences of the model are assigned, and the invariant is kept.
\<close>

theorem restart_if_needed_restarts:
  assumes "solver_platform P" and "solver_inv P F ctx"
  shows "solver_inv P F (restart_if_needed P ctx) \<and>
    (if unat (restart_threshold (config ctx)) \<le> conflict_count_since_last_restart ctx
     then conflict_count_since_last_restart (restart_if_needed P ctx) = 0 \<and>
       unat (restart_threshold (config (restart_if_needed P ctx))) =
         unat (restart_threshold (config ctx)) * unat (restart_multiplier (config ctx)) mod 2 ^ 32 \<and>
       current_decision_level (restart_if_needed P ctx) = 0 \<and>
       (\<forall>v\<in>set (trail (restart_if_needed P ctx)). var_level P (restart_if_needed P ctx) v = 0 \<and>
          is_propagated (soa_assignment_ctx (var_at P (restart_if_needed P ctx) v)))
     else restart_if_needed P ctx = ctx)"
proof -
  let ?r = "restart_if_needed P ctx"
  have inv: "solver_inv P F ?r" by (rule solver_platform.restart_solver_inv [OF assms])
  show ?thesis
  proof (cases "unat (restart_threshold (config ctx)) \<le> conflict_count_since_last_restart ctx")
    case True
    have zero: "current_decision_level ?r = 0" using True by (simp add: restart_if_needed_def Let_def backtrack_def)
    have "var_level P ?r v = 0 \<and> var_reason P ?r v \<noteq> None" if v: "v \<in> set (trail ?r)" for v
    proof -
      note tr = solver_invD(2) [OF inv]
      have lvl: "var_level P ?r v = 0" using trail_invD(4) [OF tr v] zero by simp
      obtain pre post where "trail ?r = pre @ v # post" using split_list [OF v] by blast
      then have "justified P ?r pre v" by (rule trail_invD(6) [OF tr])
      then show ?thesis using lvl by (cases "var_reason P ?r v") (simp_all add: justified_def)
    qed
    moreover have "restart_threshold (config ?r) = restart_threshold (config ctx) * restart_multiplier (config ctx)"
      and "conflict_count_since_last_restart ?r = 0"
      using True by (simp_all add: restart_if_needed_def Let_def backtrack_config)
    ultimately show ?thesis
      using True inv zero by (simp add: is_propagated_def unat_word_ariths)
  qed (simp_all add: restart_if_needed_def assms(2))
qed

theorem restart_if_needed_restarts_witness:
  "\<exists>ctx. make_solver_context on_lists example_model = Inr ctx \<and>
     solver_inv on_lists (clauses example_model) (restart_if_needed on_lists ctx)"
proof -
  obtain ctx where ctx: "make_solver_context on_lists example_model = Inr ctx"
    and "search_inv on_lists example_model ctx" using example_search_inv by blast
  then have "solver_inv on_lists (clauses example_model) ctx" by (simp add: search_inv_def)
  from restart_if_needed_restarts [OF on_lists_platform this] ctx show ?thesis by blast
qed

section \<open>The constructor\<close>

text \<open>
  C21. The context built for a well-formed model satisfies the search invariant: its variables carry
  the literals of the model in order, unassigned, its clauses are the clauses of the model, the
  trail is empty, and the activity of a variable is the number of its occurrences.
\<close>

theorem make_solver_context_establishes:
  assumes "solver_platform P" and "wf_model m" and "make_solver_context P m = Inr ctx"
  shows "search_inv P m ctx \<and> map (var_lit P ctx) (var_ids P ctx) = literals m \<and>
    map (\<lambda>c. map fst (lits_of P ctx c)) (clause_ids P ctx) = clauses m \<and>
    trail ctx = [] \<and> config ctx = conf m \<and>
    (\<forall>v\<in>set (var_ids P ctx). var_val P ctx v = not_assigned \<and>
       var_activity P ctx v = int (length (filter (\<lambda>l. lit_eq l (var_lit P ctx v)) (concat (clauses m)))))"
  using solver_platform.make_solver_context_search_inv [OF assms]
    solver_platform.make_solver_context_literals [OF assms(1,3)]
    solver_platform.make_solver_context_db [OF assms(1,3)]
    solver_platform.make_solver_context_spec(4) [OF assms(1,3)]
    solver_platform.make_solver_context_var(2) [OF assms(1,3)]
    solver_platform.make_solver_context_activity [OF assms]
  by blast

theorem make_solver_context_establishes_witness:
  "\<exists>ctx. make_solver_context on_lists example_model = Inr ctx \<and> search_inv on_lists example_model ctx \<and>
     map (var_lit on_lists ctx) (var_ids on_lists ctx) = [Literal 1, Literal 2, Literal 3]"
proof -
  obtain ctx where ctx: "make_solver_context on_lists example_model = Inr ctx" using example_context(1) by blast
  from make_solver_context_establishes [OF on_lists_platform example_wf(1) ctx] ctx show ?thesis
    by (auto simp: example_model_def)
qed

text \<open>
  C22. The constructor, on every model. It succeeds exactly when every clause literal names a declared
  variable and, unless compiled with \<open>NDEBUG\<close>, no clause is empty. Otherwise the first clause in the
  order of the model that is empty or has an undeclared literal decides the error: the constructor throws
  \<open>fabko::exception\<close> with code 42 and the message for an empty clause or for an undeclared literal; with
  \<open>NDEBUG\<close>, where only an undeclared literal is an error, it dereferences the end iterator.
\<close>

theorem make_solver_context_succeeds_iff:
  assumes "solver_platform P"
  shows "((\<exists>ctx. make_solver_context P m = Inr ctx) \<longleftrightarrow>
      (\<forall>c\<in>set (clauses m). (ndebug P \<or> c \<noteq> []) \<and>
         (\<forall>l\<in>set c. \<exists>d\<in>set (literals m). lit_eq l d))) \<and>
    (\<forall>before c after. clauses m = before @ c # after \<longrightarrow>
      (\<forall>b\<in>set before. (ndebug P \<or> b \<noteq> []) \<and> (\<forall>l\<in>set b. \<exists>d\<in>set (literals m). lit_eq l d)) \<longrightarrow>
      \<not> ((ndebug P \<or> c \<noteq> []) \<and> (\<forall>l\<in>set c. \<exists>d\<in>set (literals m). lit_eq l d)) \<longrightarrow>
      make_solver_context P m =
        Inl (if ndebug P then Undefined_Behaviour
             else Fabko_Thrown \<lparr>ec = \<lparr>ec_value = 42, ec_category = Fbk_Category\<rparr>,
               what = (if c = [] then ''Cannot make a clause watchers over an empty clause''
                       else ''a clause cannot contains a non-defined literal'')\<rparr>))"
proof (intro conjI allI impI)
  have declared: "declared m l \<longleftrightarrow> (\<exists>d\<in>set (literals m). lit_eq l d)" for l
    by (auto simp: declared_def lit_eq_iff)
  have refused: "clause_refused (ndebug P) (declared m) c \<longleftrightarrow>
      \<not> ((ndebug P \<or> c \<noteq> []) \<and> (\<forall>l\<in>set c. \<exists>d\<in>set (literals m). lit_eq l d))" for c
    by (auto simp: clause_refused_def list_all_iff declared)
  show "(\<exists>ctx. make_solver_context P m = Inr ctx) \<longleftrightarrow>
      (\<forall>c\<in>set (clauses m). (ndebug P \<or> c \<noteq> []) \<and>
         (\<forall>l\<in>set c. \<exists>d\<in>set (literals m). lit_eq l d))"
    using solver_platform.make_solver_context_Inr_iff [OF assms, of m] declared by auto
  fix before c after
  assume m: "clauses m = before @ c # after"
    and before: "\<forall>b\<in>set before. (ndebug P \<or> b \<noteq> []) \<and> (\<forall>l\<in>set b. \<exists>d\<in>set (literals m). lit_eq l d)"
    and c: "\<not> ((ndebug P \<or> c \<noteq> []) \<and> (\<forall>l\<in>set c. \<exists>d\<in>set (literals m). lit_eq l d))"
  have "find (clause_refused (ndebug P) (declared m)) (clauses m) = Some c"
    unfolding m by (rule find_first) (use before c in \<open>unfold refused not_not, fast+\<close>)
  from solver_platform.make_solver_context_Inl [OF assms this]
  show "make_solver_context P m =
        Inl (if ndebug P then Undefined_Behaviour
             else Fabko_Thrown \<lparr>ec = \<lparr>ec_value = 42, ec_category = Fbk_Category\<rparr>,
               what = (if c = [] then ''Cannot make a clause watchers over an empty clause''
                       else ''a clause cannot contains a non-defined literal'')\<rparr>)"
    by (simp add: clause_fault_def)
qed

theorem make_solver_context_succeeds_iff_witness:
  "(\<exists>ctx. make_solver_context on_lists example_model = Inr ctx) \<and>
   make_solver_context on_lists (example_model\<lparr>clauses := [[Literal 1], [Literal 2, Literal 4], []]\<rparr>) =
     Inl (Fabko_Thrown \<lparr>ec = \<lparr>ec_value = 42, ec_category = Fbk_Category\<rparr>,
            what = ''a clause cannot contains a non-defined literal''\<rparr>) \<and>
   make_solver_context on_lists (example_model\<lparr>clauses := [[Literal 1], [], [Literal 4]]\<rparr>) =
     Inl (Fabko_Thrown \<lparr>ec = \<lparr>ec_value = 42, ec_category = Fbk_Category\<rparr>,
            what = ''Cannot make a clause watchers over an empty clause''\<rparr>)"
proof (intro conjI)
  show "\<exists>ctx. make_solver_context on_lists example_model = Inr ctx"
    using make_solver_context_succeeds_iff [OF on_lists_platform, of example_model]
    by (simp add: example_model_def lit_eq_def)
  show "make_solver_context on_lists (example_model\<lparr>clauses := [[Literal 1], [Literal 2, Literal 4], []]\<rparr>) =
     Inl (Fabko_Thrown \<lparr>ec = \<lparr>ec_value = 42, ec_category = Fbk_Category\<rparr>,
            what = ''a clause cannot contains a non-defined literal''\<rparr>)"
    using conjunct2 [OF make_solver_context_succeeds_iff [OF on_lists_platform,
        of "example_model\<lparr>clauses := [[Literal 1], [Literal 2, Literal 4], []]\<rparr>"],
        rule_format, of "[[Literal 1]]" "[Literal 2, Literal 4]" "[[]]"]
    by (simp add: example_model_def lit_eq_def)
  show "make_solver_context on_lists (example_model\<lparr>clauses := [[Literal 1], [], [Literal 4]]\<rparr>) =
     Inl (Fabko_Thrown \<lparr>ec = \<lparr>ec_value = 42, ec_category = Fbk_Category\<rparr>,
            what = ''Cannot make a clause watchers over an empty clause''\<rparr>)"
    using conjunct2 [OF make_solver_context_succeeds_iff [OF on_lists_platform,
        of "example_model\<lparr>clauses := [[Literal 1], [], [Literal 4]]\<rparr>"],
        rule_format, of "[[Literal 1]]" "[]" "[[Literal 4]]"]
    by (simp add: example_model_def lit_eq_def)
qed

section \<open>Activities and watchers\<close>

text \<open>
  C26. Rewarding the variables of a learned clause never overflows: with activities in 64 bits and
  an \<open>int32_t\<close> increment, the additions succeed because an activity that could overflow is scaled
  down first. Between two decays every variable of the clause gains the increment, others nothing.
\<close>

theorem update_vsids_activity_adds:
  assumes "solver_platform P" and "0 \<le> vsids_increment (config ctx)" and "vsids_increment (config ctx) < 2 ^ 31"
    and "distinct (map snd (get_literals L))" and "snd ` set (get_literals L) \<subseteq> set (var_ids P ctx)"
    and "\<forall>v\<in>set (var_ids P ctx). 0 \<le> var_activity P ctx v \<and> var_activity P ctx v \<le> int64_max"
    and "0 < decay_interval (config ctx)" and "decay_interval (config ctx) < 2 ^ 31"
    and "conflicts (stats ctx) mod nat (decay_interval (config ctx)) \<noteq> 0"
  shows "\<exists>ctx'. update_vsids_activity P ctx L = Inr ctx' \<and>
    (needs_normalization P ctx L \<or>
     (\<forall>v\<in>set (var_ids P ctx). var_activity P ctx' v =
        var_activity P ctx v + (if v \<in> snd ` set (get_literals L) then vsids_increment (config ctx) else 0)))"
proof -
  obtain vs1 vs2 where norm: "normalize_activities P ctx L = Inr vs1"
    and bump: "update_activities P (add_activity (vsids_increment (config ctx))) (map snd (get_literals L)) vs1 = Inr vs2"
    using solver_platform.bump_activities_Inr [OF assms(1-6)] by blast
  have "nat (decay_interval (config ctx) mod 2 ^ 64) = nat (decay_interval (config ctx))"
    using assms(7,8) by simp
  then have "decay_activities P ctx vs2 = Inr vs2"
    using assms(7,9) by (simp add: decay_activities_def Let_def)
  then have upd: "update_vsids_activity P ctx L = Inr (ctx\<lparr>vars_soa := vs2\<rparr>)"
    by (simp add: update_vsids_activity_def norm bump)
  have "var_activity P (ctx\<lparr>vars_soa := vs2\<rparr>) v =
      var_activity P ctx v + (if v \<in> snd ` set (get_literals L) then vsids_increment (config ctx) else 0)"
    if calm: "\<not> needs_normalization P ctx L" and v: "v \<in> set (var_ids P ctx)" for v
  proof -
    have vs1: "vs1 = vars_soa ctx" using norm calm by (simp add: normalize_activities_def split: if_splits)
    have sub: "set (map snd (get_literals L)) \<subseteq> set (var_ids P ctx)" using assms(5) by simp
    have *: "if v \<in> set (map snd (get_literals L))
        then add_activity (vsids_increment (config ctx)) (var_at P ctx v) = Inr (soa_at (vars_lib P) vs2 v)
        else soa_at (vars_lib P) vs2 v = var_at P ctx v"
      using solver_platform.update_activities_at [OF assms(1,4) sub v] bump vs1 by blast
    show ?thesis
    proof (cases "v \<in> snd ` set (get_literals L)")
      case True
      then have "add_activity (vsids_increment (config ctx)) (var_at P ctx v) = Inr (soa_at (vars_lib P) vs2 v)"
        using * by simp
      then have "soa_at (vars_lib P) vs2 v =
          with_activity (var_activity P ctx v + vsids_increment (config ctx)) (var_at P ctx v)"
        by (simp add: add_activity_def Let_def split: if_splits)
      then show ?thesis using True by simp
    next
      case False
      then have "soa_at (vars_lib P) vs2 v = var_at P ctx v" using * by (simp add: image_iff split: if_splits)
      then show ?thesis using False by simp
    qed
  qed
  with upd show ?thesis by blast
qed

lemma example_fresh_activities:
  assumes ctx: "make_solver_context on_lists example_model = Inr ctx"
  shows "\<forall>v\<in>set (var_ids on_lists ctx). 0 \<le> var_activity on_lists ctx v \<and> var_activity on_lists ctx v \<le> 6"
proof
  fix v assume v: "v \<in> set (var_ids on_lists ctx)"
  have "length (concat (clauses example_model)) = 6" by (simp add: example_model_def)
  then show "0 \<le> var_activity on_lists ctx v \<and> var_activity on_lists ctx v \<le> 6"
    unfolding solver_platform.make_solver_context_activity [OF on_lists_platform example_wf(1) ctx v]
    by (metis length_filter_le of_nat_0_le_iff of_nat_le_iff of_nat_numeral)
qed

theorem update_vsids_activity_adds_witness:
  "\<exists>ctx ctx' L v. update_vsids_activity on_lists ctx L = Inr ctx' \<and> v \<in> snd ` set (get_literals L) \<and>
     var_activity on_lists ctx' v = var_activity on_lists ctx v + 10"
proof -
  obtain ctx0 where ctx0: "make_solver_context on_lists example_model = Inr ctx0" using example_context(1) by blast
  note spec = solver_platform.make_solver_context_spec(4) [OF on_lists_platform ctx0]
  let ?ctx = "ctx0\<lparr>stats := (stats ctx0)\<lparr>conflicts := 1\<rparr>\<rparr>" and ?L = "clause_of_pairs [(Literal 1, 0)]"
  have len: "length (vars_soa ctx0) = 3"
    using arg_cong [OF solver_platform.make_solver_context_literals [OF on_lists_platform ctx0], of length]
    by (simp add: example_model_def)
  have act: "\<forall>v\<in>set (var_ids on_lists ?ctx). 0 \<le> var_activity on_lists ?ctx v \<and> var_activity on_lists ?ctx v \<le> 6"
    using example_fresh_activities [OF ctx0] by simp
  have cf: "config ?ctx = default_configuration" using spec by (simp add: example_model_def)
  have "\<exists>ctx'. update_vsids_activity on_lists ?ctx ?L = Inr ctx' \<and>
    (needs_normalization on_lists ?ctx ?L \<or>
     (\<forall>v\<in>set (var_ids on_lists ?ctx). var_activity on_lists ctx' v =
        var_activity on_lists ?ctx v + (if v \<in> snd ` set (get_literals ?L) then vsids_increment (config ?ctx) else 0)))"
  proof (rule update_vsids_activity_adds [OF on_lists_platform])
    show "\<forall>v\<in>set (var_ids on_lists ?ctx). 0 \<le> var_activity on_lists ?ctx v \<and> var_activity on_lists ?ctx v \<le> int64_max"
      using act by (fastforce simp: int64_max_def)
  qed (use len cf in \<open>simp_all add: default_configuration_def\<close>)
  moreover have "\<not> needs_normalization on_lists ?ctx ?L"
    using bspec [OF act, of 0] len cf by (simp add: needs_normalization_def int64_max_def default_configuration_def)
  ultimately obtain ctx' where "update_vsids_activity on_lists ?ctx ?L = Inr ctx'"
    and "\<forall>v\<in>set (var_ids on_lists ?ctx). var_activity on_lists ctx' v =
        var_activity on_lists ?ctx v + (if v \<in> snd ` set (get_literals ?L) then vsids_increment (config ?ctx) else 0)"
    by blast
  then show ?thesis
    using len cf by (intro exI [of _ ?ctx] exI [of _ ctx'] exI [of _ ?L] exI [of _ 0])
      (simp add: default_configuration_def)
qed

text \<open>
  C27. The decay of the default configuration divides by \<open>0.95f\<close>: in \<open>float\<close> arithmetic, with both
  roundings and the truncation, no activity decreases, and none grows by more than a tenth.
\<close>

theorem decay_never_decreases:
  assumes "0 \<le> vsids_activity (soa_assignment_ctx v)"
    and "divide_activity 24 (vsids_decay_ratio default_configuration) v = Inr v'"
  shows "vsids_activity (soa_assignment_ctx v) \<le> vsids_activity (soa_assignment_ctx v') \<and>
    10 * vsids_activity (soa_assignment_ctx v') \<le> 11 * vsids_activity (soa_assignment_ctx v)"
  using assms decay_bounds [OF assms(1)]
  by (auto simp: divide_activity_def Let_def default_configuration_def split: if_splits)

lemma decay_example: "int64_div_float 24 100 (15938355, -24) = 105"
  by code_simp

theorem decay_never_decreases_witness:
  "\<exists>v v'. divide_activity 24 (vsids_decay_ratio default_configuration) v = Inr v' \<and>
     vsids_activity (soa_assignment_ctx v) = 100 \<and> vsids_activity (soa_assignment_ctx v') = 105 \<and>
     10 * vsids_activity (soa_assignment_ctx v') \<le> 11 * vsids_activity (soa_assignment_ctx v)"
proof -
  let ?v = "with_activity 100 (fresh_var (Literal 1))" and ?v' = "with_activity 105 (fresh_var (Literal 1))"
  have div: "divide_activity 24 (vsids_decay_ratio default_configuration) ?v = Inr ?v'"
    by (simp add: divide_activity_def default_configuration_def decay_example in_int64_def int64_max_def)
  from decay_never_decreases [OF _ div] div show ?thesis
    by (intro exI [of _ ?v] exI [of _ ?v']) simp
qed

text \<open>
  A clause watcher watches the first two literals of the clause whose variable is not assigned,
  or fewer when there are fewer; only an empty clause, and only without \<open>NDEBUG\<close>, is refused.
\<close>

theorem make_clause_watcher_watches:
  "case make_clause_watcher P vs c of
     Inl e \<Rightarrow> is_empty c \<and> \<not> ndebug P \<and> (\<exists>x. e = Fabko_Thrown x \<and> exception_code x = 42)
   | Inr w \<Rightarrow> (is_empty c \<longrightarrow> ndebug P) \<and>
       get_watched w = take 2 (map snd (filter (\<lambda>p. unassigned_in P vs (snd p)) (get_literals c))) \<and>
       watcher_size w \<le> 2"
proof (cases "make_clause_watcher P vs c")
  case (Inl e)
  then have "get_literals c = []" "\<not> ndebug P"
    using make_clause_watcher_Inr_iff [of P vs c] by auto
  then show ?thesis
    using Inl by (auto simp: make_clause_watcher_def fabko_assert_debug_False is_empty_def get_literals_def
        exception_code_def)
next
  case (Inr w)
  then show ?thesis
    using make_clause_watcher_Inr_iff [of P vs c] make_clause_watcher_watched [OF Inr]
    by (auto simp: watcher_size_watched is_empty_def get_literals_def)
qed

theorem make_clause_watcher_watches_witness:
  "case make_clause_watcher on_lists [fresh_var (Literal 1), fresh_var (Literal 2)]
      (clause_of_pairs [(Literal 1, 0), (Literal 2, 1)]) of
     Inl e \<Rightarrow> False
   | Inr w \<Rightarrow> watcher_size w \<le> 2"
  using make_clause_watcher_watches [where P = on_lists and vs = "[fresh_var (Literal 1), fresh_var (Literal 2)]"
      and c = "clause_of_pairs [(Literal 1, 0), (Literal 2, 1)]"]
  by (auto simp: is_empty_def clause_of_pairs_def make_clause_def get_literals_def split: sum.splits)

text \<open>
  C37. Replacing a watched variable: what is not watched changes nothing; when the first slot is empty
  and the second watches it, \<open>value()\<close> of the first throws; otherwise the slot that watches it takes an
  unassigned variable of the clause that the other slot does not watch, and stays empty only if there is
  none. The other slot stays as it is.
\<close>

theorem watcher_replace_replaces:
  "(Some v \<noteq> watcher_0 w \<and> Some v \<noteq> watcher_1 w \<longrightarrow> watcher_replace P vs c w v = Inr w) \<and>
   (watcher_0 w = None \<and> watcher_1 w = Some v \<longrightarrow> watcher_replace P vs c w v = Inl Bad_Optional_Access) \<and>
   (watcher_0 w = Some v \<longrightarrow>
      (\<exists>r. watcher_replace P vs c w v = Inr (w\<lparr>watcher_0 := r\<rparr>) \<and>
         (\<forall>u. r = Some u \<longrightarrow> u \<in> snd ` set (get_literals c) \<and> unassigned_in P vs u \<and> watcher_1 w \<noteq> Some u) \<and>
         (r = None \<longrightarrow> (\<forall>p\<in>set (get_literals c). unassigned_in P vs (snd p) \<longrightarrow> watcher_1 w = Some (snd p))))) \<and>
   (watcher_0 w \<noteq> None \<and> watcher_0 w \<noteq> Some v \<and> watcher_1 w = Some v \<longrightarrow>
      (\<exists>r. watcher_replace P vs c w v = Inr (w\<lparr>watcher_1 := r\<rparr>) \<and>
         (\<forall>u. r = Some u \<longrightarrow> u \<in> snd ` set (get_literals c) \<and> unassigned_in P vs u \<and> watcher_0 w \<noteq> Some u) \<and>
         (r = None \<longrightarrow> (\<forall>p\<in>set (get_literals c). unassigned_in P vs (snd p) \<longrightarrow> watcher_0 w = Some (snd p)))))"
  (is "?none \<and> ?throws \<and> ?first \<and> ?second")
proof (intro conjI impI)
  assume "watcher_0 w = Some v"
  then show "\<exists>r. watcher_replace P vs c w v = Inr (w\<lparr>watcher_0 := r\<rparr>) \<and>
         (\<forall>u. r = Some u \<longrightarrow> u \<in> snd ` set (get_literals c) \<and> unassigned_in P vs u \<and> watcher_1 w \<noteq> Some u) \<and>
         (r = None \<longrightarrow> (\<forall>p\<in>set (get_literals c). unassigned_in P vs (snd p) \<longrightarrow> watcher_1 w = Some (snd p)))"
    using replacement_SomeD [of P vs c "watcher_1 w"] replacement_None_iff [of P vs c "watcher_1 w"]
    by (intro exI [of _ "replacement P vs c (watcher_1 w)"]) (simp add: watcher_replace_def)
next
  assume "watcher_0 w \<noteq> None \<and> watcher_0 w \<noteq> Some v \<and> watcher_1 w = Some v"
  then show "\<exists>r. watcher_replace P vs c w v = Inr (w\<lparr>watcher_1 := r\<rparr>) \<and>
         (\<forall>u. r = Some u \<longrightarrow> u \<in> snd ` set (get_literals c) \<and> unassigned_in P vs u \<and> watcher_0 w \<noteq> Some u) \<and>
         (r = None \<longrightarrow> (\<forall>p\<in>set (get_literals c). unassigned_in P vs (snd p) \<longrightarrow> watcher_0 w = Some (snd p)))"
    using replacement_SomeD [of P vs c "watcher_0 w"] replacement_None_iff [of P vs c "watcher_0 w"]
    by (intro exI [of _ "replacement P vs c (watcher_0 w)"]) (auto simp: watcher_replace_def)
qed (auto simp: watcher_replace_def)

theorem watcher_replace_replaces_witness:
  "watcher_replace on_lists [fresh_var (Literal 1), fresh_var (Literal 2), fresh_var (Literal 3)]
     (clause_of_pairs [(Literal 1, 0), (Literal 2, 1), (Literal 3, 2)])
     \<lparr>watcher_0 = Some 0, watcher_1 = Some 1\<rparr> 7 = Inr \<lparr>watcher_0 = Some 0, watcher_1 = Some 1\<rparr> \<and>
   watcher_replace on_lists [] (clause_of_pairs []) \<lparr>watcher_0 = None, watcher_1 = Some 1\<rparr> 1
     = Inl Bad_Optional_Access \<and>
   watcher_replace on_lists [(fresh_var (Literal 1))\<lparr>soa_assignment := on\<rparr>, fresh_var (Literal 2), fresh_var (Literal 3)]
     (clause_of_pairs [(Literal 1, 0), (Literal 2, 1), (Literal 3, 2)])
     \<lparr>watcher_0 = Some 0, watcher_1 = Some 1\<rparr> 0 = Inr \<lparr>watcher_0 = Some 2, watcher_1 = Some 1\<rparr>"
proof -
  let ?vs = "[(fresh_var (Literal 1))\<lparr>soa_assignment := on\<rparr>, fresh_var (Literal 2), fresh_var (Literal 3)]"
  let ?c = "clause_of_pairs [(Literal 1, 0), (Literal 2, 1), (Literal 3, 2)]"
  let ?w = "\<lparr>watcher_0 = Some 0, watcher_1 = Some 1\<rparr>"
  have lits: "get_literals ?c = [(Literal 1, 0), (Literal 2, 1), (Literal 3, 2)]"
    by (simp add: clause_of_pairs_def make_clause_def get_literals_def)
  have un: "\<not> unassigned_in on_lists ?vs 0" "unassigned_in on_lists ?vs 2"
    by (simp_all add: unassigned_in_def list_platform_def)
  obtain r where r: "watcher_replace on_lists ?vs ?c ?w 0 = Inr (?w\<lparr>watcher_0 := r\<rparr>)"
    and some: "\<forall>u. r = Some u \<longrightarrow> u \<in> snd ` set (get_literals ?c) \<and> unassigned_in on_lists ?vs u \<and> watcher_1 ?w \<noteq> Some u"
    and none: "r = None \<longrightarrow> (\<forall>p\<in>set (get_literals ?c). unassigned_in on_lists ?vs (snd p) \<longrightarrow> watcher_1 ?w = Some (snd p))"
    using watcher_replace_replaces [of 0 ?w on_lists ?vs ?c] by auto
  have "r \<noteq> None" using none un unfolding lits by auto
  then have "r = Some 2" using some un unfolding lits by auto
  with r show ?thesis
    using watcher_replace_replaces [of 7 ?w on_lists
        "[fresh_var (Literal 1), fresh_var (Literal 2), fresh_var (Literal 3)]" ?c]
      watcher_replace_replaces [of 1 "\<lparr>watcher_0 = None, watcher_1 = Some 1\<rparr>" on_lists "[]" "clause_of_pairs []"]
    by simp
qed

end
