(* ===== verification/Cdcl.thy ===== *)
theory Cdcl
  imports Sat_Invariant
begin

text \<open>
  What the solver promises, as an abstract transition system for conflict-driven clause learning: the
  state is a trail of literals, each decided or implied by a clause, and a set of clauses. A failed
  state shows that the initial clauses have no model, a finished one is a model of them.
\<close>

section \<open>States\<close>

datatype mark = Decided | Implied "literal list"

type_synonym cdcl_trail = "(literal \<times> mark) list"
type_synonym cdcl_state = "cdcl_trail \<times> literal list set"

definition negated :: "literal \<Rightarrow> literal" where
  "negated l = Literal (- raw_value l)"

definition true_in :: "cdcl_trail \<Rightarrow> literal \<Rightarrow> bool" where
  "true_in M l \<longleftrightarrow> l \<in> fst ` set M"

definition false_in :: "cdcl_trail \<Rightarrow> literal \<Rightarrow> bool" where
  "false_in M l \<longleftrightarrow> negated l \<in> fst ` set M"

definition undefined_in :: "cdcl_trail \<Rightarrow> literal \<Rightarrow> bool" where
  "undefined_in M l \<longleftrightarrow> lit_value l \<notin> lit_value ` fst ` set M"

definition falsifies :: "cdcl_trail \<Rightarrow> literal list \<Rightarrow> bool" where
  "falsifies M c \<longleftrightarrow> (\<forall>l\<in>set c. false_in M l)"

definition clauses_hold :: "valuation \<Rightarrow> literal list set \<Rightarrow> bool" where
  "clauses_hold \<sigma> N \<longleftrightarrow> (\<forall>c\<in>N. clause_holds \<sigma> c)"

definition entails :: "literal list set \<Rightarrow> literal list \<Rightarrow> bool" where
  "entails N c \<longleftrightarrow> (\<forall>\<sigma>. clauses_hold \<sigma> N \<longrightarrow> clause_holds \<sigma> c)"

text \<open>The decisions of a trail, and the trail up to its first \<open>k\<close> levels.\<close>

definition decision_count :: "cdcl_trail \<Rightarrow> nat" where
  "decision_count M = length (filter (\<lambda>e. snd e = Decided) M)"

fun upto_level :: "nat \<Rightarrow> cdcl_trail \<Rightarrow> cdcl_trail" where
  "upto_level k [] = []"
| "upto_level k ((l, Implied c) # M) = (l, Implied c) # upto_level k M"
| "upto_level 0 ((l, Decided) # M) = []"
| "upto_level (Suc k) ((l, Decided) # M) = (l, Decided) # upto_level k M"

section \<open>Steps\<close>

text \<open>
  Learning backjumps at once, to any lower level: the clause learned need not be a unit clause there.
\<close>

inductive cdcl :: "int set \<Rightarrow> cdcl_state \<Rightarrow> cdcl_state \<Rightarrow> bool" for V where
  propagate: "c \<in> N \<Longrightarrow> l \<in> set c \<Longrightarrow> \<forall>l'\<in>set c. l' = l \<or> false_in M l' \<Longrightarrow> undefined_in M l \<Longrightarrow>
    cdcl V (M, N) (M @ [(l, Implied c)], N)"
| decide: "lit_value l \<in> V \<Longrightarrow> undefined_in M l \<Longrightarrow> cdcl V (M, N) (M @ [(l, Decided)], N)"
| learn: "c \<in> N \<Longrightarrow> falsifies M c \<Longrightarrow> entails N d \<Longrightarrow> falsifies M d \<Longrightarrow> d \<notin> N \<Longrightarrow>
    k < decision_count M \<Longrightarrow> cdcl V (M, N) (upto_level k M, insert d N)"
| restart: "cdcl V (M, N) (upto_level 0 M, N)"

definition cdcl_failed :: "cdcl_state \<Rightarrow> bool" where
  "cdcl_failed S \<longleftrightarrow> decision_count (fst S) = 0 \<and> (\<exists>c\<in>snd S. falsifies (fst S) c)"

definition cdcl_finished :: "int set \<Rightarrow> cdcl_state \<Rightarrow> bool" where
  "cdcl_finished V S \<longleftrightarrow>
     V \<subseteq> lit_value ` fst ` set (fst S) \<and> (\<forall>c\<in>snd S. \<exists>l\<in>set c. true_in (fst S) l)"

section \<open>The invariant of the steps\<close>

text \<open>Every literal is decided or implied by a clause whose other literals are false before it.\<close>

definition supported :: "literal list set \<Rightarrow> cdcl_trail \<Rightarrow> bool" where
  "supported N M \<longleftrightarrow>
     (\<forall>pre l c post. M = pre @ (l, Implied c) # post \<longrightarrow>
        c \<in> N \<and> l \<in> set c \<and> (\<forall>l'\<in>set c. l' = l \<or> false_in pre l'))"

definition cdcl_inv :: "literal list set \<Rightarrow> cdcl_state \<Rightarrow> bool" where
  "cdcl_inv N0 S \<longleftrightarrow>
     (case S of (M, N) \<Rightarrow>
        N0 \<subseteq> N \<and> (\<forall>c\<in>N. entails N0 c) \<and> supported N M \<and> distinct (map (\<lambda>e. lit_value (fst e)) M))"

lemma upto_level_prefix: "\<exists>rest. M = upto_level k M @ rest"
  by (induction k M rule: upto_level.induct) auto

lemma supported_prefix: "supported N (M @ M') \<Longrightarrow> supported N M"
  unfolding supported_def by (metis append.assoc append_Cons)

lemma supported_snoc:
  assumes "supported N M" and "\<And>c. e = (l, Implied c) \<Longrightarrow> c \<in> N \<and> l \<in> set c \<and> (\<forall>l'\<in>set c. l' = l \<or> false_in M l')"
    and "fst e = l"
  shows "supported N (M @ [e])"
  unfolding supported_def
proof (intro allI impI)
  fix pre l' c post assume eq: "M @ [e] = pre @ (l', Implied c) # post"
  show "c \<in> N \<and> l' \<in> set c \<and> (\<forall>l''\<in>set c. l'' = l' \<or> false_in pre l'')"
  proof (cases post rule: rev_cases)
    case Nil
    then show ?thesis using eq assms(2,3) by auto
  next
    case (snoc ys y)
    then have "M = pre @ (l', Implied c) # ys" using eq by auto
    then show ?thesis using assms(1) unfolding supported_def by blast
  qed
qed

lemma cdcl_inv_upto:
  assumes "cdcl_inv N0 (M, N)" and "N \<subseteq> N'" and "\<forall>c\<in>N'. entails N0 c"
  shows "cdcl_inv N0 (upto_level k M, N')"
proof -
  obtain rest where rest: "M = upto_level k M @ rest" using upto_level_prefix by blast
  have "supported N M" "distinct (map (\<lambda>e. lit_value (fst e)) M)" using assms(1) by (simp_all add: cdcl_inv_def)
  then have "supported N (upto_level k M @ rest)" "distinct (map (\<lambda>e. lit_value (fst e)) (upto_level k M @ rest))"
    unfolding rest [symmetric] .
  then have "supported N (upto_level k M)" "distinct (map (\<lambda>e. lit_value (fst e)) (upto_level k M))"
    by (simp_all add: supported_prefix)
  moreover from this have "supported N' (upto_level k M)"
    using assms(2) unfolding supported_def by blast
  ultimately show ?thesis using assms by (auto simp: cdcl_inv_def)
qed

lemma entails_trans: "entails N d \<Longrightarrow> \<forall>c\<in>N. entails N0 c \<Longrightarrow> entails N0 d"
  by (simp add: entails_def clauses_hold_def)

lemma cdcl_inv_step: "cdcl V S S' \<Longrightarrow> cdcl_inv N0 S \<Longrightarrow> cdcl_inv N0 S'"
proof (induction rule: cdcl.induct)
  case (propagate c N l M)
  then show ?case
    using supported_snoc [of N M "(l, Implied c)" l] by (auto simp: cdcl_inv_def undefined_in_def)
next
  case (decide l M N)
  then show ?case using supported_snoc [of N M "(l, Decided)" l] by (auto simp: cdcl_inv_def undefined_in_def)
next
  case (learn c N M d k)
  then have "entails N0 d" using entails_trans by (auto simp: cdcl_inv_def)
  then show ?case using learn by (intro cdcl_inv_upto [OF learn.prems]) (auto simp: cdcl_inv_def)
next
  case (restart M N)
  then show ?case by (intro cdcl_inv_upto [OF restart]) (auto simp: cdcl_inv_def)
qed

lemma cdcl_inv_start: "cdcl_inv N ([], N)"
  by (auto simp: cdcl_inv_def supported_def entails_def clauses_hold_def)

lemma cdcl_inv_reachable: "(cdcl V)\<^sup>*\<^sup>* ([], N) S \<Longrightarrow> cdcl_inv N S"
  by (induction rule: rtranclp_induct) (auto intro: cdcl_inv_start cdcl_inv_step)

section \<open>Failed and finished states\<close>

lemma negated_holds: "raw_value l \<noteq> 0 \<Longrightarrow> lit_holds \<sigma> (negated l) \<longleftrightarrow> \<not> lit_holds \<sigma> l"
  by (cases "raw_value l > 0") (auto simp: lit_holds_def negated_def is_on_def is_off_def lit_value_def)

lemma negated_zero: "raw_value l = 0 \<Longrightarrow> \<not> lit_holds \<sigma> l"
  by (simp add: lit_holds_def is_on_def is_off_def)

lemma negated_excludes: "lit_holds \<sigma> (negated l) \<Longrightarrow> \<not> lit_holds \<sigma> l"
  using negated_holds negated_zero by blast

text \<open>Without decisions, every literal of the trail holds in every model of the clauses.\<close>

lemma implied_trail_holds:
  assumes "supported N M" and "decision_count M = 0" and "clauses_hold \<sigma> N"
  shows "\<forall>e\<in>set M. lit_holds \<sigma> (fst e)"
  using assms(1,2)
proof (induction M rule: rev_induct)
  case (snoc e M)
  have M: "\<forall>e\<in>set M. lit_holds \<sigma> (fst e)"
    by (rule snoc.IH) (use snoc.prems supported_prefix in \<open>auto simp: decision_count_def\<close>)
  obtain c where e: "e = (fst e, Implied c)"
    using snoc.prems(2) by (cases e; cases "snd e") (auto simp: decision_count_def)
  then have "M @ [e] = M @ (fst e, Implied c) # []" by simp
  then have c: "c \<in> N" "\<forall>l'\<in>set c. l' = fst e \<or> false_in M l'"
    using snoc.prems(1) unfolding supported_def by blast+
  have no: "\<not> lit_holds \<sigma> l" if "false_in M l" for l
  proof -
    have "lit_holds \<sigma> (negated l)" using that M by (auto simp: false_in_def)
    then show ?thesis by (rule negated_excludes)
  qed
  obtain l where "l \<in> set c" "lit_holds \<sigma> l"
    using c(1) assms(3) by (auto simp: clauses_hold_def clause_holds_def)
  then have "lit_holds \<sigma> (fst e)" using c(2) no [of l] by auto
  then show ?case using M by simp
qed simp

text \<open>
  A failed state that the system reaches shows that the initial clauses have no model; in a finished
  one the literals of the trail are a model of them, every variable having one sign.
\<close>

theorem cdcl_failed_unsatisfiable:
  assumes "(cdcl V)\<^sup>*\<^sup>* ([], N) S" and "cdcl_failed S"
  shows "\<not> (\<exists>\<sigma>. clauses_hold \<sigma> N)"
proof
  assume "\<exists>\<sigma>. clauses_hold \<sigma> N"
  then obtain \<sigma> where \<sigma>: "clauses_hold \<sigma> N" by blast
  obtain M N' where S: "S = (M, N')" by (cases S)
  have inv: "supported N' M" "\<forall>c\<in>N'. entails N c"
    using cdcl_inv_reachable [OF assms(1)] by (auto simp: S cdcl_inv_def)
  then have \<sigma>': "clauses_hold \<sigma> N'" using \<sigma> by (simp add: clauses_hold_def entails_def)
  obtain c where c: "c \<in> N'" "falsifies M c" "decision_count M = 0" using assms(2) by (auto simp: S cdcl_failed_def)
  note M = implied_trail_holds [OF inv(1) c(3) \<sigma>']
  obtain l where "l \<in> set c" "lit_holds \<sigma> l" using c(1) \<sigma>' by (auto simp: clauses_hold_def clause_holds_def)
  moreover from this have "negated l \<in> fst ` set M" using c(2) by (simp add: falsifies_def false_in_def)
  then have "lit_holds \<sigma> (negated l)" using M by auto
  ultimately show False using negated_excludes by blast
qed

theorem cdcl_finished_satisfiable:
  assumes "(cdcl V)\<^sup>*\<^sup>* ([], N) S" and "cdcl_finished V S" and "\<forall>c\<in>N. \<forall>l\<in>set c. raw_value l \<noteq> 0"
  shows "clauses_hold (valuation_of (map fst (fst S))) N"
proof -
  obtain M N' where S: "S = (M, N')" by (cases S)
  have inv: "N \<subseteq> N'" "distinct (map (\<lambda>e. lit_value (fst e)) M)"
    using cdcl_inv_reachable [OF assms(1)] by (auto simp: S cdcl_inv_def)
  have "lit_holds (valuation_of (map fst M)) l" if "true_in M l" "raw_value l \<noteq> 0" for l
  proof -
    have uniq: "l' = l" if "l' \<in> fst ` set M" "lit_value l' = lit_value l" for l'
      using inv(2) \<open>true_in M l\<close> that by (auto simp: true_in_def distinct_map inj_on_def)
    have "\<not> (\<exists>l'\<in>fst ` set M. is_on l' \<and> lit_value l' = lit_value l)" if "is_off l"
    proof
      assume "\<exists>l'\<in>fst ` set M. is_on l' \<and> lit_value l' = lit_value l"
      then obtain l' where "l' \<in> fst ` set M" "is_on l'" "lit_value l' = lit_value l" by blast
      with uniq [of l'] that show False by (simp add: is_on_def is_off_def)
    qed
    then show ?thesis
      using that by (cases "is_on l") (auto simp: lit_holds_def valuation_of_def true_in_def is_on_off_iff)
  qed
  then show ?thesis
    using assms(2,3) inv(1) by (fastforce simp: S clauses_hold_def clause_holds_def cdcl_finished_def)
qed

end
