(* ===== verification/Sat_Refinement.thy ===== *)
theory Sat_Refinement
  imports Cdcl Sat_Correct
begin

text \<open>
  The solver refines the transition system of \<open>Cdcl\<close>: a solver context stands for the literals of
  its trail, each with the clause that implied it or as a decision, and for its clauses. A round of
  \<open>solve_sat\<close> is a sequence of steps of the system; where the solver stops, it is in a failed or in a
  finished state.
\<close>

section \<open>The state a context stands for\<close>

definition assigned_lit :: "('vs, 'cs) platform \<Rightarrow> ('vs, 'cs) solver_context \<Rightarrow> struct_id \<Rightarrow> literal" where
  "assigned_lit P ctx v =
     Literal (if var_val P ctx v = on then lit_value (var_lit P ctx v) else - lit_value (var_lit P ctx v))"

definition abs_entry :: "('vs, 'cs) platform \<Rightarrow> ('vs, 'cs) solver_context \<Rightarrow> struct_id \<Rightarrow> literal \<times> mark" where
  "abs_entry P ctx v =
     (assigned_lit P ctx v,
      case var_reason P ctx v of None \<Rightarrow> Decided | Some c \<Rightarrow> Implied (map fst (lits_of P ctx c)))"

definition abs_trail :: "('vs, 'cs) platform \<Rightarrow> ('vs, 'cs) solver_context \<Rightarrow> cdcl_trail" where
  "abs_trail P ctx = map (abs_entry P ctx) (trail ctx)"

definition abs_state :: "('vs, 'cs) platform \<Rightarrow> ('vs, 'cs) solver_context \<Rightarrow> cdcl_state" where
  "abs_state P ctx = (abs_trail P ctx, db_clauses P ctx)"

text \<open>The level a variable was assigned at is the number of decisions up to it.\<close>

definition levels_ok :: "('vs, 'cs) platform \<Rightarrow> ('vs, 'cs) solver_context \<Rightarrow> bool" where
  "levels_ok P ctx \<longleftrightarrow>
     current_decision_level ctx = decision_count (abs_trail P ctx) \<and>
     (\<forall>pre v post. trail ctx = pre @ v # post \<longrightarrow>
        var_level P ctx v = decision_count (map (abs_entry P ctx) (pre @ [v])))"

lemma decision_count_simps [simp]:
  "decision_count [] = 0"
  "decision_count (M @ M') = decision_count M + decision_count M'"
  "decision_count (e # M) = (if snd e = Decided then Suc (decision_count M) else decision_count M)"
  by (simp_all add: decision_count_def)

lemma upto_level_count: "k \<le> decision_count M \<Longrightarrow> decision_count (upto_level k M) = k"
  by (induction k M rule: upto_level.induct) auto

lemma takeWhile_upto_level:
  assumes "\<And>pre v post. vs = pre @ v # post \<Longrightarrow> lvl v = n + decision_count (map e (pre @ [v]))"
  shows "map e (takeWhile (\<lambda>v. lvl v \<le> n + k) vs) = upto_level k (map e vs)"
  using assms
proof (induction vs arbitrary: n k)
  case (Cons v vs)
  have v: "lvl v = n + decision_count [e v]" using Cons.prems [of "[]"] by simp
  have tail: "lvl u = (n + decision_count [e v]) + decision_count (map e (pre @ [u]))"
    if "vs = pre @ u # post" for pre u post
    using Cons.prems [of "v # pre" u post] that by (auto simp: decision_count_def)
  obtain l where e: "e v = (l, snd (e v))" by (cases "e v") simp
  show ?case
  proof (cases "snd (e v)")
    case (Implied c)
    then have "e v = (l, Implied c)" using e by simp
    then show ?thesis using v Cons.IH [of n k] tail by simp
  next
    case Decided
    then have ev: "e v = (l, Decided)" using e by simp
    show ?thesis
    proof (cases k)
      case 0
      then show ?thesis using v ev by simp
    next
      case (Suc k')
      then show ?thesis using v ev Cons.IH [of "Suc n" k'] tail by simp
    qed
  qed
qed simp

lemma takeWhile_levels:
  assumes "levels_ok P ctx"
  shows "map (abs_entry P ctx) (takeWhile (\<lambda>v. var_level P ctx v \<le> k) (trail ctx)) = upto_level k (abs_trail P ctx)"
  using takeWhile_upto_level [of "trail ctx" "var_level P ctx" 0 "abs_entry P ctx" k] assms
  by (simp add: levels_ok_def abs_trail_def)

section \<open>Contexts that agree\<close>

lemma abs_entry_agree:
  assumes "agree_on P ctx ctx' v" and "var_lit P ctx' v = var_lit P ctx v"
    and "\<And>c. var_reason P ctx v = Some c \<Longrightarrow> lits_of P ctx' c = lits_of P ctx c"
  shows "abs_entry P ctx' v = abs_entry P ctx v"
  using assms by (auto simp: abs_entry_def agree_on_def assigned_lit_def split: option.split)

lemma reason_in_db:
  assumes "trail_inv P ctx" and "v \<in> set (trail ctx)" and "var_reason P ctx v = Some c"
  shows "c \<in> set (clause_ids P ctx)"
proof -
  obtain pre post where "trail ctx = pre @ v # post" using assms(2) by (meson split_list)
  then have "justified P ctx pre v" by (rule trail_invD(6) [OF assms(1)])
  then show ?thesis using assms(3) by (simp add: justified_def)
qed

lemma same_state_abs:
  assumes inv: "trail_inv P ctx" and s: "same_state P ctx ctx'"
  shows "abs_state P ctx' = abs_state P ctx" and "levels_ok P ctx \<Longrightarrow> levels_ok P ctx'"
proof -
  have sub: "set (trail ctx) \<subseteq> set (var_ids P ctx)" using trail_invD(2) [OF inv] by auto
  have e: "abs_entry P ctx' v = abs_entry P ctx v" if "v \<in> set (trail ctx)" for v
    by (rule abs_entry_agree)
      (use that sub s reason_in_db [OF inv that] in \<open>auto simp: same_state_def agree_on_def\<close>)
  have tr: "trail ctx' = trail ctx" using s by (simp add: same_state_def)
  show "abs_state P ctx' = abs_state P ctx"
    using s e by (auto simp: abs_state_def abs_trail_def db_clauses_def same_state_def)
  have t: "abs_trail P ctx' = abs_trail P ctx" using e tr by (simp add: abs_trail_def)
  show "levels_ok P ctx'" if l: "levels_ok P ctx"
    unfolding levels_ok_def tr t
  proof (intro conjI allI impI)
    show "current_decision_level ctx' = decision_count (abs_trail P ctx)"
      using l s by (simp add: levels_ok_def same_state_def)
    fix pre v post assume split: "trail ctx = pre @ v # post"
    then have "map (abs_entry P ctx') (pre @ [v]) = map (abs_entry P ctx) (pre @ [v])" using e by auto
    moreover have "var_level P ctx' v = var_level P ctx v" using split sub s by (simp add: same_state_def)
    moreover have "var_level P ctx v = decision_count (map (abs_entry P ctx) (pre @ [v]))"
      using l split unfolding levels_ok_def by blast
    ultimately show "var_level P ctx' v = decision_count (map (abs_entry P ctx') (pre @ [v]))" by argo
  qed
qed

lemma cut_to_abs:
  assumes inv: "trail_inv P ctx" and c: "cut_to P level ctx ctx'" and l: "levels_ok P ctx"
    and level: "level \<le> current_decision_level ctx"
  shows "abs_trail P ctx' = upto_level level (abs_trail P ctx)" and "levels_ok P ctx'"
proof -
  have tr: "trail ctx' = takeWhile (\<lambda>v. var_level P ctx v \<le> level) (trail ctx)"
    using c by (simp add: cut_to_def)
  have old: "v \<in> set (trail ctx)" if "v \<in> set (trail ctx')" for v
    using that unfolding tr by (blast dest: set_takeWhileD)
  have sub: "set (trail ctx) \<subseteq> set (var_ids P ctx)" using trail_invD(2) [OF inv] by auto
  have e: "abs_entry P ctx' v = abs_entry P ctx v" if "v \<in> set (trail ctx')" for v
  proof (rule abs_entry_agree)
    show "agree_on P ctx ctx' v" using c that by (simp add: cut_to_def)
    have "v \<in> set (var_ids P ctx)" using old [OF that] sub by blast
    then show "var_lit P ctx' v = var_lit P ctx v" using c unfolding cut_to_def by blast
    show "lits_of P ctx' d = lits_of P ctx d" if "var_reason P ctx v = Some d" for d
    proof -
      have "d \<in> set (clause_ids P ctx)" by (rule reason_in_db [OF inv old [OF \<open>v \<in> set (trail ctx')\<close>] that])
      then show ?thesis using c unfolding cut_to_def by blast
    qed
  qed
  have lv: "var_level P ctx' v = var_level P ctx v" if "v \<in> set (trail ctx')" for v
    using c that by (simp add: cut_to_def agree_on_def)
  have "abs_trail P ctx' = map (abs_entry P ctx) (trail ctx')" using e by (simp add: abs_trail_def)
  then show cut: "abs_trail P ctx' = upto_level level (abs_trail P ctx)"
    using takeWhile_levels [OF l] by (simp add: tr)
  obtain rest where rest: "trail ctx = trail ctx' @ rest" using takeWhile_dropWhile_id unfolding tr by metis
  show "levels_ok P ctx'"
    unfolding levels_ok_def
  proof (intro conjI allI impI)
    have "level \<le> decision_count (abs_trail P ctx)" using l level by (simp add: levels_ok_def)
    then show "current_decision_level ctx' = decision_count (abs_trail P ctx')"
      unfolding cut using upto_level_count c by (simp add: cut_to_def)
  next
    fix pre v post assume split: "trail ctx' = pre @ v # post"
    then have "trail ctx = pre @ v # (post @ rest)" using rest by simp
    then have "var_level P ctx v = decision_count (map (abs_entry P ctx) (pre @ [v]))"
      using l unfolding levels_ok_def by blast
    moreover have "map (abs_entry P ctx') (pre @ [v]) = map (abs_entry P ctx) (pre @ [v])"
      using e split by auto
    moreover have "var_level P ctx' v = var_level P ctx v" using lv split by simp
    ultimately show "var_level P ctx' v = decision_count (map (abs_entry P ctx') (pre @ [v]))" by argo
  qed
qed

lemma assigns_abs:
  assumes inv: "trail_inv P ctx" and a: "assigns P ctx v ctx'" and l: "levels_ok P ctx"
    and level: "current_decision_level ctx' =
      current_decision_level ctx + (if var_reason P ctx' v = None then 1 else 0)"
  shows "abs_state P ctx' = (abs_trail P ctx @ [abs_entry P ctx' v], db_clauses P ctx)" and "levels_ok P ctx'"
proof -
  note D = assignsD [OF a]
  have old: "u \<in> set (var_ids P ctx) \<and> u \<noteq> v" if "u \<in> set (trail ctx)" for u
    using trail_invD(2) [OF inv] that D(2) by auto
  have same: "var_at P ctx' u = var_at P ctx u" if "u \<in> set (trail ctx)" for u
    using D(6) old [OF that] by blast
  then have e: "abs_entry P ctx' u = abs_entry P ctx u" if "u \<in> set (trail ctx)" for u
    using that D(4) by (simp add: abs_entry_def assigned_lit_def split: option.split)
  then have t: "abs_trail P ctx' = abs_trail P ctx @ [abs_entry P ctx' v]"
    by (simp add: abs_trail_def D(3))
  then show "abs_state P ctx' = (abs_trail P ctx @ [abs_entry P ctx' v], db_clauses P ctx)"
    by (simp add: abs_state_def db_clauses_def D(4))
  have dec: "snd (abs_entry P ctx' v) = Decided \<longleftrightarrow> var_reason P ctx' v = None"
    by (simp add: abs_entry_def split: option.split)
  have count: "current_decision_level ctx' = decision_count (abs_trail P ctx')"
    using l level by (simp add: levels_ok_def t dec)
  show "levels_ok P ctx'"
    unfolding levels_ok_def
  proof (intro conjI allI impI)
    fix pre u post assume split: "trail ctx' = pre @ u # post"
    show "var_level P ctx' u = decision_count (map (abs_entry P ctx') (pre @ [u]))"
    proof (cases post rule: rev_cases)
      case Nil
      then have "u = v" "pre @ [u] = trail ctx'" using split D(3) by auto
      then show ?thesis using D(9) count by (simp add: abs_trail_def)
    next
      case (snoc post' w)
      then have tr: "trail ctx = pre @ u # post'" using split D(3) by simp
      then have "var_level P ctx u = decision_count (map (abs_entry P ctx) (pre @ [u]))"
        using l unfolding levels_ok_def by blast
      moreover have "map (abs_entry P ctx') (pre @ [u]) = map (abs_entry P ctx) (pre @ [u])"
        using e tr by auto
      moreover have "var_at P ctx' u = var_at P ctx u" using same tr by simp
      ultimately show ?thesis by (simp only:)
    qed
  qed (rule count)
qed

section \<open>Literals of the trail\<close>

lemma lit_value_assigned [simp]: "lit_value (assigned_lit P ctx v) = lit_value (var_lit P ctx v)"
  by (simp add: assigned_lit_def lit_value_def)

lemma assigned_on_trail:
  assumes "trail_inv P ctx" and "v \<in> set (var_ids P ctx)" and "var_val P ctx v \<noteq> not_assigned"
  shows "assigned_lit P ctx v \<in> fst ` set (abs_trail P ctx)"
proof -
  have "v \<in> set (trail ctx)" using trail_invD(2) [OF assms(1)] assms(2,3) by simp
  then show ?thesis by (force simp: abs_trail_def abs_entry_def)
qed

lemma falsified_false_in:
  assumes "trail_inv P ctx" and "pair_ok P ctx p" and "lit_falsified P ctx p"
  shows "false_in (abs_trail P ctx) (fst p)"
proof -
  have "negated (fst p) = assigned_lit P ctx (snd p)"
    using assms(2,3)
    by (cases "fst p") (auto simp: solver_defs negated_def assigned_lit_def is_on_def is_off_def lit_value_def)
  then show ?thesis
    using assigned_on_trail [OF assms(1), of "snd p"] assms(2) falsified_assigned [OF assms(3)]
    by (simp add: false_in_def pair_ok_def)
qed

lemma satisfied_true_in:
  assumes "trail_inv P ctx" and "pair_ok P ctx p" and "lit_satisfied P ctx p"
  shows "true_in (abs_trail P ctx) (fst p)"
proof -
  have "fst p = assigned_lit P ctx (snd p)"
    using assms(2,3) by (cases "fst p") (auto simp: solver_defs assigned_lit_def is_on_def is_off_def lit_value_def)
  then show ?thesis
    using assigned_on_trail [OF assms(1), of "snd p"] assms(2) satisfied_assigned [OF assms(3)]
    by (simp add: true_in_def pair_ok_def)
qed

lemma unassigned_undefined_in:
  assumes inv: "solver_inv P F ctx" and v: "v \<in> set (var_ids P ctx)" "var_val P ctx v = not_assigned"
    and l: "lit_value l = lit_value (var_lit P ctx v)"
  shows "undefined_in (abs_trail P ctx) l"
  unfolding undefined_in_def
proof
  assume "lit_value l \<in> lit_value ` fst ` set (abs_trail P ctx)"
  then obtain u where u: "u \<in> set (trail ctx)" "lit_value (var_lit P ctx u) = lit_value (var_lit P ctx v)"
    using l by (auto simp: abs_trail_def abs_entry_def)
  have "u \<in> set (var_ids P ctx)" "var_val P ctx u \<noteq> not_assigned"
    using trail_invD(2) [OF solver_invD(2) [OF inv]] u(1) by auto
  moreover from this have "u = v"
    using solver_invD(1) [OF inv] u(2) v(1) by (auto simp: linked_def inj_on_def)
  ultimately show False using v(2) by simp
qed

lemma all_falsified_falsifies:
  assumes inv: "solver_inv P F ctx" and c: "all_falsified P ctx c"
  shows "map fst (lits_of P ctx c) \<in> db_clauses P ctx" and "falsifies (abs_trail P ctx) (map fst (lits_of P ctx c))"
proof -
  show "map fst (lits_of P ctx c) \<in> db_clauses P ctx"
    using c unfolding db_clauses_def all_falsified_def by blast
  have "false_in (abs_trail P ctx) (fst p)" if "p \<in> set (lits_of P ctx c)" for p
  proof (rule falsified_false_in [OF solver_invD(2) [OF inv]])
    show "pair_ok P ctx p" using solver_invD(1) [OF inv] c that by (auto simp: all_falsified_def linked_def)
    show "lit_falsified P ctx p" using c that by (simp add: all_falsified_def)
  qed
  then show "falsifies (abs_trail P ctx) (map fst (lits_of P ctx c))" by (auto simp: falsifies_def)
qed

section \<open>Propagation and decisions\<close>

text \<open>What a sequence of steps has reached from a state.\<close>

definition stands_for ::
    "('vs, 'cs) platform \<Rightarrow> int set \<Rightarrow> cdcl_state \<Rightarrow> ('vs, 'cs) solver_context \<Rightarrow> bool" where
  "stands_for P V S ctx \<longleftrightarrow> (cdcl V)\<^sup>*\<^sup>* S (abs_state P ctx) \<and> levels_ok P ctx"

lemma stands_for_step:
  "stands_for P V S ctx \<Longrightarrow> cdcl V (abs_state P ctx) (abs_state P ctx') \<Longrightarrow> levels_ok P ctx' \<Longrightarrow>
   stands_for P V S ctx'"
  unfolding stands_for_def by (meson rtranclp.rtrancl_into_rtrancl)

lemma stands_for_same:
  "stands_for P V S ctx \<Longrightarrow> trail_inv P ctx \<Longrightarrow> same_state P ctx ctx' \<Longrightarrow> stands_for P V S ctx'"
  by (simp add: stands_for_def same_state_abs)

context solver_platform begin

lemma propagate_simulated:
  assumes inv: "solver_inv P F ctx" and c: "c \<in> set (clause_ids P ctx)" and s: "stands_for P V S ctx"
    and step: "propagate P None ctx c = (True, None, ctx')"
  shows "stands_for P V S ctx'"
proof -
  note tr = solver_invD(2) [OF inv]
  obtain p where unsat: "\<not> is_clause_satisfied P ctx (soa_clause (clause_at P ctx c))"
    and unit: "unassigned_pairs P ctx c = [p]" and ctx': "ctx' = assign_propagated P ctx c p"
    using step by (auto simp: propagate_def split: if_splits list.splits)
  have p: "p \<in> set (lits_of P ctx c)" "var_val P ctx (snd p) = not_assigned"
    and only: "\<And>q. q \<in> set (lits_of P ctx c) \<Longrightarrow> var_val P ctx (snd q) = not_assigned \<Longrightarrow> q = p"
    using filter_singletonD [OF unit [unfolded unassigned_pairs_def]] by auto
  have ok: "pair_ok P ctx q" if "q \<in> set (lits_of P ctx c)" for q
    using solver_invD(1) [OF inv] c that by (simp add: linked_def)
  have v: "snd p \<in> set (var_ids P ctx)" using ok [OF p(1)] by (simp add: pair_ok_def)
  have a: "assigns P ctx (snd p) ctx'" unfolding ctx' using v p(2) by (rule assign_propagated_assigns)
  have reason: "var_reason P ctx' (snd p) = Some c" using v by (simp add: ctx' assign_propagated_def)
  have lvl: "current_decision_level ctx' = current_decision_level ctx"
    by (simp add: ctx' assign_propagated_def)
  have "assigned_lit P ctx' (snd p) = fst p"
    using ok [OF p(1)] v
    by (cases "fst p") (auto simp: ctx' assigned_lit_def assign_propagated_def pair_ok_def is_on_def lit_value_def)
  then have e: "abs_entry P ctx' (snd p) = (fst p, Implied (map fst (lits_of P ctx c)))"
    using reason assignsD(4) [OF a] by (simp add: abs_entry_def)
  have "levels_ok P ctx" using s by (simp add: stands_for_def)
  note A = assigns_abs [OF tr a this]
  have others: "false_in (abs_trail P ctx) l" if l: "l \<in> set (map fst (lits_of P ctx c))" "l \<noteq> fst p" for l
  proof -
    obtain q where q: "q \<in> set (lits_of P ctx c)" "l = fst q" using l(1) by auto
    then have "q \<noteq> p" using l(2) by auto
    then have "var_val P ctx (snd q) \<noteq> not_assigned" using only [OF q(1)] by blast
    moreover have "\<not> lit_satisfied P ctx q" using unsat q(1) by (auto simp: is_clause_satisfied_def list_ex_iff)
    ultimately have "lit_falsified P ctx q" using falsified_if_unsatisfied [OF ok [OF q(1)]] by blast
    then show ?thesis using falsified_false_in [OF tr ok [OF q(1)]] q(2) by simp
  qed
  have "cdcl V (abs_trail P ctx, db_clauses P ctx)
      (abs_trail P ctx @ [(fst p, Implied (map fst (lits_of P ctx c)))], db_clauses P ctx)"
  proof (rule cdcl.propagate)
    show "map fst (lits_of P ctx c) \<in> db_clauses P ctx" using c unfolding db_clauses_def by blast
    show "fst p \<in> set (map fst (lits_of P ctx c))" using p(1) by simp
    show "undefined_in (abs_trail P ctx) (fst p)"
      using unassigned_undefined_in [OF inv v p(2)] ok [OF p(1)] by (simp add: pair_ok_def)
  qed (use others in blast)
  then have "cdcl V (abs_state P ctx) (abs_state P ctx')"
    using A(1) lvl reason e by (simp add: abs_state_def)
  moreover have "levels_ok P ctx'" using A(2) lvl reason by simp
  ultimately show ?thesis using stands_for_step [OF s] by blast
qed

lemma propagate_pass_simulated:
  "solver_inv P F ctx \<Longrightarrow> set cs \<subseteq> set (clause_ids P ctx) \<Longrightarrow> stands_for P V S ctx \<Longrightarrow>
   propagate_pass P cs None ctx = (n, conflict, ctx') \<Longrightarrow> stands_for P V S ctx'"
proof (induction cs arbitrary: ctx n)
  case (Cons c cs)
  have c: "c \<in> set (clause_ids P ctx)" using Cons.prems(2) by simp
  from propagate_cases [OF Cons.prems(1) c] show ?case
  proof (elim disjE conjE exE)
    assume "propagate P None ctx c = (False, None, ctx)"
    then show ?thesis using Cons.prems Cons.IH [of ctx] by (auto split: prod.splits)
  next
    assume "propagate P None ctx c = (False, Some c, ctx)"
    then show ?thesis using Cons.prems by simp
  next
    fix p
    let ?ctx = "assign_propagated P ctx c p"
    assume p: "propagate P None ctx c = (True, None, ?ctx)"
      and a: "assigns P ctx (snd p) ?ctx" and inv: "solver_inv P F ?ctx"
    have sub: "set cs \<subseteq> set (clause_ids P ?ctx)" using Cons.prems(2) assignsD(4) [OF a] by simp
    have s: "stands_for P V S ?ctx" by (rule propagate_simulated [OF Cons.prems(1) c Cons.prems(3) p])
    show ?thesis using p Cons.prems(4) Cons.IH [OF inv sub s] by (auto split: prod.splits)
  qed
qed simp

lemma decision_simulated:
  assumes inv: "solver_inv P F ctx" and v: "v \<in> set (unassigned_vars P ctx)" and s: "stands_for P V S ctx"
    and V: "set (var_values P ctx) \<subseteq> V"
  shows "stands_for P V S (assign_decision P ctx v)"
proof -
  let ?ctx = "assign_decision P ctx v"
  note tr = solver_invD(2) [OF inv]
  have var: "v \<in> set (var_ids P ctx)" "var_val P ctx v = not_assigned"
    using v by (simp_all add: unassigned_vars_def)
  then have a: "assigns P ctx v ?ctx" by (rule assign_decision_assigns)
  have reason: "var_reason P ?ctx v = None"
    using var trail_invD(5) [OF tr var] by (simp add: assign_decision_def Let_def)
  have lvl: "current_decision_level ?ctx = current_decision_level ctx + 1"
    by (simp add: assign_decision_def Let_def)
  have "levels_ok P ctx" using s by (simp add: stands_for_def)
  note A = assigns_abs [OF tr a this]
  have names: "lit_value (assigned_lit P ?ctx v) = lit_value (var_lit P ctx v)"
    using assignsD(7) [OF a] by simp
  have "cdcl V (abs_trail P ctx, db_clauses P ctx)
      (abs_trail P ctx @ [(assigned_lit P ?ctx v, Decided)], db_clauses P ctx)"
  proof (rule cdcl.decide)
    show "lit_value (assigned_lit P ?ctx v) \<in> V" using V var(1) unfolding names by (auto simp: var_values_def)
    show "undefined_in (abs_trail P ctx) (assigned_lit P ?ctx v)"
      by (rule unassigned_undefined_in [OF inv var names])
  qed
  then have "cdcl V (abs_state P ctx) (abs_state P ?ctx)"
    using A(1) lvl reason by (simp add: abs_state_def abs_entry_def)
  moreover have "levels_ok P ?ctx" using A(2) lvl reason by simp
  ultimately show ?thesis using stands_for_step [OF s] by blast
qed

lemma restart_simulated:
  assumes inv: "solver_inv P F ctx" and s: "stands_for P V S ctx"
  shows "stands_for P V S (restart_if_needed P ctx)"
proof (cases "unat (restart_threshold (config ctx)) \<le> conflict_count_since_last_restart ctx")
  case True
  let ?ctx1 = "ctx\<lparr>conflict_count_since_last_restart := 0,
      stats := (stats ctx)\<lparr>restarts := restarts (stats ctx) + 1\<rparr>\<rparr>"
  let ?ctx2 = "backtrack P ?ctx1 0"
  have same: "same_state P ctx ?ctx1" by (simp add: same_state_def)
  have inv1: "solver_inv P F ?ctx1" by (rule solver_inv_same_state [OF inv same])
  note tr1 = solver_invD(2) [OF inv1]
  have b: "backtracked P 0 ?ctx1 ?ctx2" by (rule backtrack_backtracked(1) [OF tr1])
  have c: "cut_to P 0 ?ctx1 ?ctx2"
    by (rule backtracked_cut_to [OF b]) (use trail_invD(2) [OF tr1] in \<open>auto simp: backtrack_def\<close>)
  have s1: "stands_for P V S ?ctx1" by (rule stands_for_same [OF s solver_invD(2) [OF inv] same])
  then have "levels_ok P ?ctx1" by (simp add: stands_for_def)
  note C = cut_to_abs [OF tr1 c this]
  have "db_clauses P ?ctx2 = db_clauses P ?ctx1" using b by (simp add: db_clauses_def backtracked_def)
  then have "cdcl V (abs_state P ?ctx1) (abs_state P ?ctx2)"
    using C(1) cdcl.restart [of V "abs_trail P ?ctx1" "db_clauses P ?ctx1"] by (simp add: abs_state_def)
  then have s2: "stands_for P V S ?ctx2" using C(2) stands_for_step [OF s1] by simp
  have "solver_inv P F ?ctx2" using inv1 by (rule backtrack_solver_inv) simp
  then show ?thesis
    by (rule stands_for_same [OF s2 solver_invD(2)])
      (simp add: same_state_def restart_if_needed_def True Let_def)
qed (simp add: restart_if_needed_def s)

section \<open>Conflicts\<close>

lemma handle_conflict_simulated:
  assumes inv: "solver_inv P F ctx" and c: "all_falsified P ctx c" and s: "stands_for P V S ctx"
  shows "handle_conflict P ctx c = Inl ctx' \<Longrightarrow> stands_for P V S ctx'"
    and "handle_conflict P ctx c = Inr (Inr (Inl e), ctx') \<Longrightarrow>
      stands_for P V S ctx' \<and> cdcl_failed (abs_state P ctx')"
    and "handle_conflict P ctx c \<noteq> Inr (Inr (Inr r), ctx')"
proof -
  note conflict = all_falsified_falsifies [OF inv c] and tr = solver_invD(2) [OF inv]
  have l: "levels_ok P ctx" using s by (simp add: stands_for_def)
  have same: "same_state P ctx (count_conflict ctx)" by (simp add: same_state_def count_conflict_def)
  show "stands_for P V S ctx'" if out: "handle_conflict P ctx c = Inl ctx'"
  proof (cases rule: handle_conflict_cases [OF inv c])
    case (1 ctx1)
    then have eq: "ctx1 = ctx'" using out by simp
    obtain r where ok: "learned_ok P F (count_conflict ctx) r"
      and cut: "cut_to P (backtrack_level r) ctx ctx'" and pos: "0 < current_decision_level ctx"
      and db: "db_clauses P ctx' = insert (map fst (get_literals (learned_clause r))) (db_clauses P ctx)"
      using 1(8) unfolding eq by blast
    let ?d = "map fst (get_literals (learned_clause r))"
    have pos1: "0 < current_decision_level (count_conflict ctx)" using pos by (simp add: count_conflict_def)
    have low: "backtrack_level r < current_decision_level ctx"
      using learned_ok_level(2) [OF ok pos1] by (simp add: count_conflict_def)
    have fp: "falsified_pairs P ctx (get_literals (learned_clause r))" and ent: "entailed F (get_literals (learned_clause r))"
      using ok by (simp_all add: learned_ok_def Let_def falsified_pairs_def pair_ok_def lit_falsified_def count_conflict_def)
    note C = cut_to_abs [OF tr cut l less_imp_le [OF low]]
    have "cdcl V (abs_trail P ctx, db_clauses P ctx)
        (upto_level (backtrack_level r) (abs_trail P ctx), insert ?d (db_clauses P ctx))"
    proof (rule cdcl.learn [OF conflict])
      have "\<forall>cl\<in>set F. cl \<in> db_clauses P ctx"
        using solver_invD(4) [OF inv] by (force simp: equivalent_db_def db_clauses_def)
      then show "entails (db_clauses P ctx) ?d"
        using ent by (auto simp: entails_def clauses_hold_def entailed_def cnf_holds_def)
      show "falsifies (abs_trail P ctx) ?d"
        using fp falsified_false_in [OF tr] by (auto simp: falsifies_def falsified_pairs_def)
      have "?d \<in> missing_clauses P (count_conflict ctx)"
        by (rule learned_missing [OF solver_inv_same_state [OF inv same] ok pos1])
      then show "?d \<notin> db_clauses P ctx" by (simp add: missing_clauses_def db_clauses_def count_conflict_def)
      show "backtrack_level r < decision_count (abs_trail P ctx)" using low l by (simp add: levels_ok_def)
    qed
    then show ?thesis using stands_for_step [OF s] C db by (simp add: abs_state_def)
  qed (use out in simp_all)
  show "stands_for P V S ctx' \<and> cdcl_failed (abs_state P ctx')"
    if out: "handle_conflict P ctx c = Inr (Inr (Inl e), ctx')"
  proof (cases rule: handle_conflict_cases [OF inv c])
    case (2 ctx1)
    have "ctx' = count_conflict ctx"
      using out by (auto simp: handle_conflict_def Let_def split: sum.splits if_splits)
    moreover have "cdcl_failed (abs_state P ctx)"
      using conflict l 2(2) by (auto simp: cdcl_failed_def abs_state_def levels_ok_def)
    ultimately show ?thesis
      using stands_for_same [OF s tr same] same_state_abs(1) [OF tr same] by simp
  qed (use out in auto)
  show "handle_conflict P ctx c \<noteq> Inr (Inr (Inr r), ctx')"
    by (cases rule: handle_conflict_cases [OF inv c]) simp_all
qed

end

section \<open>Unit propagation\<close>

definition propagation_simulated ::
    "('vs, 'cs) platform \<Rightarrow> literal list list \<Rightarrow> int set \<Rightarrow> cdcl_state \<Rightarrow> ('vs, 'cs) solver_context \<Rightarrow>
     ('vs, 'cs) solver_context \<Rightarrow> bool" where
  "propagation_simulated P F V S ctx0 ctx \<longleftrightarrow> propagation_from P F ctx0 ctx \<and> stands_for P V S ctx"

lemma propagation_round_simulated:
  assumes sim: "propagation_simulated P F V S ctx0 ctx"
  shows "propagation_round P ctx = Some (Inl ctx') \<Longrightarrow> propagation_simulated P F V S ctx0 ctx'"
    and "propagation_round P ctx = Some (Inr out) \<Longrightarrow> propagation_simulated P F V S ctx0 (snd out)"
proof -
  have from_ctx: "propagation_from P F ctx0 ctx" and s: "stands_for P V S ctx"
    and plat: "solver_platform P" and inv: "solver_inv P F ctx"
    using sim by (simp_all add: propagation_simulated_def propagation_from_def)
  note cases = propagation_round_cases [OF from_ctx]
  obtain n conflict ctx1 where pass: "propagate_pass P (clause_ids P ctx) None ctx = (n, conflict, ctx1)"
    by (cases "propagate_pass P (clause_ids P ctx) None ctx")
  have s1: "stands_for P V S ctx1"
    by (rule solver_platform.propagate_pass_simulated [OF plat inv _ s pass]) simp
  have tr1: "trail_inv P ctx1"
    using solver_platform.propagate_pass_result [OF plat inv, of "clause_ids P ctx"] pass
    by (simp add: pass_result_def solver_inv_def)
  show "propagation_simulated P F V S ctx0 ctx'" if "propagation_round P ctx = Some (Inl ctx')"
  proof -
    have "ctx' = ctx1\<lparr>stats := (stats ctx1)\<lparr>propagations := propagations (stats ctx1) + n\<rparr>\<rparr>"
      using that pass by (simp add: propagation_round_def split: if_splits)
    then have "stands_for P V S ctx'" using stands_for_same [OF s1 tr1] by simp
    then show ?thesis using cases that by (auto simp: propagation_simulated_def)
  qed
  show "propagation_simulated P F V S ctx0 (snd out)" if "propagation_round P ctx = Some (Inr out)"
  proof -
    have "snd out = ctx1" using that pass by (auto simp: propagation_round_def split: if_splits)
    then show ?thesis using cases that s1 by (auto simp: propagation_simulated_def propagation_done_def)
  qed
qed

interpretation simulated: loop_partial "propagation_round P" "propagation_simulated P F V S ctx0"
    "\<lambda>out. propagation_simulated P F V S ctx0 (snd out)" for P F V S ctx0
  by unfold_locales (blast intro: propagation_round_simulated)+

lemma unit_propagation_simulated:
  assumes plat: "solver_platform P" and inv: "solver_inv P F ctx" and s: "stands_for P V S ctx"
    and out: "unit_propagation P ctx = Some (conflict, ctx')"
  shows "propagation_done P F ctx (conflict, ctx')" and "stands_for P V S ctx'"
proof -
  show "propagation_done P F ctx (conflict, ctx')" using unit_propagation_done [OF plat inv] out by auto
  have "propagation_simulated P F V S ctx ctx"
    using plat inv s by (simp add: propagation_simulated_def propagation_from_def)
  from simulated.loop_post [OF out [unfolded unit_propagation_def] this]
  show "stands_for P V S ctx'" by (simp add: propagation_simulated_def)
qed

section \<open>The loop\<close>

definition cdcl_start :: "model \<Rightarrow> cdcl_state" where
  "cdcl_start m = ([], set (clauses m))"

definition model_variables :: "model \<Rightarrow> int set" where
  "model_variables m = lit_value ` set (literals m)"

definition search_simulated :: "('vs, 'cs) platform \<Rightarrow> model \<Rightarrow> ('vs, 'cs) solver_context \<Rightarrow> bool" where
  "search_simulated P m ctx \<longleftrightarrow>
     search_inv P m ctx \<and> stands_for P (model_variables m) (cdcl_start m) ctx"

definition outcome_simulated ::
    "('vs, 'cs) platform \<Rightarrow> model \<Rightarrow> ('vs, 'cs) solve_outcome \<Rightarrow> bool" where
  "outcome_simulated P m out \<longleftrightarrow>
     (case fst out of
        Inl e \<Rightarrow> True
      | Inr (Inl error) \<Rightarrow>
          stands_for P (model_variables m) (cdcl_start m) (snd out) \<and> cdcl_failed (abs_state P (snd out))
      | Inr (Inr r) \<Rightarrow>
          stands_for P (model_variables m) (cdcl_start m) (snd out) \<and>
          cdcl_finished (model_variables m) (abs_state P (snd out)) \<and>
          set (result_literals r) = fst ` set (abs_trail P (snd out)))"

lemma solution_finished:
  assumes inv: "solver_inv P F ctx" and V: "set (var_values P ctx) = V" and none: "unassigned_vars P ctx = []"
    and sat: "\<forall>c\<in>set (clause_ids P ctx). is_clause_satisfied P ctx (soa_clause (clause_at P ctx c))"
  shows "cdcl_finished V (abs_state P ctx)" and "set (extract_solution P ctx) = fst ` set (abs_trail P ctx)"
proof -
  note tr = solver_invD(2) [OF inv]
  have all: "set (trail ctx) = set (var_ids P ctx)"
    using none trail_invD(2) [OF tr] by (auto simp: unassigned_vars_def filter_empty_conv)
  have lits: "fst ` set (abs_trail P ctx) = assigned_lit P ctx ` set (var_ids P ctx)"
    by (simp add: abs_trail_def abs_entry_def image_image all)
  then show "set (extract_solution P ctx) = fst ` set (abs_trail P ctx)"
    by (simp add: extract_solution_def assigned_lit_def)
  have "\<exists>l\<in>set c. true_in (abs_trail P ctx) l" if c: "c \<in> db_clauses P ctx" for c
  proof -
    obtain i where i: "i \<in> set (clause_ids P ctx)" "c = map fst (lits_of P ctx i)"
      using c by (auto simp: db_clauses_def)
    obtain p where p: "p \<in> set (lits_of P ctx i)" "lit_satisfied P ctx p"
      using sat i(1) by (auto simp: is_clause_satisfied_def list_ex_iff)
    have "pair_ok P ctx p" using solver_invD(1) [OF inv] i(1) p(1) by (simp add: linked_def)
    then have "true_in (abs_trail P ctx) (fst p)" by (rule satisfied_true_in [OF tr _ p(2)])
    then show ?thesis using i(2) p(1) by auto
  qed
  then show "cdcl_finished V (abs_state P ctx)"
    using lits V by (simp add: cdcl_finished_def abs_state_def var_values_def image_image)
qed

text \<open>A round is what it does after its restart and its propagation.\<close>

lemma simulated_round_parts:
  assumes sim: "search_simulated P m ctx" and round: "solve_round P ctx = Some out"
  obtains (conflict) c ctx1 where "unit_propagation P (restart_if_needed P ctx) = Some (Some c, ctx1)"
      "search_simulated P m ctx1" "all_falsified P ctx1 c" "out = handle_conflict P ctx1 c"
  | (quiet) ctx1 where "unit_propagation P (restart_if_needed P ctx) = Some (None, ctx1)"
      "search_simulated P m ctx1" "out = decide_or_finish P ctx1"
proof -
  have inv: "search_inv P m ctx" and s: "stands_for P (model_variables m) (cdcl_start m) ctx"
    and plat: "solver_platform P" and sinv: "solver_inv P (clauses m) ctx"
    using sim by (simp_all add: search_simulated_def search_inv_def)
  note inv0 = solver_platform.restart_solver_inv [OF plat sinv]
  note s0 = solver_platform.restart_simulated [OF plat sinv s]
  obtain conflict ctx1 where propagated: "unit_propagation P (restart_if_needed P ctx) = Some (conflict, ctx1)"
    using unit_propagation_done [OF plat inv0] by auto
  note don = unit_propagation_simulated(1) [OF plat inv0 s0 propagated]
  have inv1: "solver_inv P (clauses m) ctx1" and frame1: "search_frame P (restart_if_needed P ctx) ctx1"
    using don by (simp_all add: propagation_done_def propagation_from_def)
  have "search_inv P m ctx1"
    by (rule search_inv_base [OF inv search_base_trans [OF
        solver_platform.restart_if_needed_frame(1) [OF plat sinv] search_frame_base [OF frame1]] inv1])
  then have sim1: "search_simulated P m ctx1"
    using unit_propagation_simulated(2) [OF plat inv0 s0 propagated] by (simp add: search_simulated_def)
  show thesis
  proof (cases conflict)
    case (Some c)
    have "unit_propagation P (restart_if_needed P ctx) = Some (Some c, ctx1)" using propagated Some by simp
    moreover have "all_falsified P ctx1 c" using don Some by (simp add: propagation_done_def)
    moreover have "out = handle_conflict P ctx1 c" using round propagated Some by (simp add: solve_round_def)
    ultimately show thesis using conflict sim1 by blast
  next
    case None
    have "unit_propagation P (restart_if_needed P ctx) = Some (None, ctx1)" using propagated None by simp
    moreover have "out = decide_or_finish P ctx1" using round propagated None by (simp add: solve_round_def)
    ultimately show thesis using quiet sim1 by blast
  qed
qed

lemma search_simulatedD:
  assumes "search_simulated P m ctx"
  shows "solver_platform P" and "solver_inv P (clauses m) ctx" and "search_inv P m ctx"
    and "stands_for P (model_variables m) (cdcl_start m) ctx" and "set (var_values P ctx) = model_variables m"
  using assms by (simp_all add: search_simulated_def search_inv_def model_variables_def)

lemma solve_round_simulated:
  assumes sim: "search_simulated P m ctx" and round: "solve_round P ctx = Some out"
  shows "case out of Inl ctx' \<Rightarrow> stands_for P (model_variables m) (cdcl_start m) ctx'
    | Inr res \<Rightarrow> outcome_simulated P m res"
proof (cases rule: simulated_round_parts [OF sim round])
  case (1 c ctx1)
  note D = search_simulatedD [OF 1(2)]
  note C = solver_platform.handle_conflict_simulated [OF D(1,2) 1(3) D(4)]
  show ?thesis using C by (auto simp: 1(4) outcome_simulated_def split: sum.split prod.split)
next
  case (2 ctx1)
  note D = search_simulatedD [OF 2(2)]
  show ?thesis
  proof (cases rule: make_decision_cases [of P ctx1])
    case none
    then show ?thesis
      using D(4) solution_finished [OF D(2,5) none(1)]
      by (auto simp: 2(3) decide_or_finish_def outcome_simulated_def list_all_iff)
  next
    case (decided v)
    then have "out = Inl (assign_decision P ctx1 v)" using 2(3) by (simp add: decide_or_finish_def)
    then show ?thesis using solver_platform.decision_simulated [OF D(1,2) decided(2) D(4)] D(5) by simp
  qed
qed

interpretation search_simulated: loop_partial "solve_round P" "search_simulated P m" "outcome_simulated P m" for P m
proof unfold_locales
  fix ctx ctx' assume sim: "search_simulated P m ctx" and round: "solve_round P ctx = Some (Inl ctx')"
  have "search_inv P m ctx'"
    using search.round_inv [OF _ round] sim by (simp add: search_simulated_def)
  then show "search_simulated P m ctx'"
    using solve_round_simulated [OF sim round] by (simp add: search_simulated_def)
next
  fix ctx out assume "search_simulated P m ctx" and "solve_round P ctx = Some (Inr out)"
  then show "outcome_simulated P m out" using solve_round_simulated by fastforce
qed

end
