(* ===== verification/Sat_Simulation.thy ===== *)
theory Sat_Simulation
  imports Sat_Refinement Sat_Properties
begin

text \<open>
  The refinement of \<open>Cdcl\<close> by the solver, from the context the constructor builds: the property, and
  that the two outcomes of \<open>solve_sat\<close> are right because those of the transition system are.
\<close>

section \<open>The initial context\<close>

lemma make_solver_context_simulated:
  assumes plat: "solver_platform P" and wf: "wf_model m" and mk: "make_solver_context P m = Inr ctx"
  shows "search_simulated P m ctx"
proof -
  note spec = solver_platform.make_solver_context_spec(4) [OF plat mk]
  have "abs_state P ctx = cdcl_start m"
    using arg_cong [OF solver_platform.make_solver_context_db [OF plat mk], of set] spec
    by (simp add: abs_state_def abs_trail_def db_clauses_def cdcl_start_def)
  moreover have "levels_ok P ctx" using spec by (simp add: levels_ok_def abs_trail_def)
  ultimately show ?thesis
    using solver_platform.make_solver_context_search_inv [OF plat wf mk]
    by (simp add: search_simulated_def stands_for_def)
qed

section \<open>The refinement\<close>

text \<open>
  C3. When \<open>solve_sat\<close>, from the context the constructor builds for a well-formed model, returns,
  its rounds (propagations, decisions, learned clauses with their backjump, restarts) are steps of
  the transition system \<open>cdcl\<close> from the model's clauses and no assignment. When it reports
  \<open>unsatisfiable\<close> the state reached is failed: a clause is falsified without a decision; when it
  returns a result the state is finished: every variable is assigned, every clause has a true
  literal, and the result's literals are those of the trail.
\<close>

theorem solve_sat_refines_cdcl:
  assumes "solver_platform P" and "wf_model m" and "make_solver_context P m = Inr ctx"
    and "solve_sat P ctx = Some (Inr res, ctx')"
  shows "(cdcl (model_variables m))\<^sup>*\<^sup>* (cdcl_start m) (abs_state P ctx') \<and>
    (case res of
       Inl e \<Rightarrow> cdcl_failed (abs_state P ctx')
     | Inr r \<Rightarrow> cdcl_finished (model_variables m) (abs_state P ctx') \<and>
         set (result_literals r) = fst ` set (abs_trail P ctx'))"
  using search_simulated.loop_post [OF assms(4) [unfolded solve_sat_def]
      make_solver_context_simulated [OF assms(1-3)]]
  by (simp add: outcome_simulated_def stands_for_def split: sum.splits)

lemma example_solved:
  assumes "m = example_model \<or> m = contradiction_model"
  obtains ctx res ctx' where "make_solver_context on_lists m = Inr ctx"
    and "solve_sat on_lists ctx = Some (Inr res, ctx')"
    and "case res of Inl e \<Rightarrow> \<not> cnf_satisfiable (clauses m) | Inr r \<Rightarrow> cnf_satisfiable (clauses m)"
proof -
  obtain ctx where ctx: "make_solver_context on_lists m = Inr ctx" using example_context assms by blast
  have wf: "wf_model m" "literals m \<noteq> []" using assms example_wf example_literals by blast+
  have "restart_schedule_ok (conf m) (3 ^ length (literals m))"
    and "activity_headroom (conf m) (length (concat (clauses m))) (3 ^ length (literals m))"
    using assms example_schedule example_headroom by blast+
  from solve_sat_correct [OF on_lists_platform wf ctx this] obtain res ctx' where
    "solve_sat on_lists ctx = Some (Inr res, ctx')"
    and "case res of
      Inl e \<Rightarrow> e = unsatisfiable \<and> \<not> cnf_satisfiable (clauses m)
    | Inr r \<Rightarrow> is_solution m (result_literals r) \<and> cnf_holds (valuation_of (result_literals r)) (clauses m)" .
  then show thesis using that [OF ctx] by (cases res) (auto simp: cnf_satisfiable_def)
qed

theorem solve_sat_refines_cdcl_witness:
  "(\<exists>S. (cdcl (model_variables example_model))\<^sup>*\<^sup>* (cdcl_start example_model) S \<and>
      cdcl_finished (model_variables example_model) S) \<and>
   (\<exists>S. (cdcl (model_variables contradiction_model))\<^sup>*\<^sup>* (cdcl_start contradiction_model) S \<and> cdcl_failed S)"
proof (intro conjI)
  obtain ctx res ctx' where s: "make_solver_context on_lists example_model = Inr ctx"
    "solve_sat on_lists ctx = Some (Inr res, ctx')"
    "case res of Inl e \<Rightarrow> \<not> cnf_satisfiable (clauses example_model) | Inr r \<Rightarrow> cnf_satisfiable (clauses example_model)"
    using example_solved by blast
  note R = solve_sat_refines_cdcl [OF on_lists_platform example_wf(1) s(1,2)]
  show "\<exists>S. (cdcl (model_variables example_model))\<^sup>*\<^sup>* (cdcl_start example_model) S \<and>
      cdcl_finished (model_variables example_model) S"
    using R s(3) example_satisfiable by (intro exI [of _ "abs_state on_lists ctx'"]) (cases res; simp)
next
  obtain ctx res ctx' where s: "make_solver_context on_lists contradiction_model = Inr ctx"
    "solve_sat on_lists ctx = Some (Inr res, ctx')"
    "case res of Inl e \<Rightarrow> \<not> cnf_satisfiable (clauses contradiction_model)
     | Inr r \<Rightarrow> cnf_satisfiable (clauses contradiction_model)"
    using example_solved by blast
  note R = solve_sat_refines_cdcl [OF on_lists_platform example_wf(2) s(1,2)]
  show "\<exists>S. (cdcl (model_variables contradiction_model))\<^sup>*\<^sup>* (cdcl_start contradiction_model) S \<and> cdcl_failed S"
    using R s(3) example_unsatisfiable by (intro exI [of _ "abs_state on_lists ctx'"]) (cases res; simp)
qed

text \<open>Through the refinement, what the transition system guarantees holds of the solver's outcomes.\<close>

lemma refined_outcome:
  assumes wf: "wf_model m" and steps: "(cdcl (model_variables m))\<^sup>*\<^sup>* (cdcl_start m) S"
  shows "cdcl_failed S \<Longrightarrow> \<not> cnf_satisfiable (clauses m)"
    and "cdcl_finished (model_variables m) S \<Longrightarrow> cnf_holds (valuation_of (map fst (fst S))) (clauses m)"
proof -
  show "\<not> cnf_satisfiable (clauses m)" if "cdcl_failed S"
    using cdcl_failed_unsatisfiable [OF steps [unfolded cdcl_start_def] that]
    by (simp add: clauses_hold_def cnf_satisfiable_def cnf_holds_def)
  have nz: "\<forall>c\<in>set (clauses m). \<forall>l\<in>set c. raw_value l \<noteq> 0" using wf by (auto simp: wf_model_def)
  show "cnf_holds (valuation_of (map fst (fst S))) (clauses m)" if "cdcl_finished (model_variables m) S"
    using cdcl_finished_satisfiable [OF steps [unfolded cdcl_start_def] that nz]
    by (simp add: clauses_hold_def cnf_holds_def)
qed

end
