(* ===== verification/Sat_Statistics.thy ===== *)
theory Sat_Statistics
  imports Sat_Simulation
begin

text \<open>
  What the search costs, read off the statistics of the solver: every conflict but a last one at level 0
  learns one clause that was missing, clauses are never removed, and levels are bounded by the number
  of variables.
\<close>

section \<open>Steps that learn nothing\<close>

definition same_counts :: "('vs, 'cs) solver_context \<Rightarrow> ('vs, 'cs) solver_context \<Rightarrow> bool" where
  "same_counts ctx ctx' \<longleftrightarrow>
     clauses_soa ctx' = clauses_soa ctx \<and> conflicts (stats ctx') = conflicts (stats ctx) \<and>
     learned_clause_count (stats ctx') = learned_clause_count (stats ctx) \<and>
     max_decision_lvl (stats ctx') = max_decision_lvl (stats ctx)"

lemma same_counts_refl [simp]: "same_counts ctx ctx"
  by (simp add: same_counts_def)

lemma same_counts_trans: "same_counts ctx1 ctx2 \<Longrightarrow> same_counts ctx2 ctx3 \<Longrightarrow> same_counts ctx1 ctx3"
  by (simp add: same_counts_def)

lemma backtrack_loop_counts:
  "clauses_soa (backtrack_loop P level ctx) = clauses_soa ctx \<and> stats (backtrack_loop P level ctx) = stats ctx"
  by (induction P level ctx rule: backtrack_loop.induct)
    (subst (1 2) backtrack_loop.simps, simp add: set_var_def)

lemma backtrack_counts:
  "clauses_soa (backtrack P ctx level) = clauses_soa ctx" "stats (backtrack P ctx level) = stats ctx"
  using backtrack_loop_counts [of P level ctx] by (simp_all add: backtrack_def)

lemma restart_counts: "same_counts ctx (restart_if_needed P ctx)"
  by (simp add: restart_if_needed_def same_counts_def backtrack_counts Let_def)

lemma propagate_counts: "propagate P conflict ctx c = (b, conflict', ctx') \<Longrightarrow> same_counts ctx ctx'"
  by (auto simp: propagate_def same_counts_def assign_propagated_def set_var_def split: if_splits list.splits)

lemma propagate_pass_counts: "propagate_pass P cs conflict ctx = (n, conflict', ctx') \<Longrightarrow> same_counts ctx ctx'"
proof (induction cs arbitrary: conflict conflict' ctx ctx' n)
  case (Cons c cs)
  obtain b conflict1 ctx1 where p: "propagate P conflict ctx c = (b, conflict1, ctx1)"
    by (cases "propagate P conflict ctx c")
  obtain n1 conflict2 ctx2 where q: "propagate_pass P cs conflict1 ctx1 = (n1, conflict2, ctx2)"
    by (cases "propagate_pass P cs conflict1 ctx1")
  have "ctx2 = ctx'" using Cons.prems p q by simp
  then show ?case using same_counts_trans [OF propagate_counts [OF p] Cons.IH [OF q]] by simp
qed simp

interpretation propagation_counts: loop_partial "propagation_round P" "same_counts ctx0"
    "\<lambda>out. same_counts ctx0 (snd out)" for P ctx0
proof unfold_locales
  fix ctx ctx' assume "same_counts ctx0 ctx" and "propagation_round P ctx = Some (Inl ctx')"
  moreover from this(2) obtain n conflict ctx1 where "propagate_pass P (clause_ids P ctx) None ctx = (n, conflict, ctx1)"
    and "ctx' = ctx1\<lparr>stats := (stats ctx1)\<lparr>propagations := propagations (stats ctx1) + n\<rparr>\<rparr>"
    by (auto simp: propagation_round_def split: prod.splits if_splits)
  ultimately show "same_counts ctx0 ctx'" using propagate_pass_counts by (force simp: same_counts_def)
next
  fix ctx and out :: "struct_id option \<times> ('a, 'b) solver_context"
  assume "same_counts ctx0 ctx" and "propagation_round P ctx = Some (Inr out)"
  moreover from this(2) obtain n where "propagate_pass P (clause_ids P ctx) None ctx = (n, fst out, snd out)"
    by (auto simp: propagation_round_def split: prod.splits if_splits)
  ultimately show "same_counts ctx0 (snd out)" using propagate_pass_counts same_counts_trans by blast
qed

lemma unit_propagation_counts:
  "unit_propagation P ctx = Some (conflict, ctx') \<Longrightarrow> same_counts ctx ctx'"
  using propagation_counts.loop_post [of P ctx "(conflict, ctx')" ctx] by (simp add: unit_propagation_def)

section \<open>Conflicts\<close>

context solver_platform begin

lemma handle_conflict_counts:
  assumes "handle_conflict P ctx c = Inl ctx'"
  shows "length (clause_ids P ctx') = Suc (length (clause_ids P ctx)) \<and>
    conflicts (stats ctx') = Suc (conflicts (stats ctx)) \<and>
    learned_clause_count (stats ctx') = Suc (learned_clause_count (stats ctx)) \<and>
    max_decision_lvl (stats ctx') = max_decision_lvl (stats ctx)"
proof -
  obtain r where res: "resolve_conflict P (count_conflict ctx) c = Inr r"
    using assms by (auto simp: handle_conflict_def Let_def split: sum.splits if_splits)
  let ?L = "learned_clause r"
  have ne: "\<not> is_empty ?L" using assms res by (auto simp: handle_conflict_def Let_def split: if_splits)
  obtain ctx2 where learn: "learn_additional_clause P (count_conflict ctx) ?L = Inr ctx2"
    and upd: "update_vsids_activity P (backtrack P ctx2 (backtrack_level r)) ?L = Inr ctx'"
    using assms res ne by (auto simp: handle_conflict_def Let_def split: sum.splits if_splits)
  obtain w where w: "ctx2 = (count_conflict ctx)\<lparr>clauses_soa := fst (soa_insert (clauses_lib P) (clauses_soa ctx)
        \<lparr>soa_clause = ?L, soa_watcher = w, soa_clause_compiler_ctx = empty_metadata\<rparr>),
      stats := (stats (count_conflict ctx))
        \<lparr>learned_clause_count := learned_clause_count (stats (count_conflict ctx)) + 1\<rparr>\<rparr>"
    using learn ne by (auto simp: learn_additional_clause_def count_conflict_def split: sum.splits)
  obtain vs where "ctx' = (backtrack P ctx2 (backtrack_level r))\<lparr>vars_soa := vs\<rparr>"
    using upd by (auto simp: update_vsids_activity_def split: sum.splits)
  then show ?thesis by (simp add: w backtrack_counts count_conflict_def)
qed

lemma handle_conflict_unsat_counts:
  "handle_conflict P ctx c = Inr (Inr (Inl e), ctx') \<Longrightarrow> ctx' = count_conflict ctx"
  by (auto simp: handle_conflict_def Let_def split: sum.splits if_splits)

end

section \<open>The loop\<close>

definition search_counts :: "('vs, 'cs) platform \<Rightarrow> model \<Rightarrow> ('vs, 'cs) solver_context \<Rightarrow> bool" where
  "search_counts P m ctx \<longleftrightarrow>
     length (clause_ids P ctx) = length (clauses m) + learned_clause_count (stats ctx) \<and>
     card (db_clauses P ctx) = card (set (clauses m)) + learned_clause_count (stats ctx) \<and>
     learned_clause_count (stats ctx) + card (missing_clauses P ctx) \<le> 3 ^ length (literals m) \<and>
     max_decision_lvl (stats ctx) \<le> length (literals m)"

definition outcome_counts ::
    "('vs, 'cs) platform \<Rightarrow> model \<Rightarrow> ('vs, 'cs) solve_outcome \<Rightarrow> bool" where
  "outcome_counts P m out \<longleftrightarrow>
     (case fst out of
        Inl e \<Rightarrow> True
      | Inr res \<Rightarrow>
          search_counts P m (snd out) \<and>
          conflicts (stats (snd out)) =
            learned_clause_count (stats (snd out)) + (case res of Inl _ \<Rightarrow> 1 | Inr _ \<Rightarrow> 0))"

text \<open>A level is opened by a variable on the trail.\<close>

lemma level_bound:
  assumes "search_inv P m ctx" and "levels_ok P ctx"
  shows "current_decision_level ctx \<le> length (literals m)"
proof -
  have tr: "trail_inv P ctx" and vals: "var_values P ctx = map lit_value (literals m)"
    using assms(1) by (simp_all add: search_inv_def solver_inv_def)
  have "current_decision_level ctx \<le> length (abs_trail P ctx)"
    using assms(2) by (simp add: levels_ok_def decision_count_def)
  also have "\<dots> = card (set (trail ctx))"
    using distinct_card [OF trail_invD(1) [OF tr]] by (simp add: abs_trail_def)
  also have "\<dots> \<le> card (set (var_ids P ctx))"
    using trail_invD(2) [OF tr] by (intro card_mono) auto
  also have "\<dots> \<le> length (var_ids P ctx)" by (rule card_length)
  also have "\<dots> = length (literals m)" using arg_cong [OF vals, of length] by (simp add: var_values_def)
  finally show ?thesis .
qed

lemma search_counts_same:
  assumes "same_counts ctx ctx'" and "search_inv P m ctx" and "search_inv P m ctx'" and "search_counts P m ctx"
  shows "search_counts P m ctx'"
  using assms by (simp add: same_counts_def search_counts_def search_inv_def db_clauses_def missing_clauses_def)

lemma counts_round:
  assumes sim: "search_simulated P m ctx" and cnt: "search_counts P m ctx"
    and eq: "conflicts (stats ctx) = learned_clause_count (stats ctx)"
    and round: "solve_round P ctx = Some out" and sim': "\<And>ctx'. out = Inl ctx' \<Longrightarrow> search_simulated P m ctx'"
  shows "case out of
      Inl ctx' \<Rightarrow> search_counts P m ctx' \<and> conflicts (stats ctx') = learned_clause_count (stats ctx')
    | Inr res \<Rightarrow> outcome_counts P m res"
proof (cases rule: simulated_round_parts [OF sim round])
  case (1 c ctx1)
  note D = search_simulatedD [OF 1(2)]
  have same: "same_counts ctx ctx1" using 1(1) unit_propagation_counts restart_counts same_counts_trans by blast
  have cnt1: "search_counts P m ctx1"
    by (rule search_counts_same [OF same search_simulatedD(3) [OF sim] D(3) cnt])
  have eq1: "conflicts (stats ctx1) = learned_clause_count (stats ctx1)" using same eq by (simp add: same_counts_def)
  show ?thesis
  proof (cases rule: solver_platform.handle_conflict_cases [OF D(1,2) 1(3)])
    case (1 ctx2)
    have out: "out = Inl ctx2" using \<open>out = handle_conflict P ctx1 c\<close> 1(1) by simp
    note H = solver_platform.handle_conflict_counts [OF D(1) 1(1)]
    have less: "card (missing_clauses P ctx2) < card (missing_clauses P ctx1)"
      by (rule psubset_card_mono [OF finite_missing 1(5)])
    obtain d where d: "db_clauses P ctx2 = insert d (db_clauses P ctx1)" using 1(8) by blast
    moreover have "db_clauses P ctx2 \<noteq> db_clauses P ctx1"
      using 1(5) search_base_values [OF 1(3)] by (auto simp: missing_clauses_def)
    ultimately have "d \<notin> db_clauses P ctx1" by (metis insert_absorb)
    then have "card (db_clauses P ctx2) = Suc (card (db_clauses P ctx1))"
      unfolding d by (rule card_insert_disjoint [rotated]) (simp add: db_clauses_def)
    then show ?thesis using cnt1 eq1 H less by (simp add: out search_counts_def)
  next
    case (2 ctx2)
    have out: "out = Inr (Inr (Inl unsatisfiable), ctx2)" using \<open>out = handle_conflict P ctx1 c\<close> 2(1) by simp
    have "ctx2 = count_conflict ctx1"
      by (rule solver_platform.handle_conflict_unsat_counts [OF D(1) 2(1)])
    then show ?thesis
      using cnt1 eq1
      by (simp add: out outcome_counts_def search_counts_def count_conflict_def db_clauses_def missing_clauses_def
          var_values_def)
  next
    case (3 ctx2)
    then show ?thesis using \<open>out = handle_conflict P ctx1 c\<close> by (simp add: outcome_counts_def)
  qed
next
  case (2 ctx1)
  note D = search_simulatedD [OF 2(2)]
  have same: "same_counts ctx ctx1" using 2(1) unit_propagation_counts restart_counts same_counts_trans by blast
  have cnt1: "search_counts P m ctx1"
    by (rule search_counts_same [OF same search_simulatedD(3) [OF sim] D(3) cnt])
  have eq1: "conflicts (stats ctx1) = learned_clause_count (stats ctx1)" using same eq by (simp add: same_counts_def)
  show ?thesis
  proof (cases rule: make_decision_cases [of P ctx1])
    case none
    then show ?thesis using cnt1 eq1 by (auto simp: 2(3) decide_or_finish_def outcome_counts_def)
  next
    case (decided v)
    let ?ctx2 = "assign_decision P ctx1 v"
    have out: "out = Inl ?ctx2" using 2(3) decided(1) by (simp add: decide_or_finish_def)
    have sim2: "search_simulated P m ?ctx2" by (rule sim' [OF out])
    note D2 = search_simulatedD [OF sim2]
    have lvl: "current_decision_level ?ctx2 \<le> length (literals m)"
      using level_bound [OF D2(3)] D2(4) by (simp add: stands_for_def)
    have st: "clauses_soa ?ctx2 = clauses_soa ctx1" "conflicts (stats ?ctx2) = conflicts (stats ctx1)"
      "learned_clause_count (stats ?ctx2) = learned_clause_count (stats ctx1)"
      "max_decision_lvl (stats ?ctx2) = max (max_decision_lvl (stats ctx1)) (current_decision_level ?ctx2)"
      by (simp_all add: assign_decision_def set_var_def Let_def)
    have "missing_clauses P ?ctx2 = missing_clauses P ctx1"
      using D(3) D2(3) by (simp add: missing_clauses_def db_clauses_def search_inv_def st(1))
    then show ?thesis
      using cnt1 eq1 lvl by (simp add: out search_counts_def db_clauses_def st)
  qed
qed

interpretation round_counts: loop_partial "solve_round P"
    "\<lambda>ctx. search_simulated P m ctx \<and> search_counts P m ctx \<and>
       conflicts (stats ctx) = learned_clause_count (stats ctx)"
    "outcome_counts P m" for P m
proof unfold_locales
  fix ctx ctx'
  assume inv: "search_simulated P m ctx \<and> search_counts P m ctx \<and>
      conflicts (stats ctx) = learned_clause_count (stats ctx)"
    and round: "solve_round P ctx = Some (Inl ctx')"
  have sim': "search_simulated P m ctx'" using search_simulated.round_inv [OF _ round] inv by blast
  then show "search_simulated P m ctx' \<and> search_counts P m ctx' \<and>
      conflicts (stats ctx') = learned_clause_count (stats ctx')"
    using counts_round [of P m ctx "Inl ctx'"] round inv by simp
next
  fix ctx out
  assume "search_simulated P m ctx \<and> search_counts P m ctx \<and>
      conflicts (stats ctx) = learned_clause_count (stats ctx)"
    and "solve_round P ctx = Some (Inr out)"
  then show "outcome_counts P m out" using counts_round [of P m ctx "Inr out"] by simp
qed

section \<open>The costs of a search\<close>

text \<open>
  C23. When \<open>solve_sat\<close>, from the context the constructor builds for a well-formed model of \<open>n\<close> variables,
  returns: each conflict has learned one clause that was not in the database, but for the conflict that
  shows a model unsatisfiable; at most \<open>3 ^ n\<close> clauses were learned, none was removed, and no level above
  \<open>n\<close> was opened.
\<close>

theorem solve_sat_costs:
  assumes "solver_platform P" and "wf_model m" and "make_solver_context P m = Inr ctx"
    and "solve_sat P ctx = Some (Inr res, ctx')"
  shows "conflicts (stats ctx') =
      learned_clause_count (stats ctx') + (case res of Inl _ \<Rightarrow> 1 | Inr _ \<Rightarrow> 0) \<and>
    length (clause_ids P ctx') = length (clauses m) + learned_clause_count (stats ctx') \<and>
    card (db_clauses P ctx') = card (set (clauses m)) + learned_clause_count (stats ctx') \<and>
    learned_clause_count (stats ctx') \<le> 3 ^ length (literals m) \<and>
    max_decision_lvl (stats ctx') \<le> length (literals m)"
proof -
  note sim = make_solver_context_simulated [OF assms(1-3)]
  note spec = solver_platform.make_solver_context_spec(4) [OF assms(1,3)]
  note db = solver_platform.make_solver_context_db [OF assms(1,3)]
  have "length (var_ids P ctx) = length (literals m)"
    using search_simulatedD(3) [OF sim] map_eq_imp_length_eq unfolding search_inv_def var_values_def by blast
  then have "search_counts P m ctx"
    using spec card_missing_le [of P ctx] arg_cong [OF db, of length] arg_cong [OF db, of set]
    by (simp add: search_counts_def zero_statistics_def db_clauses_def)
  then show ?thesis
    using round_counts.loop_post [OF assms(4) [unfolded solve_sat_def], of m] sim spec
    by (simp add: outcome_counts_def search_counts_def zero_statistics_def)
qed

theorem solve_sat_costs_witness:
  "\<exists>ctx res ctx'. make_solver_context on_lists contradiction_model = Inr ctx \<and>
     solve_sat on_lists ctx = Some (Inr res, ctx') \<and>
     conflicts (stats ctx') = learned_clause_count (stats ctx') + 1 \<and>
     length (clause_ids on_lists ctx') = 2 + learned_clause_count (stats ctx')"
proof -
  obtain ctx res ctx' where s: "make_solver_context on_lists contradiction_model = Inr ctx"
    "solve_sat on_lists ctx = Some (Inr res, ctx')"
    "case res of Inl e \<Rightarrow> \<not> cnf_satisfiable (clauses contradiction_model)
     | Inr r \<Rightarrow> cnf_satisfiable (clauses contradiction_model)"
    using example_solved by blast
  then have "\<exists>e. res = Inl e" using example_unsatisfiable by (cases res) auto
  moreover have "length (clauses contradiction_model) = 2" by (simp add: contradiction_model_def)
  ultimately show ?thesis
    using s(1,2) solve_sat_costs [OF on_lists_platform example_wf(2) s(1,2)] by auto
qed

end
