(* ===== verification/Cnf_Reader.thy ===== *)
theory Cnf_Reader
  imports Sat_Types
begin

text \<open>
  \<open>make_model_from_cnf_file\<close> of \<open>solver.cpp\<close>: the DIMACS reader, with the parts of the C++ streams it
  uses (\<open>std::getline\<close>, formatted extraction of words and of bounded integers) and the capacities of
  the two vectors, which the checks at the end compare with the sizes. The file system is what a
  path shows to the reader; the capacity a full vector grows to is a parameter.
\<close>

section \<open>Streams\<close>

definition newline :: char where
  "newline = CHR 0x0A"

text \<open>\<open>std::getline\<close> until the end of the file: no line after a final newline.\<close>

function lines_of :: "string \<Rightarrow> string list" where
  "lines_of [] = []"
| "lines_of (c # cs) =
     takeWhile (\<lambda>d. d \<noteq> newline) (c # cs) # lines_of (drop 1 (dropWhile (\<lambda>d. d \<noteq> newline) (c # cs)))"
  by pat_completeness auto
termination
  by (relation "measure length") (auto simp: length_dropWhile_le less_Suc_eq_le le_diff_conv
      intro: order.trans [OF diff_le_self length_dropWhile_le] le_SucI)

text \<open>The unread part of a string stream, \<open>None\<close> once an extraction failed.\<close>

type_synonym istream = "string option"

definition read_word :: "istream \<Rightarrow> string \<Rightarrow> string \<times> istream" where
  "read_word st old =
     (case st of
        None \<Rightarrow> (old, None)
      | Some s \<Rightarrow>
          (case skip_ws s of
             [] \<Rightarrow> (old, None)
           | c # cs \<Rightarrow> (takeWhile (\<lambda>d. \<not> is_space d) (c # cs), Some (dropWhile (\<lambda>d. \<not> is_space d) (c # cs)))))"

text \<open>
  An integer of \<open>w\<close> bits: without digits the value is 0, out of range it is the nearest bound; both
  make the stream fail.
\<close>

definition read_int :: "nat \<Rightarrow> istream \<Rightarrow> int \<Rightarrow> int \<times> istream" where
  "read_int w st old =
     (case st of
        None \<Rightarrow> (old, None)
      | Some s \<Rightarrow>
          (case skip_ws s of
             [] \<Rightarrow> (old, None)
           | c # cs \<Rightarrow>
               (let (neg, r) = split_sign (c # cs);
                    ds = takeWhile is_digit r;
                    v = (if neg then - int (digits_value 0 ds) else int (digits_value 0 ds))
                in if ds = [] then (0, None)
                   else if v > 2 ^ (w - 1) - 1 then (2 ^ (w - 1) - 1, None)
                   else if v < - (2 ^ (w - 1)) then (- (2 ^ (w - 1)), None)
                   else (v, Some (dropWhile is_digit r)))))"

section \<open>The reader\<close>

datatype file_view = Missing | Unreadable | Readable string

record cnf_reader =
  reader_clauses :: "literal list list"
  clauses_capacity :: nat
  literals_capacity :: nat
  literals_unique :: "literal list"  \<comment> \<open>a \<open>std::set\<close>, in its order\<close>

definition empty_reader :: cnf_reader where
  "empty_reader =
     \<lparr>reader_clauses = [], clauses_capacity = 0, literals_capacity = 0, literals_unique = []\<rparr>"

text \<open>
  \<open>reserve\<close> of an \<open>int\<close>: a negative number becomes a size no vector has. The standard asks for a capacity of
  at least the number reserved; here, as in the common implementations, it is that number when it grows.
\<close>

definition reserve :: "int \<Rightarrow> nat \<Rightarrow> nat fallible" where
  "reserve n capacity = (if n < 0 then Inl Length_Error else Inr (max capacity (nat n)))"

text \<open>Insertion into the set, whose order compares variables.\<close>

fun insert_unique :: "literal \<Rightarrow> literal list \<Rightarrow> literal list" where
  "insert_unique l [] = [l]"
| "insert_unique l (k # ks) =
     (if lit_less l k then l # k # ks else if lit_less k l then k # insert_unique l ks else k # ks)"

definition read_header :: "string \<Rightarrow> cnf_reader \<Rightarrow> cnf_reader fallible" where
  "read_header ln r =
     (if clauses_capacity r > 0 then Inl (Runtime_Error ''Unexpected 'p' is specified twice'')
      else
        (let (p, st1) = read_word (Some ln) [];
             (cnf, st2) = read_word st1 [];
             (num_variables, st3) = read_int 32 st2 0;
             (num_clauses, st4) = read_int 32 st3 0
         in if p \<noteq> ''p'' \<or> cnf \<noteq> ''cnf'' then Inl (Runtime_Error ''Invalid CNF format'')
            else
              (case reserve num_variables (literals_capacity r) of
                 Inl e \<Rightarrow> Inl e
               | Inr lc \<Rightarrow>
                   (case reserve num_clauses (clauses_capacity r) of
                      Inl e \<Rightarrow> Inl e
                    | Inr cc \<Rightarrow> Inr (r\<lparr>literals_capacity := lc, clauses_capacity := cc\<rparr>)))))"

text \<open>
  The literals of a clause line, up to a 0 or the first text that is no number. \<open>std::abs\<close> of the
  least number is undefined.
\<close>

lemma read_int_shorter: "read_int w (Some s) old = (v, Some s') \<Longrightarrow> length s' < length s"
proof -
  assume r: "read_int w (Some s) old = (v, Some s')"
  obtain c cs where c: "skip_ws s = c # cs" using r by (cases "skip_ws s") (auto simp: read_int_def)
  obtain neg t where t: "split_sign (c # cs) = (neg, t)" by (cases "split_sign (c # cs)")
  have ds: "takeWhile is_digit t \<noteq> []" and s': "s' = dropWhile is_digit t"
    using r by (auto simp: read_int_def c t Let_def split: if_splits)
  have "length t = length (takeWhile is_digit t) + length s'"
    unfolding s' by (metis length_append takeWhile_dropWhile_id)
  moreover have "0 < length (takeWhile is_digit t)" using ds by simp
  moreover have "length t \<le> length (c # cs)" using t by (auto simp: split_sign_def split: if_splits)
  moreover have "length (c # cs) \<le> length s"
    unfolding c [symmetric] skip_ws_def by (rule length_dropWhile_le)
  ultimately show "length s' < length s" by linarith
qed

function read_clause :: "string \<Rightarrow> literal list fallible" where
  "read_clause s =
     (case read_int 64 (Some s) 0 of
        (v, None) \<Rightarrow> Inr []
      | (v, Some s') \<Rightarrow>
          if v = 0 then Inr []
          else if v = - (2 ^ 63) then Inl Undefined_Behaviour
          else (case read_clause s' of Inl e \<Rightarrow> Inl e | Inr ls \<Rightarrow> Inr (Literal v # ls)))"
  by pat_completeness auto
termination
  by (relation "measure length") (auto dest: read_int_shorter [OF sym])

declare read_clause.simps [simp del]

text \<open>\<open>push_back\<close> on a vector of \<open>sz\<close> elements.\<close>

definition grown :: "(nat \<Rightarrow> nat) \<Rightarrow> nat \<Rightarrow> nat \<Rightarrow> nat" where
  "grown grow sz capacity = (if sz < capacity then capacity else grow capacity)"

definition read_line :: "(nat \<Rightarrow> nat) \<Rightarrow> string \<Rightarrow> cnf_reader \<Rightarrow> cnf_reader fallible" where
  "read_line grow ln r =
     (if ln = [] \<or> hd ln = CHR ''c'' then Inr r
      else if hd ln = CHR ''p'' then read_header ln r
      else
        (case read_clause ln of
           Inl e \<Rightarrow> Inl e
         | Inr clause \<Rightarrow>
             (let r1 = r\<lparr>literals_unique :=
                           foldl (\<lambda>us l. insert_unique (Literal \<bar>raw_value l\<bar>) us) (literals_unique r) clause\<rparr>
              in if clause = [] then Inr r1
                 else Inr (r1\<lparr>reader_clauses := reader_clauses r1 @ [clause],
                              clauses_capacity :=
                                grown grow (length (reader_clauses r1)) (clauses_capacity r1)\<rparr>))))"

fun read_lines :: "(nat \<Rightarrow> nat) \<Rightarrow> string list \<Rightarrow> cnf_reader \<Rightarrow> cnf_reader fallible" where
  "read_lines grow [] r = Inr r"
| "read_lines grow (ln # rest) r =
     (case read_line grow ln r of Inl e \<Rightarrow> Inl e | Inr r' \<Rightarrow> read_lines grow rest r')"

definition capacity_message :: "string \<Rightarrow> nat \<Rightarrow> nat \<Rightarrow> string" where
  "capacity_message what_more expected got =
     ''More '' @ what_more @ '' than expected, expected '' @ string_of_nat expected @
     '' but got '' @ string_of_nat got"

definition finish_model :: "bool \<Rightarrow> cnf_reader \<Rightarrow> model fallible" where
  "finish_model nd r =
     (case fabko_assert nd (length (literals_unique r) = literals_capacity r)
             (capacity_message ''literals'' (literals_capacity r) (length (literals_unique r))) of
        Inl e \<Rightarrow> Inl e
      | Inr _ \<Rightarrow>
          (case fabko_assert nd (length (reader_clauses r) = clauses_capacity r)
                  (capacity_message ''clauses'' (clauses_capacity r) (length (reader_clauses r))) of
             Inl e \<Rightarrow> Inl e
           | Inr _ \<Rightarrow>
               Inr \<lparr>literals = literals_unique r, clauses = reader_clauses r,
                    literal_context = Map.empty, conf = default_configuration\<rparr>))"

definition make_model_from_cnf_file :: "bool \<Rightarrow> (nat \<Rightarrow> nat) \<Rightarrow> file_view \<Rightarrow> model fallible" where
  "make_model_from_cnf_file nd grow cnf_file =
     (case cnf_file of
        Missing \<Rightarrow> Inl (Runtime_Error ''CNF file does not exist'')
      | Unreadable \<Rightarrow> Inl (Runtime_Error ''Could not open CNF file'')
      | Readable text \<Rightarrow>
          (case read_lines grow (lines_of text) empty_reader of
             Inl e \<Rightarrow> Inl e
           | Inr r \<Rightarrow> finish_model nd r))"

section \<open>What the reader keeps\<close>

definition reader_inv :: "cnf_reader \<Rightarrow> bool" where
  "reader_inv r \<longleftrightarrow>
     sorted_wrt (<) (map lit_value (literals_unique r)) \<and>
     set (literals_unique r) = (\<lambda>l. Literal \<bar>raw_value l\<bar>) ` set (concat (reader_clauses r)) \<and>
     (\<forall>c\<in>set (reader_clauses r). c \<noteq> [] \<and> (\<forall>l\<in>set c. raw_value l \<noteq> 0 \<and> \<bar>raw_value l\<bar> < 2 ^ 63))"

lemma insert_unique_set:
  assumes "\<forall>k\<in>set ks. 0 \<le> raw_value k" and "0 \<le> raw_value l"
  shows "set (insert_unique l ks) = insert l (set ks)"
  using assms
proof (induction ks)
  case (Cons k ks)
  have "k = l" if "\<not> lit_less l k" "\<not> lit_less k l"
    using that Cons.prems by (cases k; cases l) (auto simp: lit_less_def)
  then show ?case using Cons by auto
qed simp

lemma insert_unique_sorted:
  "sorted_wrt (<) (map lit_value ks) \<Longrightarrow> sorted_wrt (<) (map lit_value (insert_unique l ks))"
proof (induction ks)
  case (Cons k ks)
  have sub: "lit_value ` set (insert_unique l ks) \<subseteq> insert (lit_value l) (lit_value ` set ks)" for ks
    by (induction ks) auto
  show ?case
    using Cons sub [of ks] by (auto simp: lit_less_def lit_value_def)
qed simp

lemma insert_all_unique:
  assumes "\<forall>k\<in>set ks. 0 \<le> raw_value k" and "sorted_wrt (<) (map lit_value ks)"
  shows "sorted_wrt (<) (map lit_value (foldl (\<lambda>us l. insert_unique (Literal \<bar>raw_value l\<bar>) us) ks c)) \<and>
    set (foldl (\<lambda>us l. insert_unique (Literal \<bar>raw_value l\<bar>) us) ks c) =
      set ks \<union> (\<lambda>l. Literal \<bar>raw_value l\<bar>) ` set c"
  using assms
proof (induction c arbitrary: ks)
  case (Cons l c)
  let ?ks = "insert_unique (Literal \<bar>raw_value l\<bar>) ks"
  have "set ?ks = insert (Literal \<bar>raw_value l\<bar>) (set ks)" by (rule insert_unique_set) (use Cons.prems in simp_all)
  moreover from this have "\<forall>k\<in>set ?ks. 0 \<le> raw_value k" using Cons.prems(1) by simp
  ultimately show ?case
    using Cons.IH [of ?ks] insert_unique_sorted [OF Cons.prems(2)] by auto
qed simp

lemma read_int_range:
  "read_int w (Some s) 0 = (v, Some s') \<Longrightarrow> - (2 ^ (w - 1)) \<le> v \<and> v \<le> 2 ^ (w - 1) - 1"
  by (auto simp: read_int_def Let_def split: list.splits prod.splits if_splits)

lemma read_clause_literals:
  "read_clause s = Inr c \<Longrightarrow> l \<in> set c \<Longrightarrow> raw_value l \<noteq> 0 \<and> \<bar>raw_value l\<bar> < 2 ^ 63"
proof (induction s arbitrary: c rule: read_clause.induct)
  case (1 s)
  obtain v st where r: "read_int 64 (Some s) 0 = (v, st)" by (cases "read_int 64 (Some s) 0")
  show ?case
  proof (cases "st = None \<or> v = 0")
    case True
    then have "c = []" using 1(2) r by (subst (asm) read_clause.simps) (auto split: option.splits)
    then show ?thesis using 1(3) by simp
  next
    case False
    then obtain s' where st: "st = Some s'" by auto
    then obtain c' where c': "read_clause s' = Inr c'" "c = Literal v # c'" and v: "v \<noteq> - (2 ^ 63)"
      using 1(2) r False by (subst (asm) read_clause.simps) (auto split: if_splits sum.splits)
    have "- (2 ^ 63) \<le> v \<and> v \<le> 2 ^ 63 - 1" using read_int_range [of 64 s v s'] r st by simp
    then show ?thesis
      using 1(1) [OF r [symmetric] st] False v c' 1(3) by auto
  qed
qed

lemma reader_inv_empty: "reader_inv empty_reader"
  by (simp add: reader_inv_def empty_reader_def)

lemma read_line_inv:
  assumes inv: "reader_inv r" and rd: "read_line grow ln r = Inr r'"
  shows "reader_inv r'"
proof (cases "ln = [] \<or> hd ln = CHR ''c'' \<or> hd ln = CHR ''p''")
  case True
  then have "literals_unique r' = literals_unique r \<and> reader_clauses r' = reader_clauses r"
    using rd by (auto simp: read_line_def read_header_def Let_def split: if_splits prod.splits sum.splits)
  then show ?thesis using inv by (simp add: reader_inv_def)
next
  case False
  then obtain c where c: "read_clause ln = Inr c"
    using rd by (auto simp: read_line_def split: sum.splits)
  let ?us = "foldl (\<lambda>us l. insert_unique (Literal \<bar>raw_value l\<bar>) us) (literals_unique r) c"
  have pos: "\<forall>k\<in>set (literals_unique r). 0 \<le> raw_value k" using inv by (auto simp: reader_inv_def)
  have us: "sorted_wrt (<) (map lit_value ?us)"
    "set ?us = set (literals_unique r) \<union> (\<lambda>l. Literal \<bar>raw_value l\<bar>) ` set c"
    using insert_all_unique [OF pos] inv by (simp_all add: reader_inv_def)
  have lits: "\<forall>l\<in>set c. raw_value l \<noteq> 0 \<and> \<bar>raw_value l\<bar> < 2 ^ 63" using read_clause_literals [OF c] by blast
  show ?thesis
  proof (cases "c = []")
    case True
    then have "r' = r" using rd c False by (simp add: read_line_def)
    then show ?thesis using inv by simp
  next
    case ne: False
    then have "literals_unique r' = ?us" "reader_clauses r' = reader_clauses r @ [c]"
      using rd c False by (auto simp: read_line_def Let_def)
    then show ?thesis using inv us lits ne by (auto simp: reader_inv_def image_Un)
  qed
qed

lemma read_lines_inv: "reader_inv r \<Longrightarrow> read_lines grow lns r = Inr r' \<Longrightarrow> reader_inv r'"
  by (induction lns arbitrary: r) (auto split: sum.splits dest: read_line_inv)

lemma read_lines_append:
  "read_lines grow rows1 r = Inr r' \<Longrightarrow> read_lines grow (rows1 @ rows2) r = read_lines grow rows2 r'"
  by (induction rows1 arbitrary: r) (auto split: sum.splits)

lemma finish_model_Inr:
  assumes "finish_model nd r = Inr m"
  shows "m = \<lparr>literals = literals_unique r, clauses = reader_clauses r,
              literal_context = Map.empty, conf = default_configuration\<rparr>"
    and "nd \<or> (length (literals_unique r) = literals_capacity r \<and> length (reader_clauses r) = clauses_capacity r)"
  using assms by (auto simp: finish_model_def fabko_assert_Inr_iff split: sum.splits)

section \<open>Printing and reading back\<close>

definition dimacs_clause :: "literal list \<Rightarrow> string" where
  "dimacs_clause c = concat (map (\<lambda>l. string_of_int (raw_value l) @ '' '') c) @ ''0''"

definition dimacs_text :: "model \<Rightarrow> string" where
  "dimacs_text m =
     ''p cnf '' @ string_of_nat (length (literals m)) @ '' '' @ string_of_nat (length (clauses m)) @ [newline] @
     concat (map (\<lambda>c. dimacs_clause c @ [newline]) (clauses m))"

text \<open>The models the format can express: their variables are those of their clauses, in order.\<close>

definition printable :: "model \<Rightarrow> bool" where
  "printable m \<longleftrightarrow>
     sorted_wrt (<) (map lit_value (literals m)) \<and>
     set (literals m) = (\<lambda>l. Literal \<bar>raw_value l\<bar>) ` set (concat (clauses m)) \<and>
     (\<forall>c\<in>set (clauses m). c \<noteq> [] \<and> (\<forall>l\<in>set c. raw_value l \<noteq> 0 \<and> \<bar>raw_value l\<bar> < 2 ^ 63)) \<and>
     length (literals m) < 2 ^ 31 \<and> length (clauses m) < 2 ^ 31 \<and>
     literal_context m = Map.empty \<and> conf m = default_configuration"

lemma lines_of_newline: "newline \<notin> set xs \<Longrightarrow> lines_of (xs @ newline # rest) = xs # lines_of rest"
proof -
  assume "newline \<notin> set xs"
  then have "\<And>x. x \<in> set xs \<Longrightarrow> x \<noteq> newline" by auto
  then have *: "takeWhile (\<lambda>d. d \<noteq> newline) (xs @ newline # rest) = xs"
    "dropWhile (\<lambda>d. d \<noteq> newline) (xs @ newline # rest) = newline # rest"
    by (simp_all add: takeWhile_append2 dropWhile_append2)
  obtain c cs where c: "xs @ newline # rest = c # cs" by (cases "xs @ newline # rest") simp_all
  show ?thesis using * by (simp only: c lines_of.simps) simp
qed

lemma digit_not_newline: "is_digit c \<Longrightarrow> c \<noteq> newline"
  by (auto simp: is_digit_def newline_def)

lemma read_int_string:
  assumes "- (2 ^ (w - 1)) \<le> i" and "i \<le> 2 ^ (w - 1) - 1" and "\<not> is_digit x"
  shows "read_int w (Some (string_of_int i @ x # r)) old = (i, Some (x # r))"
proof -
  have ne: "string_of_int i @ x # r \<noteq> []" by simp
  then obtain c cs where c: "string_of_int i @ x # r = c # cs" by (cases "string_of_int i @ x # r") simp_all
  have sk: "skip_ws (string_of_int i @ x # r) = c # cs" using skip_ws_int [of i "x # r"] c by simp
  have sp: "split_sign (c # cs) = (i < 0, string_of_nat (nat \<bar>i\<bar>) @ x # r)"
    using split_sign_int [of i "x # r"] c by simp
  have "(if i < 0 then - int (nat \<bar>i\<bar>) else int (nat \<bar>i\<bar>)) = i" by simp
  then show ?thesis
    using assms
    by (simp add: read_int_def sk sp takeWhile_digits [OF assms(3)] digits_value_string_of_nat Let_def)
qed

lemma read_int_skip: "is_space x \<Longrightarrow> read_int w (Some (x # s)) old = read_int w (Some s) old"
  by (simp add: read_int_def skip_ws_def)

lemma read_int_last:
  "i \<le> 2 ^ (w - 1) - 1 \<Longrightarrow> 0 \<le> i \<Longrightarrow> read_int w (Some (string_of_int i)) old = (i, Some [])"
proof -
  assume i: "i \<le> 2 ^ (w - 1) - 1" "0 \<le> i"
  obtain c cs where c: "string_of_int i = c # cs"
    by (cases "string_of_int i") (simp_all add: string_of_int_def split: if_splits)
  have sk: "skip_ws (string_of_int i) = c # cs" using skip_ws_int [of i "[]"] c by simp
  have sp: "split_sign (c # cs) = (False, string_of_nat (nat i))"
    using split_sign_int [of i "[]"] c i by simp
  have t: "takeWhile is_digit (string_of_nat (nat i)) = string_of_nat (nat i)"
    "dropWhile is_digit (string_of_nat (nat i)) = []"
    using string_of_nat_digits by (auto simp: takeWhile_eq_all_conv dropWhile_eq_Nil_conv)
  show ?thesis using i by (simp add: read_int_def sk sp t digits_value_string_of_nat Let_def)
qed

lemma space_facts: "is_space CHR '' ''" "\<not> is_digit CHR '' ''" "newline \<noteq> CHR '' ''" "newline \<noteq> CHR ''0''"
  "newline \<noteq> CHR ''-''"
  by (simp_all add: is_space_def is_digit_def newline_def)

lemma read_clause_skip: "is_space x \<Longrightarrow> read_clause (x # s) = read_clause s"
  by (subst (1 2) read_clause.simps) (simp add: read_int_skip)

lemma read_clause_dimacs:
  "\<forall>l\<in>set c. raw_value l \<noteq> 0 \<and> \<bar>raw_value l\<bar> < 2 ^ 63 \<Longrightarrow> read_clause (dimacs_clause c) = Inr c"
proof (induction c)
  case Nil
  have "string_of_int 0 = ''0''" by code_simp
  then have "read_int 64 (Some ''0'') 0 = (0, Some [])" using read_int_last [of 0 64 0] by simp
  then show ?case by (subst read_clause.simps) (simp add: dimacs_clause_def)
next
  case (Cons l c)
  have "read_int 64 (Some (string_of_int (raw_value l) @ CHR '' '' # dimacs_clause c)) 0 =
      (raw_value l, Some (CHR '' '' # dimacs_clause c))"
    by (rule read_int_string) (use Cons.prems space_facts in auto)
  moreover have "dimacs_clause (l # c) = string_of_int (raw_value l) @ CHR '' '' # dimacs_clause c"
    by (simp add: dimacs_clause_def)
  ultimately show ?case
    using Cons space_facts by (subst read_clause.simps) (auto simp: read_clause_skip)
qed

lemma dimacs_clause_chars:
  assumes "ch \<in> set (dimacs_clause c)"
  shows "is_digit ch \<or> ch = CHR ''-'' \<or> ch = CHR '' ''"
proof -
  have "is_digit CHR ''0''" by (simp add: is_digit_def)
  then show ?thesis using assms by (auto simp: dimacs_clause_def dest: string_of_int_chars split: if_splits)
qed

lemma dimacs_clause_line:
  "newline \<notin> set (dimacs_clause c)" "dimacs_clause c \<noteq> []"
  "hd (dimacs_clause c) \<noteq> CHR ''c''" "hd (dimacs_clause c) \<noteq> CHR ''p''"
proof -
  show ne: "dimacs_clause c \<noteq> []" by (simp add: dimacs_clause_def)
  show "newline \<notin> set (dimacs_clause c)"
    using dimacs_clause_chars [of newline c] digit_not_newline space_facts by auto
  have "is_digit (hd (dimacs_clause c)) \<or> hd (dimacs_clause c) = CHR ''-'' \<or> hd (dimacs_clause c) = CHR '' ''"
    by (rule dimacs_clause_chars [OF hd_in_set [OF ne]])
  then show "hd (dimacs_clause c) \<noteq> CHR ''c''" "hd (dimacs_clause c) \<noteq> CHR ''p''"
    by (auto simp: is_digit_def)
qed

text \<open>The header and the clause lines, read one after the other.\<close>

lemma read_word_step:
  assumes "w \<noteq> []" and "\<forall>d\<in>set w. \<not> is_space d" and "is_space x"
  shows "read_word (Some (w @ x # r)) old = (w, Some (x # r))"
proof -
  obtain c cs where w: "w = c # cs" using assms(1) by (cases w) auto
  have "takeWhile (\<lambda>d. \<not> is_space d) (w @ x # r) = w" "dropWhile (\<lambda>d. \<not> is_space d) (w @ x # r) = x # r"
    using assms(2,3) by (simp_all add: takeWhile_append2 dropWhile_append2)
  then show ?thesis using assms(2) by (simp add: read_word_def skip_ws_def w)
qed

lemma read_word_skip: "is_space x \<Longrightarrow> read_word (Some (x # s)) old = read_word (Some s) old"
  by (simp add: read_word_def skip_ws_def)

lemma read_header_dimacs:
  assumes "n < 2 ^ 31" and "k < 2 ^ 31"
  shows "read_header (''p cnf '' @ string_of_nat n @ '' '' @ string_of_nat k) empty_reader =
    Inr (empty_reader\<lparr>literals_capacity := n, clauses_capacity := k\<rparr>)"
proof -
  let ?s = "string_of_int (int n) @ CHR '' '' # string_of_int (int k)"
  have "read_word (Some (''p'' @ CHR '' '' # ''cnf'' @ CHR '' '' # ?s)) [] =
      (''p'', Some (CHR '' '' # ''cnf'' @ CHR '' '' # ?s))"
    by (rule read_word_step) (simp_all add: is_space_def)
  moreover have "read_word (Some (''cnf'' @ CHR '' '' # ?s)) [] = (''cnf'', Some (CHR '' '' # ?s))"
    by (rule read_word_step) (simp_all add: is_space_def)
  moreover have "read_int 32 (Some ?s) 0 = (int n, Some (CHR '' '' # string_of_int (int k)))"
    by (rule read_int_string) (use assms space_facts in simp_all)
  moreover have "read_int 32 (Some (string_of_int (int k))) 0 = (int k, Some [])"
    by (rule read_int_last) (use assms in simp_all)
  moreover have "\<And>j. string_of_int (int j) = string_of_nat j" by (simp add: string_of_int_def)
  ultimately show ?thesis
    by (simp add: read_header_def empty_reader_def reserve_def Let_def
        read_word_skip [OF space_facts(1)] read_int_skip [OF space_facts(1)])
qed

abbreviation add_variables :: "literal list \<Rightarrow> literal list \<Rightarrow> literal list" where
  "add_variables \<equiv> foldl (\<lambda>us l. insert_unique (Literal \<bar>raw_value l\<bar>) us)"

lemma read_line_dimacs:
  assumes c: "c \<noteq> []" "\<forall>l\<in>set c. raw_value l \<noteq> 0 \<and> \<bar>raw_value l\<bar> < 2 ^ 63"
    and room: "length (reader_clauses r) < clauses_capacity r"
  shows "read_line grow (dimacs_clause c) r =
    Inr (r\<lparr>literals_unique := add_variables (literals_unique r) c, reader_clauses := reader_clauses r @ [c]\<rparr>)"
  using dimacs_clause_line [of c] c room
  by (cases r) (simp add: read_line_def read_clause_dimacs [OF c(2)] grown_def Let_def)

lemma read_lines_dimacs:
  assumes "\<forall>c\<in>set cs. c \<noteq> [] \<and> (\<forall>l\<in>set c. raw_value l \<noteq> 0 \<and> \<bar>raw_value l\<bar> < 2 ^ 63)"
    and "length (reader_clauses r) + length cs \<le> clauses_capacity r"
  shows "read_lines grow (map dimacs_clause cs) r =
    Inr (r\<lparr>literals_unique := add_variables (literals_unique r) (concat cs),
           reader_clauses := reader_clauses r @ cs\<rparr>)"
  using assms
proof (induction cs arbitrary: r)
  case (Cons c cs)
  let ?r = "r\<lparr>literals_unique := add_variables (literals_unique r) c, reader_clauses := reader_clauses r @ [c]\<rparr>"
  have "read_line grow (dimacs_clause c) r = Inr ?r"
    by (rule read_line_dimacs) (use Cons.prems in auto)
  moreover have "read_lines grow (map dimacs_clause cs) ?r =
    Inr (?r\<lparr>literals_unique := add_variables (literals_unique ?r) (concat cs),
            reader_clauses := reader_clauses ?r @ cs\<rparr>)"
    by (rule Cons.IH) (use Cons.prems in auto)
  ultimately show ?case by simp
qed simp

lemma lines_of_clauses:
  "lines_of (concat (map (\<lambda>c. dimacs_clause c @ [newline]) cs)) = map dimacs_clause cs"
proof (induction cs)
  case (Cons c cs)
  then show ?case using dimacs_clause_line(1) by (simp add: lines_of_newline del: lines_of.simps(2))
qed simp

lemma lines_of_dimacs:
  "lines_of (dimacs_text m) =
    (''p cnf '' @ string_of_nat (length (literals m)) @ '' '' @ string_of_nat (length (clauses m))) #
    map dimacs_clause (clauses m)"
proof -
  let ?h = "''p cnf '' @ string_of_nat (length (literals m)) @ '' '' @ string_of_nat (length (clauses m))"
  have "newline \<notin> set ?h"
    using digit_not_newline string_of_nat_digits by (fastforce simp: newline_def)
  then have "lines_of (?h @ newline # concat (map (\<lambda>c. dimacs_clause c @ [newline]) (clauses m))) =
      ?h # map dimacs_clause (clauses m)"
    using lines_of_newline [of ?h] by (metis lines_of_clauses)
  then show ?thesis by (simp add: dimacs_text_def)
qed

lemma printable_read:
  assumes "printable m"
  shows "make_model_from_cnf_file nd grow (Readable (dimacs_text m)) = Inr m"
proof -
  let ?us = "add_variables [] (concat (clauses m))"
  have wf: "\<forall>c\<in>set (clauses m). c \<noteq> [] \<and> (\<forall>l\<in>set c. raw_value l \<noteq> 0 \<and> \<bar>raw_value l\<bar> < 2 ^ 63)"
    using assms by (simp add: printable_def)
  have len: "length (literals m) < 2 ^ 31" "length (clauses m) < 2 ^ 31" using assms by (simp_all add: printable_def)
  have us: "?us = literals m"
    by (rule strictly_sorted_unique) (use assms insert_all_unique [of "[]"] in \<open>auto simp: printable_def\<close>)
  let ?h = "''p cnf '' @ string_of_nat (length (literals m)) @ '' '' @ string_of_nat (length (clauses m))"
  let ?r = "empty_reader\<lparr>literals_capacity := length (literals m), clauses_capacity := length (clauses m)\<rparr>"
  have "read_line grow ?h empty_reader = read_header ?h empty_reader" by (simp add: read_line_def)
  also have "\<dots> = Inr ?r" by (rule read_header_dimacs [OF len])
  finally have "read_lines grow (?h # map dimacs_clause (clauses m)) empty_reader =
      read_lines grow (map dimacs_clause (clauses m)) ?r" by simp
  also have "\<dots> = Inr (?r\<lparr>literals_unique := ?us, reader_clauses := clauses m\<rparr>)"
    using read_lines_dimacs [OF wf, of ?r grow] by (simp add: empty_reader_def)
  finally show ?thesis
    using us assms
    by (cases m) (simp add: make_model_from_cnf_file_def lines_of_dimacs finish_model_def printable_def)
qed

end
