(* ===== verification/Cnf_Properties.thy ===== *)
theory Cnf_Properties
  imports Cnf_Reader Sat_Properties
begin

text \<open>
  The properties of the DIMACS reader: what it reads back, what its models are worth to the solver,
  which files it refuses, and which wrong headers it lets through.
\<close>

text \<open>The text of the three clauses of the example, with a comment and an empty line.\<close>

definition example_text :: string where
  "example_text =
     ''c example'' @ [newline] @ ''p cnf 3 3'' @ [newline] @ [newline] @ ''1 2 0'' @ [newline] @
     ''-1 3 0'' @ [newline] @ ''-2 -3 0'' @ [newline]"

definition doubling :: "nat \<Rightarrow> nat" where
  "doubling capacity = max 1 (2 * capacity)"

text \<open>
  C8. The text of a model the format can express is read back as that model, in every build and
  however vectors grow.
\<close>

theorem cnf_file_roundtrip:
  assumes "printable m"
  shows "make_model_from_cnf_file nd grow (Readable (dimacs_text m)) = Inr m"
  by (rule printable_read [OF assms])

lemma example_printable: "printable example_model"
  by (auto simp: printable_def example_model_def lit_value_def)

theorem cnf_file_roundtrip_witness:
  "make_model_from_cnf_file False doubling (Readable (dimacs_text example_model)) = Inr example_model"
  by (rule cnf_file_roundtrip [OF example_printable])

lemma read_model_facts:
  assumes "make_model_from_cnf_file nd grow f = Inr m"
  shows "wf_model m" and "conf m = default_configuration" and "literal_context m = Map.empty"
    and "\<forall>c\<in>set (clauses m). c \<noteq> []"
    and "literals m = [] \<longleftrightarrow> clauses m = []"
    and "sorted_wrt (<) (map lit_value (literals m))"
proof -
  obtain t where f: "f = Readable t" using assms by (cases f) (simp_all add: make_model_from_cnf_file_def)
  obtain r where r: "read_lines grow (lines_of t) empty_reader = Inr r" and fin: "finish_model nd r = Inr m"
    using assms by (auto simp: make_model_from_cnf_file_def f split: sum.splits)
  have inv: "reader_inv r" by (rule read_lines_inv [OF reader_inv_empty r])
  note m = finish_model_Inr(1) [OF fin]
  have strict: "sorted_wrt (<) (map lit_value (literals m))" using inv by (simp add: m reader_inv_def)
  have lits: "set (literals m) = (\<lambda>l. Literal \<bar>raw_value l\<bar>) ` set (concat (clauses m))"
    and cls: "\<forall>c\<in>set (clauses m). c \<noteq> [] \<and> (\<forall>l\<in>set c. raw_value l \<noteq> 0)"
    unfolding m model.simps using inv unfolding reader_inv_def by blast+
  show "sorted_wrt (<) (map lit_value (literals m))" by (rule strict)
  show "conf m = default_configuration" "literal_context m = Map.empty" by (simp_all add: m)
  show "\<forall>c\<in>set (clauses m). c \<noteq> []" using cls by blast
  have "lit_value l \<in> lit_value ` set (literals m)" if "c \<in> set (clauses m)" "l \<in> set c" for c l
  proof -
    have "Literal \<bar>raw_value l\<bar> \<in> set (literals m)" unfolding lits set_concat using that by blast
    then show ?thesis by (rule rev_image_eqI) (simp add: lit_value_def)
  qed
  then show "wf_model m"
    using cls strict by (simp add: wf_model_def strict_sorted_iff)
  show "literals m = [] \<longleftrightarrow> clauses m = []"
  proof
    assume "literals m = []"
    then have "concat (clauses m) = []" using lits by simp
    then show "clauses m = []" using cls by (cases "clauses m") auto
  qed (use lits in simp)
qed

text \<open>
  C28. Every model the reader returns is well formed, lists its variables in increasing order without
  repetition, holds no empty clause, and is accepted by the context constructor in every build.
\<close>

theorem cnf_file_model_usable:
  assumes "make_model_from_cnf_file nd grow f = Inr m" and "solver_platform P"
  shows "wf_model m \<and> sorted_wrt (<) (map lit_value (literals m)) \<and> [] \<notin> set (clauses m) \<and>
    (\<exists>ctx. make_solver_context P m = Inr ctx)"
proof -
  note facts = read_model_facts [OF assms(1)]
  have "declared m l" if "c \<in> set (clauses m)" "l \<in> set c" for c l
    using facts(1) that by (auto simp: wf_model_def declared_def)
  then have "\<exists>ctx. make_solver_context P m = Inr ctx"
    unfolding solver_platform.make_solver_context_Inr_iff [OF assms(2)] using facts(4) by blast
  then show ?thesis using facts by blast
qed

lemma example_text_read: "make_model_from_cnf_file False doubling (Readable example_text) = Inr example_model"
proof -
  have "read_lines doubling (lines_of example_text) empty_reader =
    Inr \<lparr>reader_clauses = clauses example_model, clauses_capacity = 3, literals_capacity = 3,
         literals_unique = literals example_model\<rparr>"
    by code_simp
  then show ?thesis
    by (simp add: make_model_from_cnf_file_def finish_model_def) (simp add: example_model_def)
qed

theorem cnf_file_model_usable_witness:
  "wf_model example_model \<and> (\<exists>ctx. make_solver_context on_lists example_model = Inr ctx)"
  using cnf_file_model_usable [OF example_text_read on_lists_platform] by blast

lemma read_model_decided:
  assumes "make_model_from_cnf_file nd grow f = Inr m" and "solver_platform P"
    and "length (literals m) \<le> 9" and "length (concat (clauses m)) \<le> 10 ^ 9"
  shows "\<exists>ctx. make_solver_context P m = Inr ctx \<and>
    (if clauses m = [] then solve_sat P ctx = None
     else \<exists>res ctx'. solve_sat P ctx = Some (Inr res, ctx') \<and>
       (case res of
          Inl e \<Rightarrow> e = unsatisfiable \<and> \<not> cnf_satisfiable (clauses m)
        | Inr r \<Rightarrow> cnf_holds (valuation_of (result_literals r)) (clauses m)))"
proof -
  note facts = read_model_facts [OF assms(1)]
  have "declared m l" if "c \<in> set (clauses m)" "l \<in> set c" for c l
    using facts(1) that by (auto simp: wf_model_def declared_def)
  then obtain ctx where ctx: "make_solver_context P m = Inr ctx"
    using solver_platform.make_solver_context_Inr_iff [OF assms(2)] facts(4) by blast
  show ?thesis
  proof (cases "clauses m = []")
    case True
    then have "solve_sat P ctx = None" by (intro no_literals_stuck [OF assms(2) ctx]) (simp_all add: facts(5))
    then show ?thesis using ctx True by auto
  next
    case False
    then have lits: "literals m \<noteq> []" by (simp add: facts(5))
    from solve_sat_correct [OF assms(2) facts(1) lits ctx default_bounds [OF facts(2) assms(3,4)]]
    obtain res ctx' where "solve_sat P ctx = Some (Inr res, ctx')"
      and "case res of
        Inl e \<Rightarrow> e = unsatisfiable \<and> \<not> cnf_satisfiable (clauses m)
      | Inr r \<Rightarrow> is_solution m (result_literals r) \<and> cnf_holds (valuation_of (result_literals r)) (clauses m)" .
    then show ?thesis using ctx False by (auto split: sum.splits)
  qed
qed

text \<open>
  C4. From the file to the answer, with the default configuration: for a file read without an error,
  \<open>solve_sat\<close> on the context built from its model does not return when the file has no clause;
  otherwise, with at most nine variables and \<open>10 ^ 9\<close> literals, it returns a solution of the
  clauses or \<open>unsatisfiable\<close>, whichever is right.
\<close>

theorem cnf_file_decided:
  assumes "make_model_from_cnf_file nd grow f = Inr m" and "solver_platform P"
    and "length (literals m) \<le> 9" and "length (concat (clauses m)) \<le> 10 ^ 9"
  shows "\<exists>ctx. make_solver_context P m = Inr ctx \<and>
    (if clauses m = [] then solve_sat P ctx = None
     else \<exists>res ctx'. solve_sat P ctx = Some (Inr res, ctx') \<and>
       (case res of
          Inl e \<Rightarrow> e = unsatisfiable \<and> \<not> cnf_satisfiable (clauses m)
        | Inr r \<Rightarrow> cnf_holds (valuation_of (result_literals r)) (clauses m)))"
  by (rule read_model_decided [OF assms])

theorem cnf_file_decided_witness:
  "\<exists>ctx r ctx'. make_solver_context on_lists example_model = Inr ctx \<and>
     solve_sat on_lists ctx = Some (Inr (Inr r), ctx') \<and>
     cnf_holds (valuation_of (result_literals r)) (clauses example_model)"
proof -
  have "clauses example_model \<noteq> []" by (simp add: example_model_def)
  moreover have "length (literals example_model) \<le> 9" "length (concat (clauses example_model)) \<le> 10 ^ 9"
    by (simp_all add: example_model_def)
  ultimately obtain ctx res ctx' where mk: "make_solver_context on_lists example_model = Inr ctx"
    and s: "solve_sat on_lists ctx = Some (Inr res, ctx')"
    and c: "case res of
          Inl e \<Rightarrow> e = unsatisfiable \<and> \<not> cnf_satisfiable (clauses example_model)
        | Inr r \<Rightarrow> cnf_holds (valuation_of (result_literals r)) (clauses example_model)"
    using cnf_file_decided [OF example_text_read on_lists_platform] by auto
  then show ?thesis using example_satisfiable by (cases res) auto
qed

section \<open>The counts of the header\<close>

lemma read_line_capacities:
  assumes "read_line grow row r = Inr r'" and "\<not> (row \<noteq> [] \<and> hd row = CHR ''p'')"
  shows "literals_capacity r' = literals_capacity r \<and>
    (\<exists>j. clauses_capacity r' = (grow ^^ j) (clauses_capacity r))"
proof -
  have "clauses_capacity r' = (grow ^^ 0) (clauses_capacity r) \<or>
      clauses_capacity r' = (grow ^^ 1) (clauses_capacity r)"
    using assms by (auto simp: read_line_def grown_def Let_def split: if_splits sum.splits)
  moreover have "literals_capacity r' = literals_capacity r"
    using assms by (auto simp: read_line_def Let_def split: if_splits sum.splits)
  ultimately show ?thesis by blast
qed

lemma read_lines_capacities:
  "read_lines grow rows r = Inr r' \<Longrightarrow> \<forall>row\<in>set rows. \<not> (row \<noteq> [] \<and> hd row = CHR ''p'') \<Longrightarrow>
   literals_capacity r' = literals_capacity r \<and>
   (\<exists>j. clauses_capacity r' = (grow ^^ j) (clauses_capacity r))"
proof (induction rows arbitrary: r)
  case Nil
  then show ?case by (auto intro: exI [of _ 0])
next
  case (Cons row rows)
  then obtain r1 where r1: "read_line grow row r = Inr r1" and r': "read_lines grow rows r1 = Inr r'"
    by (auto split: sum.splits)
  obtain i where "literals_capacity r1 = literals_capacity r" "clauses_capacity r1 = (grow ^^ i) (clauses_capacity r)"
    using read_line_capacities [OF r1] Cons.prems(2) by auto
  moreover obtain j where "literals_capacity r' = literals_capacity r1"
    "clauses_capacity r' = (grow ^^ j) (clauses_capacity r1)"
    using Cons.IH [OF r'] Cons.prems(2) by auto
  ultimately show ?case by (auto simp: funpow_add [THEN fun_cong, unfolded comp_apply, symmetric])
qed

text \<open>
  C29. In a debug build a file that starts with the header of \<open>n\<close> variables and \<open>k\<close> clauses and is
  accepted uses exactly \<open>n\<close> variables; its number of clauses is \<open>k\<close>, or a capacity the vector grew
  to from \<open>k\<close>.
\<close>

theorem cnf_file_counts_checked:
  assumes "lines_of t = (''p cnf '' @ string_of_nat n @ '' '' @ string_of_nat k) # rows"
    and "n < 2 ^ 31" and "k < 2 ^ 31" and "\<forall>row\<in>set rows. \<not> (row \<noteq> [] \<and> hd row = CHR ''p'')"
    and "make_model_from_cnf_file False grow (Readable t) = Inr m"
  shows "length (literals m) = n \<and> (\<exists>j. length (clauses m) = (grow ^^ j) k)"
proof -
  let ?h = "''p cnf '' @ string_of_nat n @ '' '' @ string_of_nat k"
  obtain r where r: "read_lines grow (lines_of t) empty_reader = Inr r" and fin: "finish_model False r = Inr m"
    using assms(5) by (auto simp: make_model_from_cnf_file_def split: sum.splits)
  have "read_line grow ?h empty_reader = Inr (empty_reader\<lparr>literals_capacity := n, clauses_capacity := k\<rparr>)"
    using read_header_dimacs [OF assms(2,3)] by (simp add: read_line_def)
  then have "read_lines grow rows (empty_reader\<lparr>literals_capacity := n, clauses_capacity := k\<rparr>) = Inr r"
    using r unfolding assms(1) read_lines.simps by simp
  from read_lines_capacities [OF this assms(4)]
  have "literals_capacity r = n \<and> (\<exists>j. clauses_capacity r = (grow ^^ j) k)" by simp
  then show ?thesis
    using finish_model_Inr [OF fin] by simp
qed

lemma example_text_lines:
  "lines_of (drop 10 example_text) = (''p cnf '' @ string_of_nat 3 @ '' '' @ string_of_nat 3) #
     [[], ''1 2 0'', ''-1 3 0'', ''-2 -3 0'']"
  by code_simp

lemma short_text_read:
  "make_model_from_cnf_file False doubling (Readable (drop 10 example_text)) = Inr example_model"
proof -
  have "read_lines doubling (lines_of (drop 10 example_text)) empty_reader =
    Inr \<lparr>reader_clauses = clauses example_model, clauses_capacity = 3, literals_capacity = 3,
         literals_unique = literals example_model\<rparr>"
    by code_simp
  then show ?thesis
    by (simp add: make_model_from_cnf_file_def finish_model_def) (simp add: example_model_def)
qed

theorem cnf_file_counts_checked_witness:
  "length (literals example_model) = 3 \<and> (\<exists>j. length (clauses example_model) = (doubling ^^ j) 3)"
  using cnf_file_counts_checked [OF example_text_lines _ _ _ short_text_read] by simp

text \<open>
  The check of the number of clauses compares with a capacity: a header that declares one clause
  is accepted before two when a full vector doubles, in a debug build.
\<close>

definition wrong_count_text :: string where
  "wrong_count_text = ''p cnf 2 1'' @ [newline] @ ''1 0'' @ [newline] @ ''2 0'' @ [newline]"

theorem cnf_file_wrong_count_accepted:
  "make_model_from_cnf_file False doubling (Readable wrong_count_text) =
     Inr \<lparr>literals = [Literal 1, Literal 2], clauses = [[Literal 1], [Literal 2]],
          literal_context = Map.empty, conf = default_configuration\<rparr>"
proof -
  have "read_lines doubling (lines_of wrong_count_text) empty_reader =
    Inr \<lparr>reader_clauses = [[Literal 1], [Literal 2]], clauses_capacity = 2, literals_capacity = 2,
         literals_unique = [Literal 1, Literal 2]\<rparr>"
    by code_simp
  then show ?thesis by (simp add: make_model_from_cnf_file_def finish_model_def)
qed

text \<open>
  What the reader refuses: a missing file, a file it cannot open, a line that starts with \<open>p\<close>
  once the clause vector has a capacity, and, in a debug build, a file whose clauses use variables
  without any header.
\<close>

theorem cnf_file_rejects:
  "make_model_from_cnf_file nd grow Missing = Inl (Runtime_Error ''CNF file does not exist'') \<and>
   make_model_from_cnf_file nd grow Unreadable = Inl (Runtime_Error ''Could not open CNF file'') \<and>
   (\<forall>t rows1 p rows2 r. lines_of t = rows1 @ (CHR ''p'' # p) # rows2 \<longrightarrow>
      read_lines grow rows1 empty_reader = Inr r \<longrightarrow> clauses_capacity r > 0 \<longrightarrow>
      make_model_from_cnf_file nd grow (Readable t) =
        Inl (Runtime_Error ''Unexpected 'p' is specified twice'')) \<and>
   (\<forall>t r. (\<forall>row\<in>set (lines_of t). \<not> (row \<noteq> [] \<and> hd row = CHR ''p'')) \<longrightarrow>
      read_lines grow (lines_of t) empty_reader = Inr r \<longrightarrow> reader_clauses r \<noteq> [] \<longrightarrow>
      (\<exists>msg. make_model_from_cnf_file False grow (Readable t) =
        Inl (Fabko_Thrown \<lparr>ec = \<lparr>ec_value = 42, ec_category = Fbk_Category\<rparr>, what = msg\<rparr>)))"
proof (intro conjI allI impI)
  show "make_model_from_cnf_file nd grow Missing = Inl (Runtime_Error ''CNF file does not exist'')"
    "make_model_from_cnf_file nd grow Unreadable = Inl (Runtime_Error ''Could not open CNF file'')"
    by (simp_all add: make_model_from_cnf_file_def)
next
  fix t rows1 p rows2 r
  assume "lines_of t = rows1 @ (CHR ''p'' # p) # rows2"
    and r: "read_lines grow rows1 empty_reader = Inr r" and cap: "clauses_capacity r > 0"
  then have "read_lines grow (lines_of t) empty_reader = read_lines grow ((CHR ''p'' # p) # rows2) r"
    by (simp add: read_lines_append del: read_lines.simps(2))
  then show "make_model_from_cnf_file nd grow (Readable t) =
      Inl (Runtime_Error ''Unexpected 'p' is specified twice'')"
    using cap by (simp add: make_model_from_cnf_file_def read_line_def read_header_def)
next
  fix t r
  assume p: "\<forall>row\<in>set (lines_of t). \<not> (row \<noteq> [] \<and> hd row = CHR ''p'')"
    and r: "read_lines grow (lines_of t) empty_reader = Inr r" and ne: "reader_clauses r \<noteq> []"
  have "literals_capacity r = 0" using read_lines_capacities [OF r p] by (simp add: empty_reader_def)
  moreover have "literals_unique r \<noteq> []"
  proof -
    have inv: "reader_inv r" by (rule read_lines_inv [OF reader_inv_empty r])
    obtain c cs where c: "reader_clauses r = c # cs" using ne by (cases "reader_clauses r") auto
    then obtain l where "l \<in> set c" using inv by (cases c) (auto simp: reader_inv_def)
    then have "set (literals_unique r) \<noteq> {}" using inv c unfolding reader_inv_def by auto
    then show ?thesis by auto
  qed
  ultimately show "\<exists>msg. make_model_from_cnf_file False grow (Readable t) =
      Inl (Fabko_Thrown \<lparr>ec = \<lparr>ec_value = 42, ec_category = Fbk_Category\<rparr>, what = msg\<rparr>)"
    by (simp add: make_model_from_cnf_file_def r finish_model_def fabko_assert_debug_False)
qed

theorem cnf_file_rejects_witness:
  "make_model_from_cnf_file True doubling (Readable (wrong_count_text @ ''p'')) =
     Inl (Runtime_Error ''Unexpected 'p' is specified twice'')"
proof -
  have "lines_of (wrong_count_text @ ''p'') = [''p cnf 2 1'', ''1 0'', ''2 0''] @ [''p'']" by code_simp
  moreover have "read_lines doubling [''p cnf 2 1'', ''1 0'', ''2 0''] empty_reader =
      Inr \<lparr>reader_clauses = [[Literal 1], [Literal 2]], clauses_capacity = 2, literals_capacity = 2,
           literals_unique = [Literal 1, Literal 2]\<rparr>"
    by code_simp
  ultimately show ?thesis using cnf_file_rejects [of True doubling] by fastforce
qed

end
