(* ===== verification/Sat_Cli.thy ===== *)
theory Sat_Cli
  imports Cnf_Properties
begin

text \<open>
  \<open>fabko/compiler/backend/sat/cli.hh\<close>: the \<open>sat\<close> command, which composes the DIMACS reader, the
  constructor and the solver over the files named on the command line. The option parser of FiL calls
  the handlers; the file system is what each path shows to the reader; log messages are left out.
\<close>

section \<open>Paths\<close>

text \<open>\<open>std::filesystem::path\<close>: the name after the last slash, and its extension from the last dot, which
  is not the first character.\<close>

definition filename :: "string \<Rightarrow> string" where
  "filename path = rev (takeWhile (\<lambda>c. c \<noteq> CHR ''/'') (rev path))"

definition extension :: "string \<Rightarrow> string" where
  "extension path =
     (let name = filename path; suffix = rev (takeWhile (\<lambda>c. c \<noteq> CHR ''.'') (rev name))
      in if name = ''..'' \<or> length name \<le> length suffix + 1 then [] else CHR ''.'' # suffix)"

definition has_extension :: "string \<Rightarrow> bool" where
  "has_extension path \<longleftrightarrow> extension path \<noteq> []"

section \<open>The command\<close>

definition add_cnf_file :: "(string \<Rightarrow> file_view) \<Rightarrow> string list \<Rightarrow> string \<Rightarrow> string list" where
  "add_cnf_file fs files path =
     (if fs path = Missing \<or> \<not> has_extension path \<or> extension path \<noteq> ''.cnf'' then files
      else files @ [path])"

text \<open>
  The results of the files processed so far, and the exception that ended the loop, if any; \<open>None\<close> when
  a file keeps the solver busy for ever.
\<close>

fun process_files ::
    "('vs, 'cs) platform \<Rightarrow> (nat \<Rightarrow> nat) \<Rightarrow> (string \<Rightarrow> file_view) \<Rightarrow> string list \<Rightarrow>
     (solver_result list list \<times> unit fallible) option" where
  "process_files P grow fs [] = Some ([], Inr ())"
| "process_files P grow fs (file # files) =
     (case make_model_from_cnf_file (ndebug P) grow (fs file) of
        Inl e \<Rightarrow> Some ([], Inl e)
      | Inr m \<Rightarrow>
          (case make_solver_context P m of
             Inl e \<Rightarrow> Some ([], Inl e)
           | Inr ctx \<Rightarrow>
               (case solve P ctx 1 of
                  None \<Rightarrow> None
                | Some (Inl e, _) \<Rightarrow> Some ([], Inl e)
                | Some (Inr results, _) \<Rightarrow>
                    map_option (\<lambda>(rest, out). (results # rest, out)) (process_files P grow fs files))))"

definition sat_command ::
    "('vs, 'cs) platform \<Rightarrow> (nat \<Rightarrow> nat) \<Rightarrow> (string \<Rightarrow> file_view) \<Rightarrow> string list \<Rightarrow>
     (solver_result list list \<times> unit fallible) option" where
  "sat_command P grow fs files = (if files = [] then Some ([], Inr ()) else process_files P grow fs files)"

section \<open>One file\<close>

text \<open>What is known of a file the solver can decide, and of the results for it.\<close>

definition decidable_file :: "bool \<Rightarrow> (nat \<Rightarrow> nat) \<Rightarrow> file_view \<Rightarrow> bool" where
  "decidable_file nd grow f \<longleftrightarrow>
     (case make_model_from_cnf_file nd grow f of
        Inl _ \<Rightarrow> False
      | Inr m \<Rightarrow> clauses m \<noteq> [] \<and> length (literals m) \<le> 9 \<and> length (concat (clauses m)) \<le> 10 ^ 9)"

definition results_right :: "bool \<Rightarrow> (nat \<Rightarrow> nat) \<Rightarrow> file_view \<Rightarrow> solver_result list \<Rightarrow> bool" where
  "results_right nd grow f rs \<longleftrightarrow>
     (\<exists>m. make_model_from_cnf_file nd grow f = Inr m \<and>
        (if cnf_satisfiable (clauses m)
         then \<exists>r. rs = [r] \<and> cnf_holds (valuation_of (result_literals r)) (clauses m)
         else rs = []))"

lemma solve_one_file:
  assumes plat: "solver_platform P" and dec: "decidable_file (ndebug P) grow f"
  obtains m ctx rs ctx' where "make_model_from_cnf_file (ndebug P) grow f = Inr m"
    and "make_solver_context P m = Inr ctx" and "solve P ctx 1 = Some (Inr rs, ctx')"
    and "results_right (ndebug P) grow f rs"
proof -
  obtain m where m: "make_model_from_cnf_file (ndebug P) grow f = Inr m" "clauses m \<noteq> []"
    "length (literals m) \<le> 9" "length (concat (clauses m)) \<le> 10 ^ 9"
    using dec by (auto simp: decidable_file_def split: sum.splits)
  obtain ctx res ctx' where ctx: "make_solver_context P m = Inr ctx" and s: "solve_sat P ctx = Some (Inr res, ctx')"
    and right: "case res of
          Inl e \<Rightarrow> e = unsatisfiable \<and> \<not> cnf_satisfiable (clauses m)
        | Inr r \<Rightarrow> cnf_holds (valuation_of (result_literals r)) (clauses m)"
    using read_model_decided [OF m(1) plat m(3,4)] m(2) by auto
  show thesis
  proof (cases res)
    case (Inl e)
    then show thesis
      using right s m(1)
      by (intro that [OF m(1) ctx, of "[]" ctx']) (simp_all add: solve_def results_right_def)
  next
    case (Inr r)
    then show thesis
      using right s m(1)
      by (intro that [OF m(1) ctx, of "[r]" ctx']) (auto simp: solve_def results_right_def cnf_satisfiable_def)
  qed
qed

lemma process_decidable:
  assumes "solver_platform P" and "\<forall>f\<in>set files. decidable_file (ndebug P) grow (fs f)"
  shows "\<exists>rss. process_files P grow fs files = Some (rss, Inr ()) \<and>
    list_all2 (results_right (ndebug P) grow) (map fs files) rss"
  using assms(2)
proof (induction files)
  case (Cons f files)
  obtain m ctx rs ctx' where "make_model_from_cnf_file (ndebug P) grow (fs f) = Inr m"
    "make_solver_context P m = Inr ctx" "solve P ctx 1 = Some (Inr rs, ctx')"
    "results_right (ndebug P) grow (fs f) rs"
    by (rule solve_one_file [OF assms(1), of grow "fs f"]) (use Cons.prems in auto)
  then show ?case using Cons by auto
qed simp

lemma process_append:
  assumes "process_files P grow fs files1 = Some (rss, Inr ())"
  shows "process_files P grow fs (files1 @ files2) =
    map_option (\<lambda>(rest, out). (rss @ rest, out)) (process_files P grow fs files2)"
  using assms
proof (induction files1 arbitrary: rss)
  case Nil
  then show ?case by (cases "process_files P grow fs files2") auto
next
  case (Cons f files1)
  then show ?case
    by (cases "process_files P grow fs files2") (auto split: sum.splits option.splits)
qed

section \<open>The properties\<close>

text \<open>
  C16. When every file can be read and has a clause, at most nine variables and at most \<open>10 ^ 9\<close> literals
  (\<open>decidable_file\<close>), the command ends without an exception and reports for each file, in their order,
  one solution that satisfies its clauses, or none if there is none. A file that cannot be read ends the
  command with an exception (\<open>sat_command_stops\<close>), and for a file without clauses it does not end.
\<close>

theorem sat_command_reports:
  assumes "solver_platform P" and "\<forall>f\<in>set files. decidable_file (ndebug P) grow (fs f)"
  shows "\<exists>rss. sat_command P grow fs files = Some (rss, Inr ()) \<and>
    list_all2 (results_right (ndebug P) grow) (map fs files) rss"
  using process_decidable [OF assms] by (auto simp: sat_command_def)

definition contradiction_text :: string where
  "contradiction_text = ''p cnf 1 2'' @ [newline] @ ''1 0'' @ [newline] @ ''-1 0''"

definition example_files :: "string \<Rightarrow> file_view" where
  "example_files path =
     (if path = ''a.cnf'' then Readable example_text
      else if path = ''dir.x/b.cnf'' then Readable contradiction_text else Missing)"

lemma contradiction_text_read:
  "make_model_from_cnf_file False doubling (Readable contradiction_text) = Inr contradiction_model"
proof -
  have "read_lines doubling (lines_of contradiction_text) empty_reader =
    Inr \<lparr>reader_clauses = clauses contradiction_model, clauses_capacity = 2, literals_capacity = 1,
         literals_unique = literals contradiction_model\<rparr>"
    by code_simp
  then show ?thesis
    by (simp add: make_model_from_cnf_file_def finish_model_def) (simp add: contradiction_model_def)
qed

lemma example_decidable:
  "\<forall>f\<in>set [''a.cnf'', ''dir.x/b.cnf'']. decidable_file (ndebug on_lists) doubling (example_files f)"
  by (simp add: example_files_def decidable_file_def example_text_read contradiction_text_read)
    (simp add: example_model_def contradiction_model_def)

theorem sat_command_reports_witness:
  "\<exists>r. sat_command on_lists doubling example_files [''a.cnf'', ''dir.x/b.cnf''] = Some ([[r], []], Inr ())"
proof -
  obtain rss where rss: "sat_command on_lists doubling example_files [''a.cnf'', ''dir.x/b.cnf''] = Some (rss, Inr ())"
    and all: "list_all2 (results_right False doubling) (map example_files [''a.cnf'', ''dir.x/b.cnf'']) rss"
    using sat_command_reports [OF on_lists_platform example_decidable] by auto
  then obtain rs1 rs2 where "rss = [rs1, rs2]"
    and "results_right False doubling (Readable example_text) rs1"
    and "results_right False doubling (Readable contradiction_text) rs2"
    by (auto simp: example_files_def list_all2_Cons1)
  moreover from this obtain r where "rs1 = [r]"
    using example_text_read example_satisfiable by (auto simp: results_right_def)
  moreover have "rs2 = []"
    using \<open>results_right False doubling (Readable contradiction_text) rs2\<close> contradiction_text_read example_unsatisfiable
    by (auto simp: results_right_def)
  ultimately show ?thesis using rss by auto
qed

text \<open>
  The exception of one file ends the command: the files before it are reported, those after it
  are not looked at.
\<close>

theorem sat_command_stops:
  assumes "solver_platform P" and "\<forall>f\<in>set files. decidable_file (ndebug P) grow (fs f)"
    and "make_model_from_cnf_file (ndebug P) grow (fs bad) = Inl e"
  shows "\<exists>rss. sat_command P grow fs (files @ bad # others) = Some (rss, Inl e) \<and> length rss = length files"
proof -
  obtain rss where rss: "process_files P grow fs files = Some (rss, Inr ())"
    and all: "list_all2 (results_right (ndebug P) grow) (map fs files) rss"
    using process_decidable [OF assms(1,2)] by blast
  have "process_files P grow fs (files @ bad # others) = Some (rss, Inl e)"
    unfolding process_append [OF rss] by (simp add: assms(3))
  then show ?thesis using list_all2_lengthD [OF all] by (auto simp: sat_command_def)
qed

theorem sat_command_stops_witness:
  "\<exists>rss. sat_command on_lists doubling example_files [''a.cnf'', ''c.cnf'', ''dir.x/b.cnf''] =
     Some (rss, Inl (Runtime_Error ''CNF file does not exist'')) \<and> length rss = 1"
proof -
  have "\<forall>f\<in>set [''a.cnf'']. decidable_file (ndebug on_lists) doubling (example_files f)"
    using example_decidable by simp
  moreover have "make_model_from_cnf_file (ndebug on_lists) doubling (example_files ''c.cnf'') =
      Inl (Runtime_Error ''CNF file does not exist'')"
    by (simp add: example_files_def make_model_from_cnf_file_def)
  ultimately show ?thesis
    using sat_command_stops [OF on_lists_platform, of "[''a.cnf'']"] by fastforce
qed

text \<open>
  The option handler takes a path only if the file exists and its extension is \<open>.cnf\<close>, whatever
  its directory; a name that is the extension alone is not taken.
\<close>

lemma extension_cnf:
  assumes "CHR ''/'' \<notin> set name"
  shows "extension (dir @ CHR ''/'' # name @ ''.cnf'') = (if name = [] then [] else ''.cnf'')"
proof -
  have "filename (dir @ CHR ''/'' # name @ ''.cnf'') = name @ ''.cnf''"
  proof -
    have "\<forall>c\<in>set (rev (name @ ''.cnf'')). c \<noteq> CHR ''/''" using assms by auto
    then have "takeWhile (\<lambda>c. c \<noteq> CHR ''/'') (rev (name @ ''.cnf'') @ CHR ''/'' # rev dir) = rev (name @ ''.cnf'')"
      using takeWhile_append2 [of "rev (name @ ''.cnf'')" "\<lambda>c. c \<noteq> CHR ''/''" "CHR ''/'' # rev dir"] by auto
    then show ?thesis by (simp add: filename_def)
  qed
  then show ?thesis by (auto simp: extension_def Let_def)
qed

theorem add_cnf_file_takes:
  assumes "CHR ''/'' \<notin> set name" and "fs (dir @ CHR ''/'' # name @ ''.cnf'') \<noteq> Missing"
  shows "add_cnf_file fs files (dir @ CHR ''/'' # name @ ''.cnf'') =
      (if name = [] then files else files @ [dir @ CHR ''/'' # name @ ''.cnf'']) \<and>
    (\<forall>path. fs path = Missing \<or> extension path \<noteq> ''.cnf'' \<longrightarrow> add_cnf_file fs files path = files)"
  using assms by (auto simp: add_cnf_file_def has_extension_def extension_cnf)

theorem add_cnf_file_takes_witness:
  "add_cnf_file example_files [] (''dir.x'' @ CHR ''/'' # ''b'' @ ''.cnf'') = [''dir.x/b.cnf'']"
proof -
  have "CHR ''/'' \<notin> set ''b''" by simp
  moreover have "example_files (''dir.x'' @ CHR ''/'' # ''b'' @ ''.cnf'') \<noteq> Missing"
    by (simp add: example_files_def)
  ultimately show ?thesis
    using add_cnf_file_takes [where name = "''b''" and dir = "''dir.x''" and fs = example_files and files = "[]"]
    by simp
qed

end
