(* ===== verification/String_Utils.thy ===== *)
theory String_Utils
  imports Fabko_Exception "HOL-Library.Sublist"
begin

text \<open>
  \<open>fabko/common/string_utils.hh\<close>: \<open>split_string\<close> for one separator and for several, \<open>trim_string\<close>
  and \<open>join\<close>. A view is the string it shows; what a splitter hands to its handler, call after call,
  is the list it returns.
\<close>

section \<open>Finding\<close>

fun find_sub :: "string \<Rightarrow> string \<Rightarrow> nat option" where
  "find_sub sep [] = (if sep = [] then Some 0 else None)"
| "find_sub sep (c # cs) = (if prefix sep (c # cs) then Some 0 else map_option Suc (find_sub sep cs))"

text \<open>\<open>std::string_view::find\<close>; \<open>npos\<close> is \<open>None\<close>.\<close>

definition string_find :: "string \<Rightarrow> string \<Rightarrow> nat \<Rightarrow> nat option" where
  "string_find input sep pos =
     (if pos \<le> length input then map_option (\<lambda>i. pos + i) (find_sub sep (drop pos input)) else None)"

text \<open>\<open>std::string_view::substr\<close>, with the end of the piece instead of its length.\<close>

definition substr :: "string \<Rightarrow> nat \<Rightarrow> nat option \<Rightarrow> string fallible" where
  "substr input pos pos_end =
     (if pos > length input then Inl Out_Of_Range
      else Inr (case pos_end of None \<Rightarrow> drop pos input | Some e \<Rightarrow> take (e - pos) (drop pos input)))"

section \<open>The functions\<close>

text \<open>
  A round of the first loop: where it starts, the pieces it may still hand over (\<open>-1\<close> for no
  limitation) and the pieces handed over so far.
\<close>

type_synonym split_state = "nat \<times> int \<times> string list"

definition limited :: "int \<Rightarrow> bool" where
  "limited limitation \<longleftrightarrow> limitation \<noteq> -1 \<and> limitation - 1 \<le> 0"

definition count_down :: "int \<Rightarrow> int" where
  "count_down limitation = (if limitation \<noteq> -1 then limitation - 1 else limitation)"

definition split_round :: "string \<Rightarrow> string \<Rightarrow> split_state \<Rightarrow> (split_state + string list fallible) option" where
  "split_round input separator st =
     (case st of (pos_start, limitation, handed) \<Rightarrow>
        let pos_end = (if limited limitation then None else string_find input separator pos_start)
        in case substr input pos_start pos_end of
             Inl e \<Rightarrow> Some (Inr (Inl e))
           | Inr piece \<Rightarrow>
               (case pos_end of
                  None \<Rightarrow> Some (Inr (Inr (handed @ [piece])))
                | Some e \<Rightarrow>
                    Some (Inl (e + length separator, count_down limitation, handed @ [piece]))))"

definition split_string :: "string \<Rightarrow> string \<Rightarrow> int \<Rightarrow> string list fallible option" where
  "split_string input separator limitation = loop_until (split_round input separator) (0, limitation, [])"

text \<open>The index of \<open>std::min_element\<close>: the first element no other is below.\<close>

definition min_index :: "nat list \<Rightarrow> nat" where
  "min_index tmp = length (takeWhile (\<lambda>t. \<exists>u\<in>set tmp. u < t) tmp)"

definition found_at :: "string \<Rightarrow> nat \<Rightarrow> string \<Rightarrow> nat" where
  "found_at input pos sep = (case string_find input sep pos of None \<Rightarrow> length input | Some v \<Rightarrow> v)"

definition split_any_round ::
    "string \<Rightarrow> string list \<Rightarrow> split_state \<Rightarrow> (split_state + string list fallible) option" where
  "split_any_round input separators st =
     (case st of (pos_start, limitation, handed) \<Rightarrow>
        let tmp = map (found_at input pos_start) separators;
            index = min_index tmp
        in if separators = [] then Some (Inr (Inl Undefined_Behaviour))
           else
             (let pos_end = (if limited limitation then length input else tmp ! index)
              in case substr input pos_start (Some pos_end) of
                   Inl e \<Rightarrow> Some (Inr (Inl e))
                 | Inr piece \<Rightarrow>
                     if pos_end < length input
                     then Some (Inl (pos_end + length (separators ! index), count_down limitation, handed @ [piece]))
                     else Some (Inr (Inr (handed @ [piece])))))"

definition split_string_any :: "string \<Rightarrow> string list \<Rightarrow> int \<Rightarrow> string list fallible option" where
  "split_string_any input separators limitation =
     loop_until (split_any_round input separators) (0, limitation, [])"

text \<open>
  \<open>trim_string\<close> builds a view from two iterators; when the first is past the second the behaviour is
  undefined.
\<close>

definition trim_string :: "string \<Rightarrow> string fallible" where
  "trim_string to_trim =
     (let begin_it = length (takeWhile is_space to_trim);
          end_it = length to_trim - length (takeWhile is_space (rev to_trim))
      in if begin_it \<le> end_it then Inr (take (end_it - begin_it) (drop begin_it to_trim))
         else Inl Undefined_Behaviour)"

definition join :: "string list \<Rightarrow> string \<Rightarrow> string" where
  "join to_join separator =
     snd (foldl (\<lambda>(first, result) j. (False, (if first then result else result @ separator) @ j))
            (True, []) to_join)"

section \<open>Finding, joining\<close>

lemma find_sub_Some: "find_sub sep s = Some i \<Longrightarrow> \<exists>r. s = take i s @ sep @ r \<and> i \<le> length s"
proof (induction s arbitrary: i)
  case (Cons c cs)
  then show ?case by (fastforce simp: prefix_def split: if_splits)
qed (auto split: if_splits)

lemma find_sub_least: "find_sub sep s = Some i \<Longrightarrow> prefix sep (drop j s) \<Longrightarrow> i \<le> j"
proof (induction s arbitrary: i j)
  case (Cons c cs)
  then show ?case by (cases j) (auto split: if_splits)
qed (auto split: if_splits)

lemma find_sub_None: "find_sub sep s = None \<longleftrightarrow> \<not> sublist sep s"
  by (induction s) (auto simp: sublist_Cons_right)

lemma found_piece_free:
  assumes "find_sub sep s = Some i" and "sep \<noteq> []"
  shows "\<not> sublist sep (take i s)"
proof
  assume "sublist sep (take i s)"
  then obtain u v where uv: "take i s = u @ sep @ v" by (auto simp: sublist_def)
  then have "s = u @ sep @ v @ drop i s" by (metis append.assoc append_take_drop_id)
  then have "prefix sep (drop (length u) s)" by (metis append_eq_conv_conj prefixI)
  then have "i \<le> length u" by (rule find_sub_least [OF assms(1)])
  moreover have "length u + length sep \<le> i" using arg_cong [OF uv, of length] by simp
  moreover have "0 < length sep" using assms(2) by simp
  ultimately show False by linarith
qed

lemma join_Nil [simp]: "join [] sep = []"
  by (simp add: join_def)

lemma join_from:
  "foldl (\<lambda>(first, result) j. (False, (if first then result else result @ sep) @ j)) (False, acc) ps =
   (False, acc @ concat (map (\<lambda>p. sep @ p) ps))"
  by (induction ps arbitrary: acc) auto

lemma join_Cons: "join (p # ps) sep = p @ concat (map (\<lambda>q. sep @ q) ps)"
  by (simp add: join_def join_from)

lemma join_snoc: "ps \<noteq> [] \<Longrightarrow> join (ps @ [q]) sep = join ps sep @ sep @ q"
  by (cases ps) (simp_all add: join_Cons)

lemma join_split_last: "join ((h @ [a]) @ [b]) sep = join (h @ [a @ sep @ b]) sep"
  by (cases h) (simp_all add: join_Cons)

lemma join_singleton [simp]: "join [p] sep = p"
  by (simp add: join_Cons)

section \<open>Splitting by one separator\<close>

definition within_limit :: "int \<Rightarrow> int \<Rightarrow> string list \<Rightarrow> bool" where
  "within_limit lim0 l h \<longleftrightarrow>
     (if lim0 = -1 then l = -1 else l + int (length h) = lim0 \<and> (h \<noteq> [] \<longrightarrow> 1 \<le> l))"

lemma within_limit_step:
  "within_limit lim0 l h \<Longrightarrow> \<not> limited l \<Longrightarrow> within_limit lim0 (count_down l) (h @ [x])"
  by (auto simp: within_limit_def limited_def count_down_def split: if_splits)

lemma within_limit_end:
  "within_limit lim0 l h \<Longrightarrow> lim0 \<noteq> -1 \<Longrightarrow> int (length (h @ [x])) \<le> max 1 lim0"
  by (cases h) (auto simp: within_limit_def)

definition split_inv :: "string \<Rightarrow> string \<Rightarrow> int \<Rightarrow> split_state \<Rightarrow> bool" where
  "split_inv input sep lim0 st \<longleftrightarrow>
     (case st of (p, l, h) \<Rightarrow>
        sep \<noteq> [] \<and> p \<le> length input \<and> join (h @ [drop p input]) sep = input \<and>
        (\<forall>x\<in>set h. \<not> sublist sep x) \<and> within_limit lim0 l h)"

definition split_post :: "string \<Rightarrow> string \<Rightarrow> int \<Rightarrow> string list fallible \<Rightarrow> bool" where
  "split_post input sep lim0 out \<longleftrightarrow>
     (\<exists>ps. out = Inr ps \<and> ps \<noteq> [] \<and> join ps sep = input \<and> (\<forall>x\<in>set (butlast ps). \<not> sublist sep x) \<and>
        (if lim0 = -1 then \<not> sublist sep (last ps) else int (length ps) \<le> max 1 lim0))"

text \<open>The three ways a round can go.\<close>

lemma string_find_Some:
  assumes "p \<le> length input" and "string_find input sep p = Some e" and "sep \<noteq> []"
  shows "p \<le> e" and "e + length sep \<le> length input" and "\<not> sublist sep (take (e - p) (drop p input))"
    and "drop p input = take (e - p) (drop p input) @ sep @ drop (e + length sep) input"
proof -
  obtain i where i: "find_sub sep (drop p input) = Some i" "e = p + i"
    using assms(1,2) by (auto simp: string_find_def)
  obtain r where r: "drop p input = take i (drop p input) @ sep @ r" "i \<le> length (drop p input)"
    using find_sub_Some [OF i(1)] by blast
  then have "r = drop (i + length sep) (drop p input)" by (metis add_diff_cancel_left' append_eq_conv_conj drop_drop length_take min.absorb2 add.commute)
  then show "drop p input = take (e - p) (drop p input) @ sep @ drop (e + length sep) input"
    using r(1) by (simp add: i(2) ac_simps)
  have "length (drop p input) = i + length sep + length r" using arg_cong [OF r(1), of length] r(2) by simp
  then show "e + length sep \<le> length input" using assms(1) by (simp add: i(2))
  show "\<not> sublist sep (take (e - p) (drop p input))"
    using found_piece_free [OF i(1) assms(3)] by (simp add: i(2))
  show "p \<le> e" by (simp add: i(2))
qed

lemma split_round_inv:
  assumes "split_inv input sep lim0 st" and "split_round input sep st = Some (Inl st')"
  shows "split_inv input sep lim0 st' \<and> length input - fst st' < length input - fst st"
proof -
  obtain p l h where st: "st = (p, l, h)" by (cases st)
  have inv: "sep \<noteq> []" "p \<le> length input" "join (h @ [drop p input]) sep = input"
    "\<forall>x\<in>set h. \<not> sublist sep x" "within_limit lim0 l h"
    using assms(1) by (simp_all add: st split_inv_def)
  from assms(2) inv(2) obtain e where lim: "\<not> limited l" and e: "string_find input sep p = Some e"
    and st': "st' = (e + length sep, count_down l, h @ [take (e - p) (drop p input)])"
    by (auto simp: st split_round_def substr_def Let_def split: if_splits option.splits)
  note f = string_find_Some [OF inv(2) e inv(1)]
  have "join ((h @ [take (e - p) (drop p input)]) @ [drop (e + length sep) input]) sep =
      join (h @ [drop p input]) sep"
    unfolding join_split_last f(4) [symmetric] ..
  then show ?thesis
    using inv f(1-3) within_limit_step [OF inv(5) lim] less_eq_Suc_le [of 0 "length sep"]
    by (auto simp: st st' split_inv_def intro!: diff_less_mono2)
qed

lemma split_round_post:
  assumes "split_inv input sep lim0 st" and "split_round input sep st = Some (Inr out)"
  shows "split_post input sep lim0 out"
proof -
  obtain p l h where st: "st = (p, l, h)" by (cases st)
  have inv: "sep \<noteq> []" "p \<le> length input" "join (h @ [drop p input]) sep = input"
    "\<forall>x\<in>set h. \<not> sublist sep x" "within_limit lim0 l h"
    using assms(1) by (simp_all add: st split_inv_def)
  from assms(2) inv(2) have out: "out = Inr (h @ [drop p input])"
    and last: "limited l \<or> string_find input sep p = None"
    by (auto simp: st split_round_def substr_def Let_def split: if_splits option.splits)
  have "\<not> sublist sep (drop p input)" if "lim0 = -1"
    using last inv(2,5) that by (auto simp: within_limit_def limited_def string_find_def find_sub_None)
  then show ?thesis
    using inv within_limit_end [OF inv(5), of "drop p input"] by (auto simp: split_post_def out)
qed

lemma split_round_returns: "\<exists>out. split_round input sep st = Some out"
  by (cases st) (auto simp: split_round_def Let_def split: sum.splits option.splits)

interpretation splitting: loop_total "split_round input sep" "split_inv input sep lim0"
  "split_post input sep lim0" "measure (\<lambda>st. length input - fst st)" for input sep lim0
  by unfold_locales
    (use split_round_inv split_round_post split_round_returns in \<open>auto simp: wf_measure\<close>)

lemma splits:
  "sep \<noteq> [] \<Longrightarrow> \<exists>out. split_string input sep lim0 = Some out \<and> split_post input sep lim0 out"
  unfolding split_string_def
  by (rule splitting.loop_returns) (simp add: split_inv_def within_limit_def)

text \<open>An empty separator is found where the search starts, again and again.\<close>

lemma find_empty: "find_sub [] s = Some 0"
  by (cases s) simp_all

interpretation empty_separator: loop_diverging "split_round input []"
    "\<lambda>(p, l, h). p \<le> length input \<and> l = -1" for input
  by unfold_locales
    (auto simp: split_round_def limited_def count_down_def string_find_def find_empty substr_def)

lemma split_empty_separator: "split_string input [] (-1) = None"
  unfolding split_string_def by (rule empty_separator.loop_diverges) simp

text \<open>Pieces free of a one-character separator are what splitting their join gives.\<close>

lemma join_unique:
  "ps \<noteq> [] \<Longrightarrow> qs \<noteq> [] \<Longrightarrow> join ps [c] = join qs [c] \<Longrightarrow>
   \<forall>p\<in>set ps. c \<notin> set p \<Longrightarrow> \<forall>q\<in>set qs. c \<notin> set q \<Longrightarrow> ps = qs"
proof (induction ps arbitrary: qs)
  case (Cons p ps)
  obtain q qs' where qs: "qs = q # qs'" using Cons.prems(2) by (cases qs) auto
  have tail: "join rs [c] = hd rs @ concat (map (\<lambda>q. [c] @ q) (tl rs))" if "rs \<noteq> []" for rs
    using that by (cases rs) (simp_all add: join_Cons)
  have step: "join (x # rs) [c] = (if rs = [] then x else x @ c # join rs [c])" for x rs
    by (cases rs) (simp_all add: join_Cons)
  have "takeWhile (\<lambda>d. d \<noteq> c) (join (x # rs) [c]) = x" if "c \<notin> set x" for x rs
    using that by (auto simp: step takeWhile_tail takeWhile_eq_all_conv)
  then have pq: "p = q" using Cons.prems(3-5) qs by (metis list.set_intros(1))
  moreover have "ps = qs'"
  proof (cases "ps = [] \<or> qs' = []")
    case True
    then show ?thesis using Cons.prems(3) unfolding qs pq step by (auto split: if_splits)
  next
    case False
    then have "join ps [c] = join qs' [c]" using Cons.prems(3) unfolding qs pq step by simp
    with Cons.IH [of qs'] False Cons.prems(4,5) qs show ?thesis by simp
  qed
  ultimately show ?case by (simp add: qs)
qed simp

lemma sublist_singleton: "sublist [c] x \<longleftrightarrow> c \<in> set x"
  by (auto simp: sublist_def in_set_conv_decomp)

lemma split_join:
  assumes "ps \<noteq> []" and "\<forall>p\<in>set ps. c \<notin> set p"
  shows "split_string (join ps [c]) [c] (-1) = Some (Inr ps)"
proof -
  obtain qs where qs: "split_string (join ps [c]) [c] (-1) = Some (Inr qs)" "qs \<noteq> []"
    and j: "join qs [c] = join ps [c]"
    and free: "\<forall>x\<in>set (butlast qs). c \<notin> set x" "c \<notin> set (last qs)"
    using splits [of "[c]" "join ps [c]" "-1"] by (auto simp: split_post_def sublist_singleton)
  have "\<forall>q\<in>set qs. c \<notin> set q"
    using free append_butlast_last_id [OF qs(2)] by (metis in_set_butlastD in_set_conv_decomp rotate1.simps(2) set_ConsD set_rotate1)
  with join_unique [OF qs(2) assms(1) j] assms(2) have "qs = ps" by blast
  then show ?thesis using qs(1) by simp
qed

section \<open>Splitting by several separators\<close>

lemma min_index_least:
  assumes "tmp \<noteq> []"
  shows "min_index tmp < length tmp" and "\<forall>t\<in>set tmp. tmp ! min_index tmp \<le> t"
proof -
  have "Min (set tmp) \<in> set tmp" using assms by simp
  then have "\<exists>t\<in>set tmp. \<not> (\<exists>u\<in>set tmp. u < t)" by (metis List.finite_set Min.coboundedI leD)
  then have "dropWhile (\<lambda>t. \<exists>u\<in>set tmp. u < t) tmp \<noteq> []" by (simp add: dropWhile_eq_Nil_conv)
  then have "length (takeWhile (\<lambda>t. \<exists>u\<in>set tmp. u < t) tmp) <
      length (takeWhile (\<lambda>t. \<exists>u\<in>set tmp. u < t) tmp @ dropWhile (\<lambda>t. \<exists>u\<in>set tmp. u < t) tmp)"
    unfolding length_append by simp
  then show l: "min_index tmp < length tmp" unfolding min_index_def takeWhile_dropWhile_id .
  show "\<forall>t\<in>set tmp. tmp ! min_index tmp \<le> t"
    using nth_length_takeWhile [OF l [unfolded min_index_def]] by (auto simp: min_index_def not_less)
qed

lemma found_at_facts:
  assumes "p \<le> length input" and "sep \<noteq> []"
  shows "p \<le> found_at input p sep \<and> found_at input p sep \<le> length input"
    and "\<not> sublist sep (take (found_at input p sep - p) (drop p input))"
    and "found_at input p sep < length input \<Longrightarrow>
      found_at input p sep + length sep \<le> length input \<and>
      drop p input = take (found_at input p sep - p) (drop p input) @ sep @
        drop (found_at input p sep + length sep) input"
proof -
  have "(p \<le> found_at input p sep \<and> found_at input p sep \<le> length input) \<and>
    \<not> sublist sep (take (found_at input p sep - p) (drop p input)) \<and>
    (found_at input p sep < length input \<longrightarrow>
      found_at input p sep + length sep \<le> length input \<and>
      drop p input = take (found_at input p sep - p) (drop p input) @ sep @
        drop (found_at input p sep + length sep) input)"
  proof (cases "string_find input sep p")
    case None
    then have "\<not> sublist sep (drop p input)" using assms(1) by (simp add: string_find_def find_sub_None)
    then show ?thesis using None assms(1) by (simp add: found_at_def)
  next
    case (Some e)
    then show ?thesis using string_find_Some [OF assms(1) Some assms(2)] by (simp add: found_at_def)
  qed
  then show "p \<le> found_at input p sep \<and> found_at input p sep \<le> length input"
    "\<not> sublist sep (take (found_at input p sep - p) (drop p input))"
    "found_at input p sep < length input \<Longrightarrow>
      found_at input p sep + length sep \<le> length input \<and>
      drop p input = take (found_at input p sep - p) (drop p input) @ sep @
        drop (found_at input p sep + length sep) input"
    by blast+
qed

text \<open>The pieces and the separators found between them, put together again.\<close>

definition interleave :: "string list \<Rightarrow> string list \<Rightarrow> string" where
  "interleave ps ss = concat (map2 (@) ps ss)"

lemma interleave_snoc:
  "length ps = length ss \<Longrightarrow> interleave (ps @ [p]) (ss @ [s]) = interleave ps ss @ p @ s"
  by (simp add: interleave_def)

definition split_any_inv :: "string \<Rightarrow> string list \<Rightarrow> int \<Rightarrow> split_state \<Rightarrow> bool" where
  "split_any_inv input seps lim0 st \<longleftrightarrow>
     (case st of (p, l, h) \<Rightarrow>
        seps \<noteq> [] \<and> [] \<notin> set seps \<and> p \<le> length input \<and> within_limit lim0 l h \<and>
        (\<forall>x\<in>set h. \<forall>sep\<in>set seps. \<not> sublist sep x) \<and>
        (\<exists>ss. length ss = length h \<and> set ss \<subseteq> set seps \<and> input = interleave h ss @ drop p input))"

definition split_any_post :: "string \<Rightarrow> string list \<Rightarrow> int \<Rightarrow> string list fallible \<Rightarrow> bool" where
  "split_any_post input seps lim0 out \<longleftrightarrow>
     (\<exists>h q ss. out = Inr (h @ [q]) \<and> length ss = length h \<and> set ss \<subseteq> set seps \<and>
        input = interleave h ss @ q \<and> (\<forall>x\<in>set h. \<forall>sep\<in>set seps. \<not> sublist sep x) \<and>
        (if lim0 = -1 then \<forall>sep\<in>set seps. \<not> sublist sep q else int (length (h @ [q])) \<le> max 1 lim0))"

lemma nearest_facts:
  assumes "p \<le> length input" and "seps \<noteq> []" and "[] \<notin> set seps"
  defines "i \<equiv> min_index (map (found_at input p) seps)"
  shows "seps ! i \<in> set seps" and "map (found_at input p) seps ! i = found_at input p (seps ! i)"
    and "\<forall>sep\<in>set seps. \<not> sublist sep (take (found_at input p (seps ! i) - p) (drop p input))"
proof -
  let ?tmp = "map (found_at input p) seps"
  have i: "i < length seps" "\<forall>t\<in>set ?tmp. ?tmp ! i \<le> t"
    using min_index_least [of ?tmp] assms(2) unfolding i_def by simp_all
  then show "seps ! i \<in> set seps" and at: "?tmp ! i = found_at input p (seps ! i)" by simp_all
  show "\<forall>sep\<in>set seps. \<not> sublist sep (take (found_at input p (seps ! i) - p) (drop p input))"
  proof
    fix sep assume sep: "sep \<in> set seps"
    then have "found_at input p (seps ! i) - p \<le> found_at input p sep - p"
      using i(2) at by (simp add: diff_le_mono)
    then have "prefix (take (found_at input p (seps ! i) - p) (drop p input))
        (take (found_at input p sep - p) (drop p input))"
      by (simp add: prefix_def) (metis append_take_drop_id take_take min.absorb1)
    moreover have "\<not> sublist sep (take (found_at input p sep - p) (drop p input))"
      using found_at_facts(2) [OF assms(1)] sep assms(3) by metis
    ultimately show "\<not> sublist sep (take (found_at input p (seps ! i) - p) (drop p input))"
      by (meson prefix_imp_sublist sublist_order.order.trans)
  qed
qed

lemma split_any_round_inv:
  assumes "split_any_inv input seps lim0 st" and "split_any_round input seps st = Some (Inl st')"
  shows "split_any_inv input seps lim0 st' \<and> length input - fst st' < length input - fst st"
proof -
  obtain p l h where st: "st = (p, l, h)" by (cases st)
  from assms(1) obtain ss where inv: "seps \<noteq> []" "[] \<notin> set seps" "p \<le> length input" "within_limit lim0 l h"
    "\<forall>x\<in>set h. \<forall>sep\<in>set seps. \<not> sublist sep x"
    and ss: "length ss = length h" "set ss \<subseteq> set seps" "input = interleave h ss @ drop p input"
    by (auto simp: st split_any_inv_def)
  let ?i = "min_index (map (found_at input p) seps)"
  note near = nearest_facts [OF inv(3,1,2)]
  let ?sep = "seps ! ?i"
  let ?e = "found_at input p ?sep"
  have lim: "\<not> limited l" and e: "?e < length input"
    and st': "st' = (?e + length ?sep, count_down l, h @ [take (?e - p) (drop p input)])"
    using assms(2) inv(1,3) near(2)
    by (auto simp: st split_any_round_def substr_def Let_def split: if_splits)
  have "?sep \<noteq> []" using near(1) inv(2) by metis
  note f = found_at_facts [OF inv(3) this]
  have "input = interleave h ss @ take (?e - p) (drop p input) @ ?sep @ drop (?e + length ?sep) input"
    using ss(3) f(3) [OF e] by metis
  then have "input = interleave (h @ [take (?e - p) (drop p input)]) (ss @ [?sep]) @ drop (?e + length ?sep) input"
    using interleave_snoc [OF ss(1) [symmetric]] by simp
  moreover have "length input - (?e + length ?sep) < length input - p"
  proof -
    have "0 < length ?sep" using \<open>?sep \<noteq> []\<close> by simp
    then show ?thesis using f(1) e f(3) [OF e] by linarith
  qed
  ultimately show ?thesis
    unfolding st st' split_any_inv_def
    using inv near(1,3) f(3) [OF e] within_limit_step [OF inv(4) lim] ss(1,2)
    by (auto intro!: exI [of _ "ss @ [?sep]"])
qed

lemma split_any_round_post:
  assumes "split_any_inv input seps lim0 st" and "split_any_round input seps st = Some (Inr out)"
  shows "split_any_post input seps lim0 out"
proof -
  obtain p l h where st: "st = (p, l, h)" by (cases st)
  from assms(1) obtain ss where inv: "seps \<noteq> []" "[] \<notin> set seps" "p \<le> length input" "within_limit lim0 l h"
    "\<forall>x\<in>set h. \<forall>sep\<in>set seps. \<not> sublist sep x"
    and ss: "length ss = length h" "set ss \<subseteq> set seps" "input = interleave h ss @ drop p input"
    by (auto simp: st split_any_inv_def)
  let ?sep = "seps ! min_index (map (found_at input p) seps)"
  let ?e = "found_at input p ?sep"
  note near = nearest_facts [OF inv(3,1,2)]
  have "?sep \<noteq> []" using near(1) inv(2) by metis
  note f = found_at_facts [OF inv(3) this]
  have out: "out = Inr (h @ [drop p input])" and last: "limited l \<or> ?e = length input"
    using assms(2) inv(1,3) near(2) f(1)
    by (auto simp: st split_any_round_def substr_def Let_def split: if_splits)
  have "\<forall>sep\<in>set seps. \<not> sublist sep (drop p input)" if "lim0 = -1"
    using last inv(4) near(3) that by (auto simp: within_limit_def limited_def)
  then show ?thesis
    unfolding split_any_post_def out
    using inv(5) ss within_limit_end [OF inv(4), of "drop p input"]
    by (intro exI [of _ h] exI [of _ "drop p input"] exI [of _ ss]) auto
qed

lemma split_any_round_returns: "\<exists>out. split_any_round input seps st = Some out"
  by (cases st) (auto simp: split_any_round_def Let_def split: sum.splits)

interpretation splitting_any: loop_total "split_any_round input seps" "split_any_inv input seps lim0"
  "split_any_post input seps lim0" "measure (\<lambda>st. length input - fst st)" for input seps lim0
  by unfold_locales
    (use split_any_round_inv split_any_round_post split_any_round_returns in \<open>auto simp: wf_measure\<close>)

text \<open>With one separator the two functions agree, round after round.\<close>

lemma split_rounds_agree:
  assumes "split_inv input sep lim0 st"
  shows "split_round input sep st = split_any_round input [sep] st"
proof -
  obtain p l h where st: "st = (p, l, h)" by (cases st)
  have inv: "sep \<noteq> []" "p \<le> length input" using assms by (simp_all add: st split_inv_def)
  show ?thesis
  proof (cases "limited l \<or> string_find input sep p = None")
    case True
    then show ?thesis
      using inv by (auto simp: st split_round_def split_any_round_def substr_def found_at_def min_index_def Let_def)
  next
    case False
    then obtain e where e: "string_find input sep p = Some e" and "\<not> limited l" by auto
    moreover have "e < length input"
      using string_find_Some(2) [OF inv(2) e inv(1)] inv(1) by (cases sep) simp_all
    ultimately show ?thesis
      using inv by (simp add: st split_round_def split_any_round_def substr_def found_at_def min_index_def Let_def)
  qed
qed

interpretation same_splits: loop_agreeing "split_round input sep" "split_any_round input [sep]"
  "split_inv input sep lim0" for input sep lim0
  by unfold_locales (use split_rounds_agree split_round_inv in blast)+

section \<open>Trimming\<close>

lemma trim_string_core:
  assumes "t \<noteq> []" and "\<not> is_space (hd t)" and "\<not> is_space (last t)"
    and "\<forall>c\<in>set u. is_space c" and "\<forall>c\<in>set v. is_space c"
  shows "trim_string (u @ t @ v) = Inr t"
proof -
  have "takeWhile is_space (u @ t @ v) = u"
    using assms by (cases t) (auto simp: takeWhile_tail takeWhile_append2)
  moreover have "takeWhile is_space (rev v @ rev t @ rev u) = rev v"
    using assms by (cases t rule: rev_cases) (auto simp: takeWhile_tail takeWhile_append2)
  ultimately show ?thesis by (simp add: trim_string_def Let_def)
qed

lemma trim_decompose:
  assumes "\<exists>c\<in>set s. \<not> is_space c"
  obtains u t v where "s = u @ t @ v" and "t \<noteq> []" and "\<not> is_space (hd t)" and "\<not> is_space (last t)"
    and "\<forall>c\<in>set u. is_space c" and "\<forall>c\<in>set v. is_space c"
proof -
  let ?r = "dropWhile is_space s"
  let ?t = "rev (dropWhile is_space (rev ?r))"
  have r: "?r \<noteq> []" "\<not> is_space (hd ?r)" using assms hd_dropWhile [of is_space s] by (auto simp: dropWhile_eq_Nil_conv)
  then have ex: "\<exists>c\<in>set (rev ?r). \<not> is_space c" by (metis hd_in_set set_rev)
  then have t: "?t \<noteq> []" "\<not> is_space (last ?t)"
    using hd_dropWhile [of is_space "rev ?r"] by (auto simp: dropWhile_eq_Nil_conv last_rev)
  have split: "?r = ?t @ rev (takeWhile is_space (rev ?r))"
    by (metis rev_append rev_rev_ident takeWhile_dropWhile_id)
  then have "hd ?t = hd ?r" using t(1) by (metis hd_append2)
  with r t split show thesis
    by (intro that [of "takeWhile is_space s" ?t "rev (takeWhile is_space (rev ?r))"])
      (auto dest: set_takeWhileD simp: takeWhile_dropWhile_id simp flip: split)
qed

lemma trim_all_space: "s \<noteq> [] \<Longrightarrow> \<forall>c\<in>set s. is_space c \<Longrightarrow> trim_string s = Inl Undefined_Behaviour"
  by (simp add: trim_string_def takeWhile_eq_all_conv [THEN iffD2] Let_def)

section \<open>The properties\<close>

text \<open>
  C15. With a separator that is not empty \<open>split_string\<close> ends, and joining what it handed over with
  the separator gives the input back. No piece but the last contains the separator; without a
  limitation the last does not either, with one there are no more pieces than it allows.
\<close>

theorem split_string_pieces:
  assumes "separator \<noteq> []"
  shows "\<exists>ps. split_string input separator limitation = Some (Inr ps) \<and> join ps separator = input \<and>
    (\<forall>p\<in>set (butlast ps). \<not> sublist separator p) \<and>
    (if limitation = -1 then \<not> sublist separator (last ps) else int (length ps) \<le> max 1 limitation)"
  using splits [OF assms, of input limitation] by (auto simp: split_post_def)

theorem split_string_pieces_witness:
  "\<exists>ps. split_string ''a, b, c'' '', '' 2 = Some (Inr ps) \<and> join ps '', '' = ''a, b, c'' \<and> int (length ps) \<le> 2"
  using split_string_pieces [of "'', ''" "''a, b, c''" 2] by auto

text \<open>
  Pieces free of a one-character separator are recovered from their join.
\<close>

theorem split_string_of_join:
  assumes "ps \<noteq> []" and "\<forall>p\<in>set ps. c \<notin> set p"
  shows "split_string (join ps [c]) [c] (-1) = Some (Inr ps)"
  by (rule split_join [OF assms])

theorem split_string_of_join_witness:
  "split_string (join [''GET'', [], ''x''] '':'') '':'' (-1) = Some (Inr [''GET'', [], ''x''])"
  by (rule split_string_of_join) simp_all

text \<open>
  With an empty separator and no limitation \<open>split_string\<close> does not return, on any input.
\<close>

theorem split_string_empty_separator_diverges:
  "split_string input [] (-1) = None"
  by (rule split_empty_separator)

text \<open>
  C40. With several separators, none empty, \<open>split_string\<close> ends: the pieces alternate with
  separators to give the input back, no piece but the last contains a separator, and the last does
  not either unless a limitation stopped the search. One separator gives what the other overload
  gives. An empty list of separators reads past the end of an empty vector.
\<close>

theorem split_string_any_pieces:
  assumes "[] \<notin> set separators"
  shows "(separators \<noteq> [] \<longrightarrow>
      (\<exists>h q ss. split_string_any input separators limitation = Some (Inr (h @ [q])) \<and>
        length ss = length h \<and> set ss \<subseteq> set separators \<and> input = interleave h ss @ q \<and>
        (\<forall>p\<in>set h. \<forall>sep\<in>set separators. \<not> sublist sep p) \<and>
        (if limitation = -1 then \<forall>sep\<in>set separators. \<not> sublist sep q
         else int (length (h @ [q])) \<le> max 1 limitation))) \<and>
    (separators = [] \<longrightarrow> split_string_any input separators limitation = Some (Inl Undefined_Behaviour)) \<and>
    (\<forall>sep. separators = [sep] \<longrightarrow>
      split_string_any input separators limitation = split_string input sep limitation)"
proof (intro conjI impI allI)
  assume "separators \<noteq> []"
  then have "split_any_inv input separators limitation (0, limitation, [])"
    using assms by (simp add: split_any_inv_def within_limit_def interleave_def)
  from splitting_any.loop_returns [OF this]
  show "\<exists>h q ss. split_string_any input separators limitation = Some (Inr (h @ [q])) \<and>
        length ss = length h \<and> set ss \<subseteq> set separators \<and> input = interleave h ss @ q \<and>
        (\<forall>p\<in>set h. \<forall>sep\<in>set separators. \<not> sublist sep p) \<and>
        (if limitation = -1 then \<forall>sep\<in>set separators. \<not> sublist sep q
         else int (length (h @ [q])) \<le> max 1 limitation)"
    unfolding split_string_any_def split_any_post_def by blast
next
  assume "separators = []"
  then show "split_string_any input separators limitation = Some (Inl Undefined_Behaviour)"
    unfolding split_string_any_def by (intro loop_until_Inr) (simp add: split_any_round_def)
next
  fix sep assume sep: "separators = [sep]"
  then have "split_inv input sep limitation (0, limitation, [])"
    using assms by (simp add: split_inv_def within_limit_def)
  then show "split_string_any input separators limitation = split_string input sep limitation"
    unfolding split_string_any_def split_string_def sep by (rule same_splits.loops_agree [symmetric])
qed

theorem split_string_any_pieces_witness:
  "split_string_any ''k=v'' [''=''] (-1) = split_string ''k=v'' ''='' (-1) \<and>
   split_string_any ''k=v'' [] (-1) = Some (Inl Undefined_Behaviour)"
  using split_string_any_pieces [of "[''='']" "''k=v''" "-1"] split_string_any_pieces [of "[]" "''k=v''" "-1"]
  by simp

text \<open>
  \<open>trim_string\<close> removes the white space around a text that has something else, and keeps the
  empty text; on a text of white space only, its two iterators have crossed. Trimming again changes
  nothing.
\<close>

theorem trim_string_trims:
  "((\<exists>c\<in>set s. \<not> is_space c) \<longrightarrow>
     (\<exists>u t v. s = u @ t @ v \<and> trim_string s = Inr t \<and> trim_string t = Inr t \<and> t \<noteq> [] \<and>
        \<not> is_space (hd t) \<and> \<not> is_space (last t) \<and> (\<forall>c\<in>set u \<union> set v. is_space c))) \<and>
   trim_string [] = Inr [] \<and>
   (s \<noteq> [] \<and> (\<forall>c\<in>set s. is_space c) \<longrightarrow> trim_string s = Inl Undefined_Behaviour)"
proof (intro conjI impI)
  assume "\<exists>c\<in>set s. \<not> is_space c"
  then obtain u t v where d: "s = u @ t @ v" "t \<noteq> []" "\<not> is_space (hd t)" "\<not> is_space (last t)"
    "\<forall>c\<in>set u. is_space c" "\<forall>c\<in>set v. is_space c"
    by (rule trim_decompose)
  then show "\<exists>u t v. s = u @ t @ v \<and> trim_string s = Inr t \<and> trim_string t = Inr t \<and> t \<noteq> [] \<and>
        \<not> is_space (hd t) \<and> \<not> is_space (last t) \<and> (\<forall>c\<in>set u \<union> set v. is_space c)"
    using trim_string_core [OF d(2-4), of u v] trim_string_core [OF d(2-4), of "[]" "[]"]
    by (intro exI [of _ u] exI [of _ t] exI [of _ v]) auto
next
  show "trim_string [] = Inr []" by (simp add: trim_string_def)
next
  assume "s \<noteq> [] \<and> (\<forall>c\<in>set s. is_space c)"
  then show "trim_string s = Inl Undefined_Behaviour" by (blast intro: trim_all_space)
qed

theorem trim_string_trims_witness:
  "trim_string ''  '' = Inl Undefined_Behaviour \<and> (\<exists>t. trim_string '' a b '' = Inr t \<and> t \<noteq> [])"
proof -
  have sp: "\<not> is_space CHR ''a''" "is_space CHR '' ''" by (simp_all add: is_space_def)
  have "\<exists>c\<in>set '' a b ''. \<not> is_space c" using sp(1) by auto
  then have "\<exists>t. trim_string '' a b '' = Inr t \<and> t \<noteq> []" using trim_string_trims [of "'' a b ''"] by blast
  moreover have "''  '' \<noteq> [] \<and> (\<forall>c\<in>set ''  ''. is_space c)" using sp(2) by auto
  then have "trim_string ''  '' = Inl Undefined_Behaviour" using trim_string_trims [of "''  ''"] by blast
  ultimately show ?thesis by blast
qed

end
