(* ===== verification/Integer_Sat_Builder.thy ===== *)
theory Integer_Sat_Builder
  imports Sat_Invariant
begin

text \<open>
  \<open>fabko/compiler/frontend/sat_builder\<close>: the clauses that are to describe how many bits an integer
  takes, the builder class around them, and the stub of the model builder. An \<open>int64_t\<close> that is only
  compared is an \<open>int\<close>.
\<close>

record sat_build_atom =
  atom_literals :: "literal list"
  cnf_clauses :: "literal list list"
  atom_ctx :: compiler_generation_context

record sat_model_builder =
  literal_counts :: nat

definition enrich :: "sat_model_builder \<Rightarrow> sat_build_atom \<Rightarrow> sat_model_builder" where
  "enrich b atom = b"

definition negate :: "literal \<Rightarrow> literal" where
  "negate lit = Literal (- lit_value lit)"

definition bits16 :: literal where "bits16 = Literal 0"
definition bits32 :: literal where "bits32 = Literal 1"
definition bits64 :: literal where "bits64 = Literal 2"
definition bits_negative :: literal where "bits_negative = Literal 3"

definition make_integer_size_sat :: "int \<Rightarrow> literal list \<times> literal list list" where
  "make_integer_size_sat v =
     ([bits16, bits32, bits64, bits_negative],
      [if v > 255 then [bits16] else [negate bits16],
       if v > 65535 then [bits32] else [negate bits32],
       if v > 4294967295 then [bits64] else [negate bits64],
       if v \<ge> 0 then [negate bits32] else [bits32]])"

record integer_sat_builder =
  builder_value :: int
  bits :: nat
  builder_ctx :: compiler_generation_context

definition integer_bits :: "int \<Rightarrow> nat" where
  "integer_bits v =
     (if v > 255 then 16
      else if v > 65535 then 32
      else if v > 4294967295 then 64
      else 8)"

definition make_integer_sat_builder :: "compiler_generation_context \<Rightarrow> int \<Rightarrow> integer_sat_builder" where
  "make_integer_sat_builder ctx v = \<lparr>builder_value = v, bits = integer_bits v, builder_ctx = ctx\<rparr>"

definition generation_context :: "integer_sat_builder \<Rightarrow> compiler_generation_context" where
  "generation_context b = builder_ctx b"

text \<open>
  The source does not name the atom's context in the aggregate, so its members are value-initialised:
  empty strings and the line number 0. The context of the builder is not passed on.
\<close>

definition empty_generation_context :: compiler_generation_context where
  "empty_generation_context = \<lparr>lexeme = [], unit_name = [], line = 0\<rparr>"

definition generate_model :: "integer_sat_builder \<Rightarrow> sat_build_atom" where
  "generate_model b =
     (case make_integer_size_sat (builder_value b) of
        (ls, cs) \<Rightarrow> \<lparr>atom_literals = ls, cnf_clauses = cs, atom_ctx = empty_generation_context\<rparr>)"

lemmas builder_defs = generate_model_def make_integer_sat_builder_def make_integer_size_sat_def
  negate_def bits16_def bits32_def bits64_def bits_negative_def lit_value_def

lemma lit_zero_never_holds: "\<not> lit_holds \<sigma> (Literal 0)"
  by (simp add: lit_holds_def is_on_def is_off_def)

lemmas holds_defs = cnf_satisfiable_def cnf_holds_def clause_holds_def lit_holds_def is_on_def is_off_def

text \<open>The clauses without the first, whose literal is 0.\<close>

lemma remaining_clauses_satisfiable:
  "cnf_satisfiable (tl (cnf_clauses (generate_model (make_integer_sat_builder ctx v)))) \<longleftrightarrow> 0 \<le> v \<and> v \<le> 65535"
proof
  assume "cnf_satisfiable (tl (cnf_clauses (generate_model (make_integer_sat_builder ctx v))))"
  then show "0 \<le> v \<and> v \<le> 65535"
    by (auto simp: builder_defs holds_defs split: if_splits)
next
  assume "0 \<le> v \<and> v \<le> 65535"
  then show "cnf_satisfiable (tl (cnf_clauses (generate_model (make_integer_sat_builder ctx v))))"
    unfolding cnf_satisfiable_def
    by (intro exI [of _ "\<lambda>_. False"]) (simp add: builder_defs holds_defs)
qed

text \<open>
  C36. The clauses generated for an integer are never satisfiable: the variable of 16 bits is the
  literal 0, which no valuation makes true. Without its clause the others are satisfiable for the
  integers from 0 to 65535 only, the sign being stated of the variable of 32 bits; and the size the
  builder stores is 16 for every integer above 255.
\<close>

theorem integer_clauses_unsatisfiable:
  "\<not> cnf_satisfiable (cnf_clauses (generate_model (make_integer_sat_builder ctx v))) \<and>
   (cnf_satisfiable (tl (cnf_clauses (generate_model (make_integer_sat_builder ctx v)))) \<longleftrightarrow>
      v \<in> {0..65535}) \<and>
   bits (make_integer_sat_builder ctx v) = (if v > 255 then 16 else 8)"
proof (intro conjI)
  show "\<not> cnf_satisfiable (cnf_clauses (generate_model (make_integer_sat_builder ctx v)))"
    by (simp add: builder_defs cnf_satisfiable_def cnf_holds_def clause_holds_def lit_zero_never_holds)
  show "cnf_satisfiable (tl (cnf_clauses (generate_model (make_integer_sat_builder ctx v)))) \<longleftrightarrow>
      v \<in> {0..65535}"
    unfolding remaining_clauses_satisfiable by simp
  show "bits (make_integer_sat_builder ctx v) = (if v > 255 then 16 else 8)"
    by (simp add: make_integer_sat_builder_def integer_bits_def)
qed

end
