(* ===== verification/Kv_Rocksdb.thy ===== *)
theory Kv_Rocksdb
  imports Fabko_Exception "HOL-Library.List_Lexorder" "HOL-Library.Char_ord" "HOL-Library.RBT"
    "HOL-Library.Sublist"
begin

text \<open>
  \<open>fabko/datastore\<close>: the key-value interface of \<open>key_value_db.hh\<close> and its RocksDB implementation,
  \<open>kv_rocksdb.hh\<close> and \<open>kv_rocksdb.cpp\<close>. RocksDB is a parameter, the record of the functions the code
  calls, with a locale for what they promise; the states of the database and of a transaction are
  type variables. A transaction points to its database: what reads it or writes to it takes both. What \<open>list\<close> hands to its handler, call after call, is the list it returns.
\<close>

section \<open>What the code uses of RocksDB\<close>

datatype db_status = Status_Ok | Status_Error string

fun status_ok :: "db_status \<Rightarrow> bool" where
  "status_ok Status_Ok = True"
| "status_ok (Status_Error _) = False"

fun status_to_string :: "db_status \<Rightarrow> string" where
  "status_to_string Status_Ok = ''OK''"
| "status_to_string (Status_Error msg) = msg"

lemma status_ok_iff: "status_ok s \<longleftrightarrow> s = Status_Ok"
  by (cases s) simp_all

type_synonym key_value = "string \<times> string"

record 'm db_options =
  create_if_missing :: bool
  merge_operator :: "'m option"

text \<open>
  \<open>rocks_get\<close> and \<open>rocks_multi_get\<close> yield the statuses and what they left in the result strings, empty
  before the call; \<open>rocks_seek\<close> yields the entries an iterator shows from a key on. The reads are those
  with the default \<open>ReadOptions\<close>, which name no snapshot.
\<close>

record ('d, 't, 'm) rocksdb_ops =
  rocks_open :: "'m db_options \<Rightarrow> string \<Rightarrow> db_status \<times> 'd"
  rocks_db_put :: "'d \<Rightarrow> string \<Rightarrow> string \<Rightarrow> db_status \<times> 'd"
  rocks_begin :: "'d \<Rightarrow> 't"
  rocks_set_snapshot :: "'t \<Rightarrow> 'd \<Rightarrow> 't"
  rocks_get :: "'t \<Rightarrow> 'd \<Rightarrow> string \<Rightarrow> db_status \<times> string"
  rocks_multi_get :: "'t \<Rightarrow> 'd \<Rightarrow> string list \<Rightarrow> db_status list \<times> string list"
  rocks_put :: "'t \<Rightarrow> 'd \<Rightarrow> string \<Rightarrow> string \<Rightarrow> db_status \<times> 't"
  rocks_commit :: "'t \<Rightarrow> 'd \<Rightarrow> db_status \<times> 't \<times> 'd"
  rocks_seek :: "'t \<Rightarrow> 'd \<Rightarrow> string \<Rightarrow> key_value list"

section \<open>Transactions\<close>

definition put_error_code :: error_code where
  "put_error_code = \<lparr>ec_value = 0, ec_category = Db_Category\<rparr>"

definition get_error_code :: error_code where
  "get_error_code = \<lparr>ec_value = 1, ec_category = Db_Category\<rparr>"

definition commit_error_code :: error_code where
  "commit_error_code = \<lparr>ec_value = 42, ec_category = Db_Category\<rparr>"

definition make_transaction :: "('d, 't, 'm) rocksdb_ops \<Rightarrow> 'd \<Rightarrow> 't" where
  "make_transaction R db = rocks_set_snapshot R (rocks_begin R db) db"

definition txn_get :: "bool \<Rightarrow> ('d, 't, 'm) rocksdb_ops \<Rightarrow> 't \<Rightarrow> 'd \<Rightarrow> string \<Rightarrow> string fallible" where
  "txn_get nd R t db key =
     (case rocks_get R t db key of (s, result) \<Rightarrow>
        (case fabko_assert_code nd (status_ok s) get_error_code
                (''Error while getting key '' @ key @ '' : '' @ status_to_string s) of
           Inl e \<Rightarrow> Inl e
         | Inr _ \<Rightarrow> Inr result))"

text \<open>The loop of \<open>multi_get\<close>: one assertion for each status, \<open>at\<close> for each key and result.\<close>

fun multi_get_loop ::
    "bool \<Rightarrow> nat \<Rightarrow> db_status list \<Rightarrow> string list \<Rightarrow> string list \<Rightarrow> key_value list fallible" where
  "multi_get_loop nd n [] ks rs = Inr []"
| "multi_get_loop nd n (s # ss) ks rs =
     (case fabko_assert_code nd (status_ok s) get_error_code
             (''Error while multi getting '' @ string_of_nat n @ '' values : '' @ status_to_string s) of
        Inl e \<Rightarrow> Inl e
      | Inr _ \<Rightarrow>
          (case (ks, rs) of
             (k # ks', r # rs') \<Rightarrow>
               (case multi_get_loop nd n ss ks' rs' of
                  Inl e \<Rightarrow> Inl e
                | Inr kvs \<Rightarrow> Inr ((k, r) # kvs))
           | _ \<Rightarrow> Inl Out_Of_Range))"

definition txn_multi_get ::
    "bool \<Rightarrow> ('d, 't, 'm) rocksdb_ops \<Rightarrow> 't \<Rightarrow> 'd \<Rightarrow> string list \<Rightarrow> key_value list fallible" where
  "txn_multi_get nd R t db keys =
     (case rocks_multi_get R t db keys of (ss, r) \<Rightarrow> multi_get_loop nd (length keys) ss keys r)"

definition txn_set ::
    "bool \<Rightarrow> ('d, 't, 'm) rocksdb_ops \<Rightarrow> 't \<Rightarrow> 'd \<Rightarrow> key_value \<Rightarrow> bool fallible \<times> 't" where
  "txn_set nd R t db to_add =
     (case rocks_put R t db (fst to_add) (snd to_add) of (s, t') \<Rightarrow>
        (case fabko_assert_code nd (status_ok s) put_error_code
                (''Error while inserting key-value : '' @ fst to_add @ ''-'' @ snd to_add @ '' : '' @
                 status_to_string s) of
           Inl e \<Rightarrow> (Inl e, t')
         | Inr _ \<Rightarrow> (Inr True, t')))"

fun txn_multi_set ::
    "bool \<Rightarrow> ('d, 't, 'm) rocksdb_ops \<Rightarrow> 't \<Rightarrow> 'd \<Rightarrow> key_value list \<Rightarrow> bool fallible \<times> 't" where
  "txn_multi_set nd R t db [] = (Inr True, t)"
| "txn_multi_set nd R t db (kv # kvs) =
     (case txn_set nd R t db kv of
        (Inl e, t') \<Rightarrow> (Inl e, t')
      | (Inr _, t') \<Rightarrow> txn_multi_set nd R t' db kvs)"

definition commit_transaction ::
    "bool \<Rightarrow> ('d, 't, 'm) rocksdb_ops \<Rightarrow> 't \<Rightarrow> 'd \<Rightarrow> bool fallible \<times> 't \<times> 'd" where
  "commit_transaction nd R t db =
     (case rocks_commit R t db of (s, t', db') \<Rightarrow>
        (case fabko_assert_code nd (status_ok s) commit_error_code
                (''Commit Failure : '' @ status_to_string s) of
           Inl e \<Rightarrow> (Inl e, t', db')
         | Inr _ \<Rightarrow> (Inr True, t', db')))"

definition add_counter :: "'t \<Rightarrow> string \<Rightarrow> int \<Rightarrow> 't" where
  "add_counter t key to_add = t"

text \<open>An iterator shows the entries from the key it seeks.\<close>

definition get_iterator :: "('d, 't, 'm) rocksdb_ops \<Rightarrow> 't \<Rightarrow> 'd \<Rightarrow> string \<Rightarrow> key_value list" where
  "get_iterator R t db = rocks_seek R t db"

text \<open>
  \<open>list\<close> between two keys stops at the first key that does not compare below the end. Strings compare
  by their bytes.
\<close>

definition txn_list ::
    "('d, 't, 'm) rocksdb_ops \<Rightarrow> 't \<Rightarrow> 'd \<Rightarrow> string \<Rightarrow> string \<Rightarrow> key_value list" where
  "txn_list R t db start end_key = takeWhile (\<lambda>kv. fst kv < end_key) (get_iterator R t db start)"

text \<open>
  \<open>++end.back()\<close>: undefined on an empty string, and the byte 255 becomes 0.
\<close>

definition next_char :: "char \<Rightarrow> char" where
  "next_char c = char_of ((of_char c + 1) mod 256 :: nat)"

definition incremented :: "string \<Rightarrow> string fallible" where
  "incremented s = (if s = [] then Inl Undefined_Behaviour else Inr (butlast s @ [next_char (last s)]))"

definition txn_list_from ::
    "('d, 't, 'm) rocksdb_ops \<Rightarrow> 't \<Rightarrow> 'd \<Rightarrow> string \<Rightarrow> key_value list fallible" where
  "txn_list_from R t db start =
     (case incremented start of Inl e \<Rightarrow> Inl e | Inr end_key \<Rightarrow> Inr (txn_list R t db start end_key))"

text \<open>
  \<open>get_as\<close> for strings, unsigned and signed integers of a width, floating-point numbers, and the types it
  does not implement; \<open>std::stoul\<close> works on 64 bits and negates modulo, \<open>std::stoi\<close> on 32 bits. What
  \<open>std::stod\<close> makes of a text, which depends on the locale of the process, and its conversion to the
  type of a width, is the parameter \<open>stod\<close>.
\<close>

definition stoul :: "string \<Rightarrow> int fallible" where
  "stoul s =
     (let (neg, r) = split_sign (skip_ws s); ds = takeWhile is_digit r; n = int (digits_value 0 ds)
      in if ds = [] then Inl Invalid_Argument
         else if n \<ge> 2 ^ 64 then Inl Out_Of_Range
         else Inr ((if neg then - n else n) mod 2 ^ 64))"

definition stoi :: "string \<Rightarrow> int fallible" where
  "stoi s =
     (let (neg, r) = split_sign (skip_ws s); ds = takeWhile is_digit r;
          v = (if neg then - int (digits_value 0 ds) else int (digits_value 0 ds))
      in if ds = [] then Inl Invalid_Argument
         else if v < - (2 ^ 31) \<or> v \<ge> 2 ^ 31 then Inl Out_Of_Range
         else Inr v)"

datatype value_type = Of_String | Of_Unsigned nat | Of_Signed nat | Of_Floating nat | Of_Other
datatype 'f typed_value = Got_String string | Got_Integer int | Got_Floating 'f

definition to_signed :: "nat \<Rightarrow> int \<Rightarrow> int" where
  "to_signed w i = (i + 2 ^ (w - 1)) mod 2 ^ w - 2 ^ (w - 1)"

definition txn_get_as ::
    "bool \<Rightarrow> ('d, 't, 'm) rocksdb_ops \<Rightarrow> (nat \<Rightarrow> string \<Rightarrow> 'f fallible) \<Rightarrow> value_type \<Rightarrow> 't \<Rightarrow> 'd \<Rightarrow>
     string \<Rightarrow> 'f typed_value fallible" where
  "txn_get_as nd R stod ty t db key =
     (case txn_get nd R t db key of
        Inl e \<Rightarrow> Inl e
      | Inr val \<Rightarrow>
          (case ty of
             Of_String \<Rightarrow> Inr (Got_String val)
           | Of_Unsigned w \<Rightarrow>
               (case stoul val of Inl e \<Rightarrow> Inl e | Inr n \<Rightarrow> Inr (Got_Integer (n mod 2 ^ w)))
           | Of_Signed w \<Rightarrow>
               (case stoi val of Inl e \<Rightarrow> Inl e | Inr n \<Rightarrow> Inr (Got_Integer (to_signed w n)))
           | Of_Floating w \<Rightarrow> (case stod w val of Inl e \<Rightarrow> Inl e | Inr x \<Rightarrow> Inr (Got_Floating x))
           | Of_Other \<Rightarrow> Inl (Logic_Error ''get_as not implemented'')))"

section \<open>The database\<close>

record 'm kv_initializer =
  path_db_file :: string
  initial_kv :: "key_value list"
  init_merge_operator :: "'m option"

definition rocksdb_options :: "'m kv_initializer \<Rightarrow> 'm db_options" where
  "rocksdb_options init =
     \<lparr>create_if_missing = True,
      merge_operator = (case init_merge_operator init of None \<Rightarrow> None | Some m \<Rightarrow> Some m)\<rparr>"

text \<open>
  When \<open>Open\<close> fails and assertions are compiled out, the constructor goes on with a pointer that was
  never set. The statuses of the initial insertions are dropped.
\<close>

definition make_kv_rocksdb :: "bool \<Rightarrow> ('d, 't, 'm) rocksdb_ops \<Rightarrow> 'm kv_initializer \<Rightarrow> 'd fallible" where
  "make_kv_rocksdb nd R init =
     (case rocks_open R (rocksdb_options init) (path_db_file init) of (s, db) \<Rightarrow>
        (case fabko_assert_code nd (status_ok s) \<lparr>ec_value = 0, ec_category = System_Category\<rparr>
                (''Couldn't open optimistic RocksDB Database: '' @ status_to_string s) of
           Inl e \<Rightarrow> Inl e
         | Inr _ \<Rightarrow>
             if status_ok s
             then Inr (foldl (\<lambda>d kv. snd (rocks_db_put R d (fst kv) (snd kv))) db (initial_kv init))
             else Inl Undefined_Behaviour))"

end
