(* ===== verification/Kv_Properties.thy ===== *)
theory Kv_Properties
  imports Kv_Rocksdb
begin

text \<open>
  What RocksDB promises, as a locale, and what it promises of conflicts, as one that extends it; an
  in-memory instance of both; and what a transaction of the datastore guarantees on top of it.
\<close>

section \<open>Ranges of keys\<close>

lemma takeWhile_sorted:
  "sorted_wrt (<) (map fst xs) \<Longrightarrow> takeWhile (\<lambda>kv. fst kv < b) xs = filter (\<lambda>kv. fst kv < (b :: 'k :: linorder)) xs"
proof (induction xs)
  case (Cons x xs)
  have "filter (\<lambda>kv. fst kv < b) xs = []" if "\<not> fst x < b"
    unfolding filter_empty_conv using Cons.prems that by (auto dest: order.strict_trans)
  then show ?case using Cons by auto
qed simp

lemma next_char_next:
  assumes "of_char c \<noteq> (255 :: nat)"
  shows "c < next_char c" and "d < next_char c \<Longrightarrow> d \<le> c"
proof -
  have "of_char c < (256 :: nat)" by simp
  then have "of_char c + 1 < (256 :: nat)" using assms by linarith
  then have "of_char (next_char c) = (of_char c + 1 :: nat)"
    by (simp add: next_char_def)
  then show "c < next_char c" "d < next_char c \<Longrightarrow> d \<le> c"
    by (simp_all add: less_char_def less_eq_char_def)
qed

text \<open>The strings from \<open>u @ [c]\<close> to below \<open>u @ [next_char c]\<close> are those that begin with \<open>u @ [c]\<close>.\<close>

lemma prefix_range:
  assumes "of_char c \<noteq> (255 :: nat)"
  shows "u @ [c] \<le> k \<and> k < u @ [next_char c] \<longleftrightarrow> prefix (u @ [c]) k"
proof (induction u arbitrary: k)
  case Nil
  show ?case
  proof (cases k)
    case (Cons d w)
    have "(c < d \<or> c = d) \<and> d < next_char c \<longleftrightarrow> c = d"
      using next_char_next(1) [OF assms] next_char_next(2) [OF assms, of d] by force
    then show ?thesis by (simp add: Cons)
  qed simp
next
  case IH: (Cons d u)
  show ?case
  proof (cases k)
    case (Cons e w)
    have "d < e \<and> e < d \<longleftrightarrow> False" by auto
    then show ?thesis using IH [of w] by (cases "d = e") (simp_all add: Cons)
  qed simp
qed

lemma last_byte_range:
  assumes "of_char c = (255 :: nat)"
  shows "\<not> (u @ [c] \<le> k \<and> k < u @ [next_char c])"
proof -
  have "of_char (next_char c) = (0 :: nat)" using assms by (simp add: next_char_def)
  then have "next_char c < c" using assms by (simp add: less_char_def)
  then have "u @ [next_char c] < u @ [c]" by (induction u) auto
  then show ?thesis by force
qed

lemma map_add_rev_Cons: "m(fst kv \<mapsto> snd kv) ++ map_of (rev kvs) = m ++ map_of (rev (kv # kvs))"
  by (cases kv) (simp add: map_add_def fun_eq_iff map_of_append split: option.split)

section \<open>The promises of RocksDB\<close>

text \<open>
  \<open>content\<close> is what a database holds and \<open>written\<close> what a transaction has written; it reads its own
  writes over what the database holds when it reads. A call that does not return \<open>OK\<close> changes nothing.
\<close>

locale rocksdb =
  fixes R :: "('d, 't, 'm) rocksdb_ops"
    and content :: "'d \<Rightarrow> string \<rightharpoonup> string"
    and written :: "'t \<Rightarrow> string \<rightharpoonup> string"
  assumes db_put_law:
      "rocks_db_put R d k v = (s, d') \<Longrightarrow> content d' = (if status_ok s then (content d)(k \<mapsto> v) else content d)"
    and begin_law: "written (rocks_begin R d) = Map.empty"
    and snapshot_law: "written (rocks_set_snapshot R t d) = written t"
    and get_law: "rocks_get R t d k = (s, r) \<Longrightarrow> status_ok s \<Longrightarrow> (content d ++ written t) k = Some r"
    and multi_get_law: "rocks_multi_get R t d ks = (ss, rs) \<Longrightarrow> length ss = length ks \<and> length rs = length ks \<and>
        (\<forall>i<length ks. status_ok (ss ! i) \<longrightarrow> (content d ++ written t) (ks ! i) = Some (rs ! i))"
    and put_law: "rocks_put R t d k v = (s, t') \<Longrightarrow>
        written t' = (if status_ok s then (written t)(k \<mapsto> v) else written t)"
    and commit_law: "rocks_commit R t d = (s, t', d') \<Longrightarrow>
        content d' = (if status_ok s then content d ++ written t else content d)"
    and seek_law: "sorted_wrt (<) (map fst (rocks_seek R t d k))"
      "(k', v) \<in> set (rocks_seek R t d k) \<longleftrightarrow> (content d ++ written t) k' = Some v \<and> k \<le> k'"
begin

lemma rocksdb_with_put:
  assumes "\<And>t d k v s t'. put t d k v = (s, t') \<Longrightarrow>
        written t' = (if status_ok s then (written t)(k \<mapsto> v) else written t)"
  shows "rocksdb (R\<lparr>rocks_put := put\<rparr>) content written"
  using db_put_law begin_law snapshot_law get_law multi_get_law assms commit_law seek_law
  by unfold_locales simp_all

lemma transaction_start: "written (make_transaction R d) = Map.empty"
  by (simp add: make_transaction_def snapshot_law begin_law)

lemma get_debug: "txn_get False R t d k = Inr v \<Longrightarrow> (content d ++ written t) k = Some v"
  by (auto simp: txn_get_def fabko_assert_code_def simp del: map_add_Some_iff split: prod.splits if_splits
    intro: get_law)

lemma get_missing:
  assumes "(content d ++ written t) k = None"
  obtains msg where "txn_get False R t d k = Inl (Fabko_Thrown \<lparr>ec = get_error_code, what = msg\<rparr>)"
proof (cases "rocks_get R t d k")
  case (Pair s r)
  then have "\<not> status_ok s" using get_law [of t d k s r] assms by auto
  then show thesis using that by (simp add: txn_get_def Pair fabko_assert_code_def)
qed

lemma multi_get_loop_debug:
  "multi_get_loop False n ss ks rs = Inr kvs \<Longrightarrow> length ss = length ks \<Longrightarrow> length rs = length ks \<Longrightarrow>
   map fst kvs = ks \<and> map snd kvs = rs \<and> (\<forall>s\<in>set ss. status_ok s)"
  by (induction ss arbitrary: ks rs kvs)
    (auto simp: fabko_assert_code_def length_Suc_conv split: sum.splits list.splits if_splits)

lemma multi_get_debug:
  assumes "txn_multi_get False R t d ks = Inr kvs"
  shows "map fst kvs = ks" and "\<forall>(k, v)\<in>set kvs. (content d ++ written t) k = Some v"
proof -
  obtain ss rs where r: "rocks_multi_get R t d ks = (ss, rs)" by (cases "rocks_multi_get R t d ks")
  note law = multi_get_law [OF r]
  have l: "map fst kvs = ks \<and> map snd kvs = rs \<and> (\<forall>s\<in>set ss. status_ok s)"
    using multi_get_loop_debug [of "length ks" ss ks rs kvs] assms law by (simp add: txn_multi_get_def r)
  then show "map fst kvs = ks" by simp
  show "\<forall>(k, v)\<in>set kvs. (content d ++ written t) k = Some v"
  proof clarify
    fix k v assume "(k, v) \<in> set kvs"
    then obtain i where i: "i < length kvs" "kvs ! i = (k, v)" by (auto simp: in_set_conv_nth)
    then have "ks ! i = k" "rs ! i = v" "i < length ks" using l by (auto simp: nth_map)
    then show "(content d ++ written t) k = Some v" using law l by (metis nth_mem)
  qed
qed

lemma set_debug:
  "txn_set False R t d kv = (Inr b, t') \<Longrightarrow> b \<and> written t' = (written t)(fst kv \<mapsto> snd kv)"
  using put_law [of t d "fst kv" "snd kv"]
  by (auto simp: txn_set_def fabko_assert_code_def split: prod.splits if_splits)

lemma set_failed:
  "txn_set False R t d kv = (Inl e, t') \<Longrightarrow>
   written t' = written t \<and> (\<exists>msg. e = Fabko_Thrown \<lparr>ec = put_error_code, what = msg\<rparr>)"
  using put_law [of t d "fst kv" "snd kv"]
  by (auto simp: txn_set_def fabko_assert_code_def split: prod.splits if_splits)

text \<open>A failed \<open>multi_set\<close> leaves the pairs before the one that failed.\<close>

lemma multi_set_debug:
  "txn_multi_set False R t d kvs = (out, t') \<Longrightarrow>
   (\<exists>done rest. kvs = done @ rest \<and> written t' = written t ++ map_of (rev done) \<and>
      (case out of
         Inr b \<Rightarrow> b \<and> rest = []
       | Inl e \<Rightarrow> rest \<noteq> [] \<and> (\<exists>msg. e = Fabko_Thrown \<lparr>ec = put_error_code, what = msg\<rparr>)))"
proof (induction kvs arbitrary: t)
  case Nil
  then show ?case by (intro exI [of _ "[]"]) auto
next
  case (Cons kv kvs)
  obtain o1 t1 where s: "txn_set False R t d kv = (o1, t1)" by (cases "txn_set False R t d kv")
  show ?case
  proof (cases o1)
    case (Inl e)
    then show ?thesis
      using Cons.prems s set_failed [OF s [unfolded Inl]] by (intro exI [of _ "[]"] exI [of _ "kv # kvs"]) auto
  next
    case (Inr b)
    note upd = set_debug [OF s [unfolded Inr]]
    from Cons.prems s Inr have "txn_multi_set False R t1 d kvs = (out, t')" by simp
    from Cons.IH [OF this] obtain l r where ih: "kvs = l @ r" "written t' = written t1 ++ map_of (rev l)"
      "case out of Inr b \<Rightarrow> b \<and> r = []
       | Inl e \<Rightarrow> r \<noteq> [] \<and> (\<exists>msg. e = Fabko_Thrown \<lparr>ec = put_error_code, what = msg\<rparr>)" by blast
    show ?thesis
      using ih upd
      by (intro exI [of _ "kv # l"] exI [of _ r]) (simp add: map_add_rev_Cons del: rev.simps)
  qed
qed

lemma commit_debug:
  "commit_transaction False R t d = (out, t', d') \<Longrightarrow>
   (case out of
      Inr b \<Rightarrow> b \<and> content d' = content d ++ written t
    | Inl e \<Rightarrow> content d' = content d \<and> (\<exists>msg. e = Fabko_Thrown \<lparr>ec = commit_error_code, what = msg\<rparr>))"
  using commit_law [of t d]
  by (auto simp: commit_transaction_def fabko_assert_code_def split: prod.splits if_splits)

lemma list_range:
  "sorted_wrt (<) (map fst (txn_list R t d a b))" (is ?sorted)
  "(k, v) \<in> set (txn_list R t d a b) \<longleftrightarrow> (content d ++ written t) k = Some v \<and> a \<le> k \<and> k < b" (is ?elems)
proof -
  let ?xs = "rocks_seek R t d a"
  have srt: "sorted_wrt (<) (map fst ?xs)" by (rule seek_law(1))
  note take = takeWhile_sorted [OF srt]
  show ?sorted unfolding txn_list_def get_iterator_def take using srt
    by (metis (no_types, lifting) sorted_wrt_filter sorted_wrt_map)
  show ?elems unfolding txn_list_def get_iterator_def take by (simp add: seek_law(2) del: map_add_Some_iff)
qed

lemma list_from_range:
  "txn_list_from R t d start =
     (if start = [] then Inl Undefined_Behaviour
      else Inr (txn_list R t d start (butlast start @ [next_char (last start)])))"
  by (simp add: txn_list_from_def incremented_def)

lemma list_from_prefix:
  assumes "txn_list_from R t d start = Inr kvs"
  shows "sorted_wrt (<) (map fst kvs)"
    and "(k, v) \<in> set kvs \<longleftrightarrow>
      (content d ++ written t) k = Some v \<and> prefix start k \<and> of_char (last start) \<noteq> (255 :: nat)"
proof -
  have ne: "start \<noteq> []" and kvs: "kvs = txn_list R t d start (butlast start @ [next_char (last start)])"
    using assms by (auto simp: list_from_range split: if_splits)
  show "sorted_wrt (<) (map fst kvs)" unfolding kvs by (rule list_range(1))
  show "(k, v) \<in> set kvs \<longleftrightarrow>
      (content d ++ written t) k = Some v \<and> prefix start k \<and> of_char (last start) \<noteq> (255 :: nat)"
    using prefix_range [of "last start" "butlast start" k] last_byte_range [of "last start" "butlast start" k] ne
    unfolding kvs list_range(2) by (simp del: map_add_Some_iff) blast
qed

end

section \<open>What it promises of conflicts\<close>

text \<open>
  Every write has a number, larger than those before it: \<open>latest\<close> is the last one given, \<open>stamp\<close> that of
  the last write of a key. A transaction keeps a snapshot, the last number when it was set, and for each
  key it writes the number the write must not be later than: at most the snapshot, or the last number at
  the insertion when there is none. A commit that succeeds has found no later write of these keys.
\<close>

locale optimistic_rocksdb = rocksdb R content written
  for R :: "('d, 't, 'm) rocksdb_ops" and content :: "'d \<Rightarrow> string \<rightharpoonup> string" and written :: "'t \<Rightarrow> string \<rightharpoonup> string" +
  fixes stamp :: "'d \<Rightarrow> string \<Rightarrow> nat"
    and latest :: "'d \<Rightarrow> nat"
    and snapshot :: "'t \<Rightarrow> nat option"
    and tracked :: "'t \<Rightarrow> string \<rightharpoonup> nat"
  assumes stamp_latest: "stamp d k \<le> latest d"
    and set_snapshot_law: "snapshot (rocks_set_snapshot R t d) = Some (latest d)"
    and put_tracks: "rocks_put R t d k v = (s, t') \<Longrightarrow> status_ok s \<Longrightarrow>
        snapshot t' = snapshot t \<and>
        (\<exists>n. tracked t' = (tracked t)(k \<mapsto> n) \<and> n \<le> (case snapshot t of Some m \<Rightarrow> m | None \<Rightarrow> latest d))"
    and put_failed: "rocks_put R t d k v = (s, t') \<Longrightarrow> \<not> status_ok s \<Longrightarrow>
        snapshot t' = snapshot t \<and> tracked t' = tracked t"
    and commit_checks: "rocks_commit R t d = (s, t', d') \<Longrightarrow> status_ok s \<Longrightarrow> tracked t k = Some n \<Longrightarrow> stamp d k \<le> n"
    and commit_stamps: "rocks_commit R t d = (s, t', d') \<Longrightarrow> status_ok s \<Longrightarrow>
        latest d \<le> latest d' \<and>
        (if written t k = None then stamp d' k = stamp d k else latest d < stamp d' k)"
    and commit_failed: "rocks_commit R t d = (s, t', d') \<Longrightarrow> \<not> status_ok s \<Longrightarrow>
        latest d' = latest d \<and> stamp d' k = stamp d k"

section \<open>An in-memory instance\<close>

text \<open>
  A database is the list of the insertions made, the last one first: a write has the number of those
  up to it. A transaction has its insertions, the keys it wrote with their numbers, and a snapshot.
\<close>

type_synonym memory = "key_value list"

record memory_txn =
  mtx_written :: "key_value list"
  mtx_tracked :: "(string \<times> nat) list"
  mtx_snapshot :: "nat option"

definition memory_stamp :: "memory \<Rightarrow> string \<Rightarrow> nat" where
  "memory_stamp d k = length (dropWhile (\<lambda>kv. fst kv \<noteq> k) d)"

definition memory_rocksdb :: "(memory, memory_txn, unit) rocksdb_ops" where
  "memory_rocksdb =
     \<lparr>rocks_open = (\<lambda>opt path. if path = [] then (Status_Error ''Invalid argument'', []) else (Status_Ok, [])),
      rocks_db_put = (\<lambda>d k v. (Status_Ok, (k, v) # d)),
      rocks_begin = (\<lambda>d. \<lparr>mtx_written = [], mtx_tracked = [], mtx_snapshot = None\<rparr>),
      rocks_set_snapshot = (\<lambda>t d. t\<lparr>mtx_snapshot := Some (length d)\<rparr>),
      rocks_get = (\<lambda>t d k.
        case map_of (mtx_written t @ d) k of
          None \<Rightarrow> (Status_Error ''NotFound: '', [])
        | Some v \<Rightarrow> (Status_Ok, v)),
      rocks_multi_get = (\<lambda>t d ks.
        (map (\<lambda>k. if map_of (mtx_written t @ d) k = None then Status_Error ''NotFound: '' else Status_Ok) ks,
         map (\<lambda>k. case map_of (mtx_written t @ d) k of None \<Rightarrow> [] | Some v \<Rightarrow> v) ks)),
      rocks_put = (\<lambda>t d k v.
        (Status_Ok, t\<lparr>mtx_written := (k, v) # mtx_written t,
                       mtx_tracked := (k, case mtx_snapshot t of None \<Rightarrow> length d | Some n \<Rightarrow> n) # mtx_tracked t\<rparr>)),
      rocks_commit = (\<lambda>t d.
        if list_all (\<lambda>(k, n). memory_stamp d k \<le> n) (mtx_tracked t)
        then (Status_Ok, t\<lparr>mtx_written := [], mtx_tracked := []\<rparr>, mtx_written t @ d)
        else (Status_Error ''Resource busy: '', t, d)),
      rocks_seek = (\<lambda>t d k. filter (\<lambda>kv. k \<le> fst kv) (RBT.entries (RBT.bulkload (mtx_written t @ d))))\<rparr>"

lemma sorted_entries: "sorted_wrt (<) (map fst (RBT.entries (t :: (string, string) rbt)))"
  using RBT.sorted_entries [of t] RBT.distinct_entries [of t] by (simp add: strict_sorted_iff)

lemma entries_bulkload: "(k, v) \<in> set (RBT.entries (RBT.bulkload xs)) \<longleftrightarrow> map_of xs k = Some (v :: string)"
  for k :: string
  by (metis RBT.lookup_bulkload RBT.lookup_in_tree)

lemma memory_stamp_written:
  "memory_stamp (w @ d) k = (if map_of w k = None then memory_stamp d k else length d + memory_stamp w k)"
  by (induction w) (auto simp: memory_stamp_def)

lemma memory_stamp_bounds: "memory_stamp d k \<le> length d" "map_of w k \<noteq> None \<Longrightarrow> 0 < memory_stamp w k"
  unfolding memory_stamp_def by (rule length_dropWhile_le) (induction w, auto)

interpretation memory: optimistic_rocksdb memory_rocksdb map_of "map_of \<circ> mtx_written" memory_stamp length
  mtx_snapshot "map_of \<circ> mtx_tracked"
proof unfold_locales
  fix t d k show "sorted_wrt (<) (map fst (rocks_seek memory_rocksdb t d k))"
    using sorted_entries [of "RBT.bulkload (mtx_written t @ d)"]
    by (simp add: memory_rocksdb_def sorted_wrt_map sorted_wrt_filter)
next
  fix t d k k' v show "(k', v) \<in> set (rocks_seek memory_rocksdb t d k) \<longleftrightarrow>
      (map_of d ++ (map_of \<circ> mtx_written) t) k' = Some v \<and> k \<le> k'"
    by (auto simp: memory_rocksdb_def entries_bulkload map_of_append)
next
  fix t d s t' d' k n
  show "rocks_commit memory_rocksdb t d = (s, t', d') \<Longrightarrow> status_ok s \<Longrightarrow> (map_of \<circ> mtx_tracked) t k = Some n \<Longrightarrow>
      memory_stamp d k \<le> n"
    by (auto simp: memory_rocksdb_def list_all_iff dest: map_of_SomeD split: if_splits)
qed (auto simp: memory_rocksdb_def fun_eq_iff map_of_append memory_stamp_written memory_stamp_bounds map_add_def
      split: option.splits if_splits)

section \<open>Reading numbers back\<close>

lemma number_parts:
  "split_sign (skip_ws (string_of_int n)) = (n < 0, string_of_nat (nat \<bar>n\<bar>))"
  "takeWhile is_digit (string_of_nat k) = string_of_nat k"
  using skip_ws_int [of n "[]"] split_sign_int [of n "[]"] string_of_nat_digits
  by (simp_all add: takeWhile_eq_all_conv)

lemma stoi_string_of_int:
  "stoi (string_of_int n) = (if - (2 ^ 31) \<le> n \<and> n < 2 ^ 31 then Inr n else Inl Out_Of_Range)"
  by (auto simp: stoi_def number_parts digits_value_string_of_nat Let_def)

lemma stoul_string_of_int:
  "\<bar>n\<bar> < 2 ^ 64 \<Longrightarrow> stoul (string_of_int n) = Inr (n mod 2 ^ 64)"
  by (auto simp: stoul_def number_parts digits_value_string_of_nat Let_def)

lemma to_signed_fits:
  assumes "1 \<le> w" and "- (2 ^ (w - 1)) \<le> n" and "n < 2 ^ (w - 1)"
  shows "to_signed w n = n"
proof -
  have "(2 :: int) ^ w = 2 * 2 ^ (w - 1)" using assms(1) by (cases w) simp_all
  then have "(n + 2 ^ (w - 1)) mod 2 ^ w = n + 2 ^ (w - 1)" using assms(2,3) by (intro mod_pos_pos_trivial) simp_all
  then show ?thesis by (simp add: to_signed_def)
qed

section \<open>The properties\<close>

definition example_db :: memory where
  "example_db = [(''user:1'', ''ann''), (''user:2'', ''bob''), (''usher'', ''7'')]"

definition example_txn :: memory_txn where
  "example_txn = make_transaction memory_rocksdb example_db"

lemma memory_is_rocksdb: "rocksdb memory_rocksdb map_of (map_of \<circ> mtx_written)"
  by (rule memory.rocksdb_axioms)

lemma example_txn_written: "(map_of \<circ> mtx_written) example_txn = Map.empty"
  unfolding example_txn_def by (rule memory.transaction_start)

text \<open>
  C11. With assertions on: after a successful \<open>multi_set\<close> in a new transaction, a \<open>multi_get\<close> that
  succeeds gives for each key, in order, the last value set, or what the database then holds; a successful
  commit leaves the database with exactly those insertions, a failed one throws code 42 and leaves it
  as it was. The database may have changed between the calls.
\<close>

theorem kv_transaction_reads_its_writes:
  assumes "rocksdb R content written"
    and "txn_multi_set False R (make_transaction R db0) db1 kvs = (Inr b, t)"
  shows "(\<forall>keys res. txn_multi_get False R t db keys = Inr res \<longrightarrow>
      map fst res = keys \<and> (\<forall>(k, v)\<in>set res. (content db ++ map_of (rev kvs)) k = Some v)) \<and>
    (\<forall>out t' db'. commit_transaction False R t db = (out, t', db') \<longrightarrow>
      (case out of
         Inr _ \<Rightarrow> content db' = content db ++ map_of (rev kvs)
       | Inl e \<Rightarrow> content db' = content db \<and>
           (\<exists>msg. e = Fabko_Thrown \<lparr>ec = commit_error_code, what = msg\<rparr>)))"
proof -
  have t: "written t = map_of (rev kvs)"
    using rocksdb.multi_set_debug [OF assms] by (auto simp: rocksdb.transaction_start [OF assms(1)])
  show ?thesis
  proof (intro conjI allI impI)
    fix keys res assume "txn_multi_get False R t db keys = Inr res"
    from rocksdb.multi_get_debug [OF assms(1) this]
    show "map fst res = keys" "\<forall>(k, v)\<in>set res. (content db ++ map_of (rev kvs)) k = Some v"
      by (simp_all add: t del: map_add_Some_iff)
  next
    fix out t' db' assume "commit_transaction False R t db = (out, t', db')"
    from rocksdb.commit_debug [OF assms(1) this]
    show "case out of
         Inr _ \<Rightarrow> content db' = content db ++ map_of (rev kvs)
       | Inl e \<Rightarrow> content db' = content db \<and>
           (\<exists>msg. e = Fabko_Thrown \<lparr>ec = commit_error_code, what = msg\<rparr>)"
      by (simp add: t split: sum.splits)
  qed
qed

theorem kv_transaction_reads_its_writes_witness:
  "\<exists>t t' db'. txn_multi_set False memory_rocksdb example_txn example_db
       [(''user:1'', ''eve''), (''n'', ''1'')] = (Inr True, t) \<and>
     commit_transaction False memory_rocksdb t example_db = (Inr True, t', db') \<and>
     map_of db' = map_of example_db ++ map_of [(''n'', ''1''), (''user:1'', ''eve'')]"
proof -
  let ?kvs = "[(''user:1'', ''eve''), (''n'', ''1'')]"
  obtain t t' db' where t: "txn_multi_set False memory_rocksdb example_txn example_db ?kvs = (Inr True, t)"
    and c: "commit_transaction False memory_rocksdb t example_db = (Inr True, t', db')"
    by (simp add: txn_set_def memory_rocksdb_def make_transaction_def fabko_assert_code_def example_txn_def
        commit_transaction_def example_db_def memory_stamp_def)
  from kv_transaction_reads_its_writes [OF memory_is_rocksdb t [unfolded example_txn_def]] c
  have "map_of db' = map_of example_db ++ map_of (rev ?kvs)" by fastforce
  with t c show ?thesis by auto
qed

text \<open>
  A \<open>multi_set\<close> that throws, with code 0 of the database category, has inserted the pairs before the
  one that failed and no other: it is not atomic within the transaction.
\<close>

theorem kv_multi_set_stops:
  assumes "rocksdb R content written"
    and "txn_multi_set False R t db kvs = (Inl e, t')"
  shows "\<exists>done rest msg. kvs = done @ rest \<and> rest \<noteq> [] \<and> written t' = written t ++ map_of (rev done) \<and>
    e = Fabko_Thrown \<lparr>ec = put_error_code, what = msg\<rparr>"
  using rocksdb.multi_set_debug [OF assms] by auto

text \<open>A database whose transactions accept one key only, to see a failure.\<close>

definition picky_rocksdb :: "string \<Rightarrow> (memory, memory_txn, unit) rocksdb_ops" where
  "picky_rocksdb key =
     memory_rocksdb\<lparr>rocks_put := \<lambda>t d k v.
       if k = key then rocks_put memory_rocksdb t d k v else (Status_Error ''Invalid argument: '', t)\<rparr>"

lemma picky_is_rocksdb: "rocksdb (picky_rocksdb key) map_of (map_of \<circ> mtx_written)"
  unfolding picky_rocksdb_def by (rule memory.rocksdb_with_put) (auto dest: memory.put_law split: if_splits)

theorem kv_multi_set_stops_witness:
  "\<exists>e t' done rest. txn_multi_set False (picky_rocksdb ''a'') example_txn example_db [(''a'', ''1''), (''b'', ''2'')] =
       (Inl e, t') \<and> [(''a'', ''1''), (''b'', ''2'')] = done @ rest \<and> map_of (mtx_written t') = map_of (rev done)"
proof -
  obtain e t' where s: "txn_multi_set False (picky_rocksdb ''a'') example_txn example_db [(''a'', ''1''), (''b'', ''2'')] =
       (Inl e, t')"
    by (simp add: txn_set_def picky_rocksdb_def memory_rocksdb_def fabko_assert_code_def)
  from kv_multi_set_stops [OF picky_is_rocksdb s] s example_txn_written show ?thesis by fastforce
qed

text \<open>
  C34. \<open>list\<close> hands over, in increasing order of keys, exactly the entries from the start key to below
  the end key. With a start key only it hands over the entries that begin with it, unless its last byte
  is 255, when it hands over nothing; on an empty start key the behaviour is undefined.
\<close>

theorem kv_list_entries:
  assumes "rocksdb R content written"
  shows "sorted_wrt (<) (map fst (txn_list R t db start end_key)) \<and>
    (\<forall>k v. (k, v) \<in> set (txn_list R t db start end_key) \<longleftrightarrow>
      (content db ++ written t) k = Some v \<and> start \<le> k \<and> k < end_key) \<and>
    txn_list_from R t db [] = Inl Undefined_Behaviour \<and>
    (start \<noteq> [] \<longrightarrow>
      (\<exists>kvs. txn_list_from R t db start = Inr kvs \<and> sorted_wrt (<) (map fst kvs) \<and>
        (\<forall>k v. (k, v) \<in> set kvs \<longleftrightarrow>
          (content db ++ written t) k = Some v \<and> prefix start k \<and> of_char (last start) \<noteq> (255 :: nat))))"
proof (intro conjI allI impI)
  show "sorted_wrt (<) (map fst (txn_list R t db start end_key))"
    "(k, v) \<in> set (txn_list R t db start end_key) \<longleftrightarrow>
      (content db ++ written t) k = Some v \<and> start \<le> k \<and> k < end_key" for k v
    by (rule rocksdb.list_range [OF assms])+
  show "txn_list_from R t db [] = Inl Undefined_Behaviour"
    by (simp add: txn_list_from_def incremented_def)
  assume "start \<noteq> []"
  then obtain kvs where kvs: "txn_list_from R t db start = Inr kvs"
    by (simp add: txn_list_from_def incremented_def)
  with rocksdb.list_from_prefix [OF assms kvs]
  show "\<exists>kvs. txn_list_from R t db start = Inr kvs \<and> sorted_wrt (<) (map fst kvs) \<and>
        (\<forall>k v. (k, v) \<in> set kvs \<longleftrightarrow>
          (content db ++ written t) k = Some v \<and> prefix start k \<and> of_char (last start) \<noteq> (255 :: nat))"
    by blast
qed

theorem kv_list_entries_witness:
  "\<exists>kvs. txn_list_from memory_rocksdb example_txn example_db ''user:'' = Inr kvs \<and>
     (''user:2'', ''bob'') \<in> set kvs \<and> (''usher'', ''7'') \<notin> set kvs"
proof -
  define V where "V = map_of example_db ++ (map_of \<circ> mtx_written) example_txn"
  have V: "V ''user:2'' = Some ''bob''" unfolding V_def example_txn_written by (simp add: example_db_def)
  from kv_list_entries [OF memory_is_rocksdb, of example_txn example_db "''user:''", folded V_def]
  obtain kvs where "txn_list_from memory_rocksdb example_txn example_db ''user:'' = Inr kvs"
    and "\<And>k v. (k, v) \<in> set kvs \<longleftrightarrow> V k = Some v \<and> prefix ''user:'' k \<and> of_char (last ''user:'') \<noteq> (255 :: nat)"
    by blast
  then show ?thesis using V by (intro exI [of _ kvs]) simp
qed

text \<open>
  A key without a value makes \<open>get\<close> throw code 1 of the database category when assertions are on.
  With \<open>NDEBUG\<close> nothing is thrown, whatever the status: the caller gets what the failed call left in an
  empty string. In both builds a \<open>get\<close> that the database answers gives its answer.
\<close>

theorem kv_get_missing:
  assumes "rocksdb R content written"
  shows "((content db ++ written t) k = None \<longrightarrow>
      (\<exists>msg. txn_get False R t db k = Inl (Fabko_Thrown \<lparr>ec = get_error_code, what = msg\<rparr>))) \<and>
    txn_get True R t db k = Inr (snd (rocks_get R t db k)) \<and>
    (\<forall>r. rocks_get R t db k = (Status_Ok, r) \<longrightarrow>
      txn_get nd R t db k = Inr r \<and> (content db ++ written t) k = Some r)"
proof (intro conjI allI impI)
  show "\<exists>msg. txn_get False R t db k = Inl (Fabko_Thrown \<lparr>ec = get_error_code, what = msg\<rparr>)"
    if "(content db ++ written t) k = None"
    using rocksdb.get_missing [OF assms that] by metis
  show "txn_get True R t db k = Inr (snd (rocks_get R t db k))"
    by (simp add: txn_get_def fabko_assert_code_def split: prod.split)
  fix r assume r: "rocks_get R t db k = (Status_Ok, r)"
  show "txn_get nd R t db k = Inr r" by (simp add: txn_get_def r)
  show "(content db ++ written t) k = Some r" using rocksdb.get_law [OF assms r] by simp
qed

theorem kv_get_missing_witness:
  "(\<exists>msg. txn_get False memory_rocksdb example_txn example_db ''x'' =
      Inl (Fabko_Thrown \<lparr>ec = get_error_code, what = msg\<rparr>)) \<and>
   txn_get True memory_rocksdb example_txn example_db ''x'' = Inr []"
proof -
  have v: "(map_of example_db ++ (map_of \<circ> mtx_written) example_txn) ''x'' = None"
    unfolding example_txn_written by (simp add: example_db_def)
  have "rocks_get memory_rocksdb example_txn example_db ''x'' = (Status_Error ''NotFound: '', [])"
    by (simp add: memory_rocksdb_def example_txn_def make_transaction_def example_db_def)
  then show ?thesis
    using kv_get_missing [OF memory_is_rocksdb, of example_db example_txn "''x''"] v by auto
qed

text \<open>
  C38. A number below \<open>2 ^ 64\<close> in absolute value, stored as its decimal text, is read back by \<open>get_as\<close> for
  a signed type of 32 bits or more only if it fits 32 bits, and throws \<open>std::out_of_range\<close> otherwise, also
  for 64-bit types. For an unsigned type of 64 bits it is read back modulo \<open>2 ^ 64\<close>: a negative number is
  not refused.
\<close>

theorem kv_get_as_numbers:
  assumes "txn_get nd R t db k = Inr (string_of_int n)" and "32 \<le> w" and "\<bar>n\<bar> < 2 ^ 64"
  shows "txn_get_as nd R stod (Of_Signed w) t db k =
      (if - (2 ^ 31) \<le> n \<and> n < 2 ^ 31 then Inr (Got_Integer n) else Inl Out_Of_Range) \<and>
    txn_get_as nd R stod (Of_Unsigned 64) t db k = Inr (Got_Integer (n mod 2 ^ 64))"
proof -
  have "to_signed w n = n" if "- (2 ^ 31) \<le> n" "n < 2 ^ 31"
  proof (rule to_signed_fits)
    have "(2 :: int) ^ 31 \<le> 2 ^ (w - 1)" using assms(2) by (intro power_increasing) simp_all
    then show "- (2 ^ (w - 1)) \<le> n" "n < 2 ^ (w - 1)" using that by linarith+
  qed (use assms(2) in simp)
  then show ?thesis
    using assms(1,3) by (simp add: txn_get_as_def stoi_string_of_int stoul_string_of_int)
qed

theorem kv_get_as_numbers_witness:
  "txn_get_as False memory_rocksdb (\<lambda>_ _. Inl Invalid_Argument :: unit fallible) (Of_Signed 64)
     example_txn [(''n'', string_of_int 5000000000)] ''n'' = Inl Out_Of_Range"
proof -
  have "txn_get False memory_rocksdb example_txn [(''n'', string_of_int 5000000000)] ''n'' =
      Inr (string_of_int 5000000000)"
    by (simp add: txn_get_def memory_rocksdb_def example_txn_def make_transaction_def)
  from kv_get_as_numbers [OF this, where w = 64 and stod = "\<lambda>_ _. Inl Invalid_Argument :: unit fallible"] show ?thesis by simp
qed

text \<open>
  Opening a database gives one with the initial pairs over what it held, later pairs winning, as
  far as the insertions succeed; if it cannot be opened, the constructor throws an error code of value
  0, or, with \<open>NDEBUG\<close>, uses a pointer that was not set.
\<close>

theorem kv_rocksdb_opens:
  assumes "rocksdb R content written"
    and "rocks_open R (rocksdb_options init) (path_db_file init) = (s, db)"
    and "\<And>d k v. status_ok (fst (rocks_db_put R d k v))"
  shows "(status_ok s \<longrightarrow> (\<exists>db'. make_kv_rocksdb nd R init = Inr db' \<and>
      content db' = content db ++ map_of (rev (initial_kv init)))) \<and>
    (\<not> status_ok s \<longrightarrow>
      (\<exists>msg. make_kv_rocksdb False R init =
        Inl (Fabko_Thrown \<lparr>ec = \<lparr>ec_value = 0, ec_category = System_Category\<rparr>, what = msg\<rparr>)) \<and>
      make_kv_rocksdb True R init = Inl Undefined_Behaviour)"
proof -
  have step: "content (snd (rocks_db_put R d k v)) = (content d)(k \<mapsto> v)" for d k v
    using rocksdb.db_put_law [OF assms(1), of d k v] assms(3) [of d k v] by (cases "rocks_db_put R d k v") auto
  have "content (foldl (\<lambda>d kv. snd (rocks_db_put R d (fst kv) (snd kv))) d kvs) = content d ++ map_of (rev kvs)"
    for d kvs
  proof (induction kvs arbitrary: d)
    case (Cons kv kvs)
    then show ?case by (simp only: foldl_Cons step map_add_rev_Cons)
  qed simp
  then show ?thesis
    by (cases nd; cases s) (simp_all add: make_kv_rocksdb_def assms(2) fabko_assert_code_def)
qed

theorem kv_rocksdb_opens_witness:
  "\<exists>db'. make_kv_rocksdb False memory_rocksdb
       \<lparr>path_db_file = ''db'', initial_kv = [(''k'', ''1''), (''k'', ''2'')], init_merge_operator = None\<rparr> = Inr db' \<and>
     map_of db' ''k'' = Some ''2''"
proof -
  let ?init = "\<lparr>path_db_file = ''db'', initial_kv = [(''k'', ''1''), (''k'', ''2'')],
    init_merge_operator = None :: unit option\<rparr>"
  have "rocks_open memory_rocksdb (rocksdb_options ?init) (path_db_file ?init) = (Status_Ok, [])"
    by (simp add: memory_rocksdb_def)
  from kv_rocksdb_opens [OF memory_is_rocksdb this]
  have "\<exists>db'. make_kv_rocksdb False memory_rocksdb ?init = Inr db' \<and>
      map_of db' = map_of [] ++ map_of (rev (initial_kv ?init))"
    by (simp add: memory_rocksdb_def)
  then show ?thesis by auto
qed

end
