(* ===== verification/Key_Value_Db.thy ===== *)
theory Key_Value_Db
  imports Kv_Properties
begin

text \<open>
  \<open>fabko/datastore/key_value_db.hh\<close>: the two halves of \<open>kv_db\<close>, over a policy. The half without
  transactions forwards to its policy, a parameter; \<open>get\<close> hands one key to the \<open>multi_get\<close> of the
  policy, and compiles only with a policy that has a second \<open>multi_get\<close>, of one key, with a list of
  strings as its result. The half with transactions makes them; its one instance in the source is
  \<open>kv_rocksdb\<close>.
\<close>

section \<open>Without transactions\<close>

record ('i, 'd, 'f) db_policy =
  policy_open :: "'i \<Rightarrow> 'd fallible"
  policy_multi_get_key :: "'d \<Rightarrow> string \<Rightarrow> string list fallible"
  policy_multi_get :: "'d \<Rightarrow> string list \<Rightarrow> key_value list fallible"
  policy_set :: "'d \<Rightarrow> key_value \<Rightarrow> bool fallible \<times> 'd"
  policy_multi_set :: "'d \<Rightarrow> key_value list \<Rightarrow> bool fallible \<times> 'd"
  policy_inc_counter :: "'d \<Rightarrow> string \<Rightarrow> unit fallible \<times> 'd"
  policy_list :: "'d \<Rightarrow> string \<Rightarrow> string \<Rightarrow> key_value list fallible"
  policy_get_as :: "value_type \<Rightarrow> 'd \<Rightarrow> string \<Rightarrow> 'f typed_value fallible"

definition kv_db_open :: "('i, 'd, 'f) db_policy \<Rightarrow> 'i \<Rightarrow> 'd fallible" where
  "kv_db_open D initializer = policy_open D initializer"

definition kv_db_get :: "('i, 'd, 'f) db_policy \<Rightarrow> 'd \<Rightarrow> string \<Rightarrow> string list fallible" where
  "kv_db_get D db key = policy_multi_get_key D db key"

definition kv_db_multi_get :: "('i, 'd, 'f) db_policy \<Rightarrow> 'd \<Rightarrow> string list \<Rightarrow> key_value list fallible" where
  "kv_db_multi_get D db keys = policy_multi_get D db keys"

definition kv_db_set :: "('i, 'd, 'f) db_policy \<Rightarrow> 'd \<Rightarrow> key_value \<Rightarrow> bool fallible \<times> 'd" where
  "kv_db_set D db to_add = policy_set D db to_add"

definition kv_db_multi_set :: "('i, 'd, 'f) db_policy \<Rightarrow> 'd \<Rightarrow> key_value list \<Rightarrow> bool fallible \<times> 'd" where
  "kv_db_multi_set D db to_adds = policy_multi_set D db to_adds"

definition kv_db_inc_counter :: "('i, 'd, 'f) db_policy \<Rightarrow> 'd \<Rightarrow> string \<Rightarrow> unit fallible \<times> 'd" where
  "kv_db_inc_counter D db key_counter = policy_inc_counter D db key_counter"

definition kv_db_list :: "('i, 'd, 'f) db_policy \<Rightarrow> 'd \<Rightarrow> string \<Rightarrow> string \<Rightarrow> key_value list fallible" where
  "kv_db_list D db start_key end_key = policy_list D db start_key end_key"

definition kv_db_list_from :: "('i, 'd, 'f) db_policy \<Rightarrow> 'd \<Rightarrow> string \<Rightarrow> key_value list fallible" where
  "kv_db_list_from D db start_key = and_then (incremented start_key) (policy_list D db start_key)"

definition kv_db_get_as :: "('i, 'd, 'f) db_policy \<Rightarrow> value_type \<Rightarrow> 'd \<Rightarrow> string \<Rightarrow> 'f typed_value fallible" where
  "kv_db_get_as D ty db key = policy_get_as D ty db key"

section \<open>With transactions\<close>

definition kv_db_make_transaction :: "('d, 't, 'm) rocksdb_ops \<Rightarrow> 'd \<Rightarrow> 't" where
  "kv_db_make_transaction R db = make_transaction R db"

definition kv_rocksdb_instance ::
    "bool \<Rightarrow> ('d, 't, 'm) rocksdb_ops \<Rightarrow> 'm kv_initializer \<Rightarrow> 'd fallible" where
  "kv_rocksdb_instance nd R init = make_kv_rocksdb nd R init"

text \<open>
  A policy whose \<open>list\<close> is the one of a transaction lists from a start key as the transaction does.
\<close>

lemma kv_db_list_from_transaction:
  assumes "policy_list D t = (\<lambda>start end_key. Inr (txn_list R t db start end_key))"
  shows "kv_db_list_from D t start = txn_list_from R t db start"
  using assms by (simp add: kv_db_list_from_def txn_list_from_def and_then_def split: sum.split)

end
