(* ===== verification/Kv_Interleaving.thy ===== *)
theory Kv_Interleaving
  imports Key_Value_Db
begin

text \<open>
  Several transactions of one \<open>kv_db\<close> at once: the calls of their clients in any order, each call of
  RocksDB one event. A transaction that commits has lost no update of the keys it wrote, because the
  constructor of \<open>transaction\<close> sets a snapshot; the reads of other keys are not covered, because \<open>get\<close> reads
  without it.
\<close>

section \<open>Clients\<close>

text \<open>
  A client has the pointer \<open>make_transaction\<close> returned, and calls through it. A \<open>multi_set\<close> is
  one event for each of its insertions; the other reads leave everything as it is, as \<open>get\<close> does.
\<close>

datatype kv_call = Make_Transaction | Get_Key string | Set_Pair key_value | Commit_Transaction

datatype kv_answer = Transaction_Made | Got_Value "string fallible" | Call_Done "bool fallible"

record ('d, 't) kv_system =
  system_db :: 'd
  system_txns :: "nat \<Rightarrow> 't option"

fun kv_event ::
    "bool \<Rightarrow> ('d, 't, 'm) rocksdb_ops \<Rightarrow> nat \<times> kv_call \<Rightarrow> ('d, 't) kv_system \<Rightarrow> kv_answer \<times> ('d, 't) kv_system" where
  "kv_event nd R (c, Make_Transaction) s =
     (Transaction_Made,
      s\<lparr>system_txns := (system_txns s)(c := Some (kv_db_make_transaction R (system_db s)))\<rparr>)"
| "kv_event nd R (c, Get_Key k) s =
     (case system_txns s c of
        None \<Rightarrow> (Got_Value (Inl Undefined_Behaviour), s)
      | Some t \<Rightarrow> (Got_Value (txn_get nd R t (system_db s) k), s))"
| "kv_event nd R (c, Set_Pair kv) s =
     (case system_txns s c of
        None \<Rightarrow> (Call_Done (Inl Undefined_Behaviour), s)
      | Some t \<Rightarrow>
          (case txn_set nd R t (system_db s) kv of (out, t') \<Rightarrow>
             (Call_Done out, s\<lparr>system_txns := (system_txns s)(c := Some t')\<rparr>)))"
| "kv_event nd R (c, Commit_Transaction) s =
     (case system_txns s c of
        None \<Rightarrow> (Call_Done (Inl Undefined_Behaviour), s)
      | Some t \<Rightarrow>
          (case commit_transaction nd R t (system_db s) of (out, t', d') \<Rightarrow>
             (Call_Done out, \<lparr>system_db = d', system_txns = (system_txns s)(c := Some t')\<rparr>)))"

fun kv_events ::
    "bool \<Rightarrow> ('d, 't, 'm) rocksdb_ops \<Rightarrow> (nat \<times> kv_call) list \<Rightarrow> ('d, 't) kv_system \<Rightarrow>
     kv_answer list \<times> ('d, 't) kv_system" where
  "kv_events nd R [] s = ([], s)"
| "kv_events nd R (e # es) s =
     (case kv_event nd R e s of (a, s1) \<Rightarrow> (case kv_events nd R es s1 of (as, s2) \<Rightarrow> (a # as, s2)))"

text \<open>The insertions of a client that succeeded, in order.\<close>

fun client_write :: "nat \<Rightarrow> (nat \<times> kv_call) \<times> kv_answer \<Rightarrow> key_value list" where
  "client_write c ((c', Set_Pair kv), Call_Done (Inr b)) = (if c' = c then [kv] else [])"
| "client_write c _ = []"

definition client_writes :: "nat \<Rightarrow> (nat \<times> kv_call) list \<Rightarrow> kv_answer list \<Rightarrow> key_value list" where
  "client_writes c es as = concat (map (client_write c) (zip es as))"

lemma client_writes_simps [simp]:
  "client_writes c [] as = []"
  "client_writes c (e # es) (a # as) = client_write c (e, a) @ client_writes c es as"
  by (simp_all add: client_writes_def)

lemma kv_events_append:
  "kv_events nd R (es @ fs) s =
     (case kv_events nd R es s of (as, s1) \<Rightarrow> (case kv_events nd R fs s1 of (bs, s2) \<Rightarrow> (as @ bs, s2)))"
  by (induction es arbitrary: s) (simp_all split: prod.split)

lemma kv_events_length: "kv_events nd R es s = (as, s') \<Longrightarrow> length as = length es"
  by (induction es arbitrary: s as) (auto split: prod.splits)

lemma kv_events_split:
  assumes "kv_events nd R es s = (as, s')" and "i < length es"
  obtains s1 s2 where "kv_events nd R (take i es) s = (take i as, s1)" and "kv_event nd R (es ! i) s1 = (as ! i, s2)"
    and "kv_events nd R (drop (Suc i) es) s2 = (drop (Suc i) as, s')"
proof -
  have es: "es = take i es @ es ! i # drop (Suc i) es" using assms(2) by (rule id_take_nth_drop)
  obtain as1 s1 where 1: "kv_events nd R (take i es) s = (as1, s1)" by fastforce
  obtain a s2 where 2: "kv_event nd R (es ! i) s1 = (a, s2)" by fastforce
  obtain as2 s3 where 3: "kv_events nd R (drop (Suc i) es) s2 = (as2, s3)" by fastforce
  have "(as, s') = (as1 @ a # as2, s3)"
    using assms(1) 1 2 3 by (subst (asm) es) (simp add: kv_events_append)
  moreover have "length as1 = i" using kv_events_length [OF 1] assms(2) by simp
  ultimately show thesis using that 1 2 3 by (auto simp: nth_append)
qed

section \<open>Clients that update a key\<close>

text \<open>
  A client that reads the key, applies \<open>f\<close> and commits, and begins again after a commit or an exception;
  a schedule says which client makes its next call. The last component counts the commits that succeeded.
\<close>

datatype update_phase = Not_Started | Started | Has_Read string | Has_Set

type_synonym ('d, 't) updates = "('d, 't) kv_system \<times> (nat \<Rightarrow> update_phase) \<times> nat"

fun update_client ::
    "('d, 't, 'm) rocksdb_ops \<Rightarrow> (string \<Rightarrow> string) \<Rightarrow> string \<Rightarrow> nat \<Rightarrow> ('d, 't) updates \<Rightarrow> ('d, 't) updates" where
  "update_client R f k c (s, ph, n) =
     (case ph c of
        Not_Started \<Rightarrow>
          (case kv_event False R (c, Make_Transaction) s of (_, s') \<Rightarrow> (s', ph(c := Started), n))
      | Started \<Rightarrow>
          (case kv_event False R (c, Get_Key k) s of
             (Got_Value (Inr v), s') \<Rightarrow> (s', ph(c := Has_Read v), n)
           | (_, s') \<Rightarrow> (s', ph(c := Not_Started), n))
      | Has_Read v \<Rightarrow>
          (case kv_event False R (c, Set_Pair (k, f v)) s of
             (Call_Done (Inr _), s') \<Rightarrow> (s', ph(c := Has_Set), n)
           | (_, s') \<Rightarrow> (s', ph(c := Not_Started), n))
      | Has_Set \<Rightarrow>
          (case kv_event False R (c, Commit_Transaction) s of
             (Call_Done (Inr _), s') \<Rightarrow> (s', ph(c := Not_Started), n + 1)
           | (_, s') \<Rightarrow> (s', ph(c := Not_Started), n)))"

section \<open>What a transaction knows of its keys\<close>

context optimistic_rocksdb
begin

text \<open>
  A transaction that was made on \<open>d0\<close> and has inserted \<open>ws\<close>, on a later database \<open>d\<close>: a key without a
  write since then has the value it had.
\<close>

definition since_start :: "'d \<Rightarrow> key_value list \<Rightarrow> 't \<Rightarrow> 'd \<Rightarrow> bool" where
  "since_start d0 ws t d \<longleftrightarrow>
     snapshot t = Some (latest d0) \<and> written t = map_of (rev ws) \<and>
     (\<forall>k. written t k \<noteq> None \<longrightarrow> (\<exists>n\<le>latest d0. tracked t k = Some n)) \<and>
     latest d0 \<le> latest d \<and> (\<forall>k. stamp d k \<le> latest d0 \<longrightarrow> content d k = content d0 k)"

lemma since_start_made: "since_start d [] (make_transaction R d) d"
  by (simp add: since_start_def transaction_start) (simp add: make_transaction_def set_snapshot_law)

lemma since_start_set:
  assumes "since_start d0 ws t d" and "txn_set False R t d kv = (out, t')"
  shows "since_start d0 (ws @ (case out of Inr _ \<Rightarrow> [kv] | Inl _ \<Rightarrow> [])) t' d"
proof -
  obtain s where s: "rocks_put R t d (fst kv) (snd kv) = (s, t')" and out: "isl out \<longleftrightarrow> \<not> status_ok s"
    using assms(2) by (auto simp: txn_set_def fabko_assert_code_def split: prod.splits if_splits)
  show ?thesis
  proof (cases out)
    case (Inl e)
    then show ?thesis using put_law [OF s] put_failed [OF s] assms(1) out by (simp add: since_start_def)
  next
    case (Inr b)
    with out have ok: "status_ok s" by simp
    obtain n where "tracked t' = (tracked t)(fst kv \<mapsto> n)" "n \<le> latest d0" "snapshot t' = Some (latest d0)"
      using put_tracks [OF s ok] assms(1) by (auto simp: since_start_def)
    then show ?thesis using put_law [OF s] ok assms(1) Inr by (cases kv) (auto simp: since_start_def)
  qed
qed

text \<open>Stamps only grow, and a key that keeps a small stamp keeps its value.\<close>

lemma commit_keeps:
  assumes "commit_transaction nd R t d = (out, t', d')"
  shows "latest d \<le> latest d'" and "stamp d k \<le> stamp d' k"
    and "stamp d' k \<le> latest d \<Longrightarrow> content d' k = content d k"
proof -
  obtain s where s: "rocks_commit R t d = (s, t', d')"
    using assms by (auto simp: commit_transaction_def split: prod.splits sum.splits)
  note laws = commit_law [OF s] commit_stamps [OF s, of k] commit_failed [OF s, of k] stamp_latest [of d k]
  show "latest d \<le> latest d'" "stamp d k \<le> stamp d' k" using laws by (cases "status_ok s"; force split: if_splits)+
  show "stamp d' k \<le> latest d \<Longrightarrow> content d' k = content d k"
    using laws by (cases "status_ok s") (auto simp: map_add_def split: if_splits option.splits)
qed

lemma event_grows:
  assumes "kv_event nd R e s = (a, s')"
  shows "latest (system_db s) \<le> latest (system_db s') \<and> stamp (system_db s) k \<le> stamp (system_db s') k \<and>
    (stamp (system_db s') k \<le> latest (system_db s) \<longrightarrow> content (system_db s') k = content (system_db s) k)"
proof (cases e)
  case (Pair c call)
  then show ?thesis
    using assms commit_keeps [of nd _ "system_db s"] by (cases call) (auto split: option.splits prod.splits)
qed

lemma events_grow:
  "kv_events nd R es s = (as, s') \<Longrightarrow> stamp (system_db s) k \<le> stamp (system_db s') k"
proof (induction es arbitrary: s as)
  case (Cons e es)
  then show ?case using event_grows [of nd e s _ _ k] by (fastforce split: prod.splits)
qed simp

lemma event_since_start:
  assumes "kv_event False R (c', call) s = (a, s')" and "system_txns s c = Some t"
    and "since_start d0 ws t (system_db s)"
    and "c' = c \<Longrightarrow> call \<noteq> Make_Transaction \<and> call \<noteq> Commit_Transaction"
  obtains t' where "system_txns s' c = Some t'"
    and "since_start d0 (ws @ client_write c ((c', call), a)) t' (system_db s')"
proof (cases "c' = c")
  case True
  then show thesis
  proof (cases call)
    case (Set_Pair kv)
    obtain out t' where t': "txn_set False R t (system_db s) kv = (out, t')" by fastforce
    then have "a = Call_Done out" "system_txns s' c = Some t'" "system_db s' = system_db s"
      using assms(1,2) True Set_Pair by auto
    with since_start_set [OF assms(3) t'] True Set_Pair show thesis
      by (intro that) (auto split: sum.splits)
  qed (use assms that True in auto)
next
  case False
  have "client_write c ((c', call), a) = []" using False by (cases "(c, ((c', call), a))" rule: client_write.cases) auto
  moreover have "system_txns s' c = Some t"
    using assms(1,2) False by (cases call) (auto split: option.splits prod.splits)
  moreover have "since_start d0 ws t (system_db s')"
    unfolding since_start_def
  proof (intro conjI allI impI)
    fix k
    note g = event_grows [OF assms(1), of k]
    show "latest d0 \<le> latest (system_db s')" using g assms(3) by (simp add: since_start_def)
    assume "stamp (system_db s') k \<le> latest d0"
    with g assms(3) show "content (system_db s') k = content d0 k" by (simp add: since_start_def)
  qed (use assms(3) in \<open>simp_all add: since_start_def\<close>)
  ultimately show thesis using that by simp
qed

lemma events_since_start:
  assumes "kv_events False R es s = (as, s')" and "system_txns s c = Some t"
    and "since_start d0 ws t (system_db s)"
    and "\<forall>(c', call)\<in>set es. c' = c \<longrightarrow> call \<noteq> Make_Transaction \<and> call \<noteq> Commit_Transaction"
  obtains t' where "system_txns s' c = Some t'"
    and "since_start d0 (ws @ client_writes c es as) t' (system_db s')"
  using assms
proof (induction es arbitrary: s as t ws thesis)
  case (Cons e es)
  obtain c' call where e: "e = (c', call)" by fastforce
  obtain a s1 bs where 1: "kv_event False R (c', call) s = (a, s1)" "kv_events False R es s1 = (bs, s')"
    and as: "as = a # bs"
    using Cons.prems(2) e by (auto split: prod.splits)
  obtain t1 where t1: "system_txns s1 c = Some t1"
    "since_start d0 (ws @ client_write c ((c', call), a)) t1 (system_db s1)"
    using event_since_start [OF 1(1) Cons.prems(3,4)] Cons.prems(5) e by auto
  show ?case
    by (rule Cons.IH [OF _ 1(2) t1]) (use Cons.prems(1,5) as e in auto)
qed simp

lemma commit_unchanged:
  assumes "since_start d0 ws t d" and "commit_transaction False R t d = (Inr b, t', d')"
    and "k \<in> fst ` set ws"
  shows "stamp d k \<le> latest d0"
proof -
  obtain s where s: "rocks_commit R t d = (s, t', d')" "status_ok s"
    using assms(2) by (auto simp: commit_transaction_def fabko_assert_code_def split: prod.splits if_splits)
  have "written t k \<noteq> None" using assms(1,3) by (auto simp: since_start_def map_of_eq_None_iff)
  then obtain n where "n \<le> latest d0" "tracked t k = Some n" using assms(1) unfolding since_start_def by blast
  with commit_checks [OF s] show ?thesis by (meson le_trans)
qed

lemma read_since_start:
  assumes "since_start d0 ws t d" and "txn_get False R t d k = Inr v" and "stamp d k \<le> latest d0"
  shows "(content d0 ++ map_of (rev ws)) k = Some v"
  using get_debug [OF assms(2)] assms(1,3) by (simp add: since_start_def map_add_def split: option.splits)

lemma transaction_run:
  assumes "kv_events False R es (snd (kv_event False R (c, Make_Transaction) s0)) = (as, s1)"
    and "\<forall>(c', call)\<in>set es. c' = c \<longrightarrow> call \<noteq> Make_Transaction \<and> call \<noteq> Commit_Transaction"
  obtains t where "system_txns s1 c = Some t"
    and "since_start (system_db s0) (client_writes c es as) t (system_db s1)"
  using events_since_start [OF assms(1) _ _ assms(2), of "kv_db_make_transaction R (system_db s0)" "system_db s0" "[]"]
    since_start_made [of "system_db s0"]
  by (auto simp: kv_db_make_transaction_def)

lemma commit_loses_no_update:
  assumes run: "kv_events False R ((c, Make_Transaction) # es) s0 = (Transaction_Made # as, s1)"
    and own: "\<forall>(c', call)\<in>set es. c' = c \<longrightarrow> call \<noteq> Make_Transaction \<and> call \<noteq> Commit_Transaction"
    and commit: "kv_event False R (c, Commit_Transaction) s1 = (Call_Done (Inr b), s2)"
  shows "content (system_db s2) = content (system_db s1) ++ map_of (rev (client_writes c es as))"
    and "k \<in> fst ` set (client_writes c es as) \<Longrightarrow> content (system_db s1) k = content (system_db s0) k"
    and "k \<in> fst ` set (client_writes c es as) \<Longrightarrow> i < length es \<Longrightarrow> es ! i = (c, Get_Key k) \<Longrightarrow>
      as ! i = Got_Value (Inr v) \<Longrightarrow>
      (content (system_db s0) ++ map_of (rev (client_writes c (take i es) (take i as)))) k = Some v"
proof -
  let ?s = "snd (kv_event False R (c, Make_Transaction) s0)"
  have run: "kv_events False R es ?s = (as, s1)" using run by (auto split: prod.splits)
  obtain t where t: "system_txns s1 c = Some t"
    and start: "since_start (system_db s0) (client_writes c es as) t (system_db s1)"
    using transaction_run [OF run own] .
  obtain t' where out: "commit_transaction False R t (system_db s1) = (Inr b, t', system_db s2)"
    using commit t by (auto split: prod.splits)
  show "content (system_db s2) = content (system_db s1) ++ map_of (rev (client_writes c es as))"
    using commit_debug [OF out] start by (simp add: since_start_def)
  assume k: "k \<in> fst ` set (client_writes c es as)"
  note stamp = commit_unchanged [OF start out k]
  then show "content (system_db s1) k = content (system_db s0) k" using start by (simp add: since_start_def)
  assume i: "i < length es" and get: "es ! i = (c, Get_Key k)" "as ! i = Got_Value (Inr v)"
  obtain si s' where si: "kv_events False R (take i es) ?s = (take i as, si)"
    and ev: "kv_event False R (es ! i) si = (as ! i, s')"
    and rest: "kv_events False R (drop (Suc i) es) s' = (drop (Suc i) as, s1)"
    using kv_events_split [OF run i] by blast
  have "\<forall>(c', call)\<in>set (take i es). c' = c \<longrightarrow> call \<noteq> Make_Transaction \<and> call \<noteq> Commit_Transaction"
    using own by (meson in_set_takeD)
  from transaction_run [OF si this] obtain ti where ti: "system_txns si c = Some ti"
    "since_start (system_db s0) (client_writes c (take i es) (take i as)) ti (system_db si)" .
  have read: "txn_get False R ti (system_db si) k = Inr v" and same: "s' = si" using ev get ti(1) by auto
  have "stamp (system_db si) k \<le> latest (system_db s0)"
    using events_grow [OF rest, of k] stamp unfolding same by (rule le_trans)
  from read_since_start [OF ti(2) read this]
  show "(content (system_db s0) ++ map_of (rev (client_writes c (take i es) (take i as)))) k = Some v" .
qed

text \<open>
  The invariant of one updating client: what it has read is still there, unless the key has been
  written since it began, when its commit will fail.
\<close>

definition client_ok :: "(string \<Rightarrow> string) \<Rightarrow> string \<Rightarrow> ('d, 't) kv_system \<Rightarrow> nat \<Rightarrow> update_phase \<Rightarrow> bool" where
  "client_ok f k s c p \<longleftrightarrow>
     (p \<noteq> Not_Started \<longrightarrow>
       (\<exists>d0 t ws. system_txns s c = Some t \<and> since_start d0 ws t (system_db s) \<and>
         (case p of
            Has_Read v \<Rightarrow> ws = [] \<and> (stamp (system_db s) k \<le> latest d0 \<longrightarrow> content (system_db s) k = Some v)
          | Has_Set \<Rightarrow>
              (\<exists>v. ws = [(k, f v)] \<and> (stamp (system_db s) k \<le> latest d0 \<longrightarrow> content (system_db s) k = Some v))
          | _ \<Rightarrow> ws = [])))"

lemma client_ok_other:
  assumes "client_ok f k s c p" and "kv_event False R (c', call) s = (a, s')" and "c' \<noteq> c"
  shows "client_ok f k s' c p"
proof (cases "p = Not_Started")
  case False
  then obtain d0 t ws where t: "system_txns s c = Some t" "since_start d0 ws t (system_db s)"
    and p: "case p of
            Has_Read v \<Rightarrow> ws = [] \<and> (stamp (system_db s) k \<le> latest d0 \<longrightarrow> content (system_db s) k = Some v)
          | Has_Set \<Rightarrow>
              (\<exists>v. ws = [(k, f v)] \<and> (stamp (system_db s) k \<le> latest d0 \<longrightarrow> content (system_db s) k = Some v))
          | _ \<Rightarrow> ws = []"
    using assms(1) unfolding client_ok_def by blast
  obtain t' where t': "system_txns s' c = Some t'" "since_start d0 (ws @ client_write c ((c', call), a)) t' (system_db s')"
    using event_since_start [OF assms(2) t] assms(3) by blast
  moreover have "client_write c ((c', call), a) = []"
    using assms(3) by (cases "(c, ((c', call), a))" rule: client_write.cases) auto
  moreover have "stamp (system_db s) k \<le> latest d0 \<and> content (system_db s') k = content (system_db s) k"
    if "stamp (system_db s') k \<le> latest d0"
    using event_grows [OF assms(2), of k] t(2) that by (simp add: since_start_def)
  ultimately show ?thesis
    using p unfolding client_ok_def
    by (intro impI exI [of _ d0] exI [of _ t'] exI [of _ ws]) (auto split: update_phase.splits)
qed (simp add: client_ok_def)

text \<open>A step of a client is one call, and the phases of the others stay.\<close>

lemma update_client_event:
  assumes "update_client R f k c (s, ph, n) = (s', ph', n')"
  obtains call a where "kv_event False R (c, call) s = (a, s')" and "\<forall>c'. c' \<noteq> c \<longrightarrow> ph' c' = ph c'"
proof (cases "ph c")
  case Not_Started
  then show thesis using that [of Make_Transaction] assms by (auto split: prod.splits)
next
  case Started
  then show thesis using that [of "Get_Key k"] assms
    by (auto simp del: kv_event.simps split: prod.splits kv_answer.splits sum.splits)
next
  case (Has_Read v)
  then show thesis using that [of "Set_Pair (k, f v)"] assms
    by (auto simp del: kv_event.simps split: prod.splits kv_answer.splits sum.splits)
next
  case Has_Set
  then show thesis using that [of Commit_Transaction] assms
    by (auto simp del: kv_event.simps split: prod.splits kv_answer.splits sum.splits)
qed

lemma update_client_own:
  assumes "content (system_db s) k = Some ((f ^^ n) v0)" and "client_ok f k s c (ph c)"
    and "update_client R f k c (s, ph, n) = (s', ph', n')"
  shows "content (system_db s') k = Some ((f ^^ n') v0) \<and> client_ok f k s' c (ph' c)"
proof (cases "ph c")
  case Not_Started
  then show ?thesis using assms(1,3) since_start_made [of "system_db s"]
    by (auto simp: client_ok_def kv_db_make_transaction_def)
next
  case Started
  then obtain d0 t where t: "system_txns s c = Some t" "since_start d0 [] t (system_db s)"
    using assms(2) by (auto simp: client_ok_def)
  show ?thesis
  proof (cases "txn_get False R t (system_db s) k")
    case (Inr v)
    then have r: "s' = s" "ph' c = Has_Read v" "n' = n" using assms(3) Started t(1) by auto
    have "content (system_db s) k = Some v" if "stamp (system_db s) k \<le> latest d0"
      using read_since_start [OF t(2) Inr that] t(2) that by (simp add: since_start_def)
    then show ?thesis using assms(1) t by (auto simp: r client_ok_def)
  qed (use assms(1,3) Started t(1) in \<open>auto simp: client_ok_def\<close>)
next
  case (Has_Read v)
  then obtain d0 t where t: "system_txns s c = Some t" "since_start d0 [] t (system_db s)"
    and v: "stamp (system_db s) k \<le> latest d0 \<Longrightarrow> content (system_db s) k = Some v"
    using assms(2) by (auto simp: client_ok_def)
  obtain out t' where set: "txn_set False R t (system_db s) (k, f v) = (out, t')" by fastforce
  show ?thesis
  proof (cases out)
    case (Inr b)
    then have r: "system_db s' = system_db s" "system_txns s' c = Some t'" "ph' c = Has_Set" "n' = n"
      using assms(3) Has_Read t(1) set by auto
    have "since_start d0 [(k, f v)] t' (system_db s)" using since_start_set [OF t(2) set] Inr by simp
    then show ?thesis using assms(1) v by (auto simp: r client_ok_def)
  qed (use assms(1,3) Has_Read t(1) set in \<open>auto simp: client_ok_def\<close>)
next
  case Has_Set
  then obtain d0 t v where t: "system_txns s c = Some t" "since_start d0 [(k, f v)] t (system_db s)"
    and v: "stamp (system_db s) k \<le> latest d0 \<Longrightarrow> content (system_db s) k = Some v"
    using assms(2) by (auto simp: client_ok_def)
  obtain out t' d' where out: "commit_transaction False R t (system_db s) = (out, t', d')" by (metis prod_cases3)
  then have d': "system_db s' = d'" "ph' c = Not_Started" "n' = (case out of Inl _ \<Rightarrow> n | Inr _ \<Rightarrow> n + 1)"
    using assms(3) Has_Set t(1) by (auto split: sum.splits)
  show ?thesis
  proof (cases out)
    case (Inl e)
    then show ?thesis using commit_debug [OF out] assms(1) by (simp add: d' client_ok_def)
  next
    case (Inr b)
    from commit_unchanged [OF t(2) out [unfolded Inr]] have "content (system_db s) k = Some v" using v by simp
    then have "v = (f ^^ n) v0" using assms(1) by simp
    then show ?thesis
      using commit_debug [OF out] t(2) Inr by (simp add: d' client_ok_def since_start_def)
  qed
qed

lemma updates_serialize:
  assumes "content (system_db s) k = Some ((f ^^ n) v0)" and "\<And>c. client_ok f k s c (ph c)"
    and "fold (update_client R f k) schedule (s, ph, n) = (s', ph', n')"
  shows "content (system_db s') k = Some ((f ^^ n') v0)"
  using assms
proof (induction schedule arbitrary: s ph n)
  case (Cons c schedule)
  obtain s1 ph1 n1 where step: "update_client R f k c (s, ph, n) = (s1, ph1, n1)" by (metis prod_cases3)
  obtain call a where e: "kv_event False R (c, call) s = (a, s1)" and ph: "\<forall>c'. c' \<noteq> c \<longrightarrow> ph1 c' = ph c'"
    using update_client_event [OF step] by blast
  note own = update_client_own [OF Cons.prems(1,2) step]
  have "client_ok f k s1 c' (ph1 c')" for c'
    using own client_ok_other [OF Cons.prems(2) e] ph by (cases "c' = c") auto
  with own show ?case using Cons.IH [of s1 n1 ph1] Cons.prems(3) step by simp
qed simp

end

section \<open>The properties\<close>

text \<open>
  C12. Whatever the other clients do between \<open>make_transaction\<close> and a commit that succeeds, with assertions
  on: the commit leaves the database with exactly the insertions of the transaction over what it held; no
  key the transaction inserted has changed since it was made; and each of its reads of such a key gave
  its own last insertion, or what the database held when the transaction was made. So an update that
  reads a key and writes it back is never lost.
\<close>

theorem kv_commit_loses_no_update:
  assumes "optimistic_rocksdb R content written stamp latest snapshot tracked"
    and "kv_events False R ((c, Make_Transaction) # es) s0 = (Transaction_Made # as, s1)"
    and "\<forall>(c', call)\<in>set es. c' = c \<longrightarrow> call \<noteq> Make_Transaction \<and> call \<noteq> Commit_Transaction"
    and "kv_event False R (c, Commit_Transaction) s1 = (Call_Done (Inr b), s2)"
  shows "content (system_db s2) = content (system_db s1) ++ map_of (rev (client_writes c es as)) \<and>
    (\<forall>k\<in>fst ` set (client_writes c es as).
      content (system_db s1) k = content (system_db s0) k \<and>
      (\<forall>i<length es. \<forall>v. es ! i = (c, Get_Key k) \<longrightarrow> as ! i = Got_Value (Inr v) \<longrightarrow>
        (content (system_db s0) ++ map_of (rev (client_writes c (take i es) (take i as)))) k = Some v))"
  using optimistic_rocksdb.commit_loses_no_update [OF assms] by blast

lemma memory_is_optimistic: "optimistic_rocksdb memory_rocksdb map_of (map_of \<circ> mtx_written) memory_stamp length
    mtx_snapshot (map_of \<circ> mtx_tracked)"
  by (rule memory.optimistic_rocksdb_axioms)

lemmas memory_run_simps = memory_rocksdb_def kv_db_make_transaction_def make_transaction_def txn_get_def txn_set_def
  commit_transaction_def fabko_assert_code_def memory_stamp_def

definition example_system :: "(memory, memory_txn) kv_system" where
  "example_system = \<lparr>system_db = [(''n'', ''5''), (''m'', ''5'')], system_txns = (\<lambda>c. None)\<rparr>"

text \<open>Two clients update one key; another key changes in between.\<close>

definition example_update :: "(nat \<times> kv_call) list" where
  "example_update =
     [(2, Make_Transaction), (1, Get_Key ''n''), (2, Set_Pair (''m'', ''0'')), (1, Set_Pair (''n'', ''6'')),
      (2, Commit_Transaction), (1, Get_Key ''n'')]"

theorem kv_commit_loses_no_update_witness:
  "\<exists>as s1 s2. kv_events False memory_rocksdb ((1, Make_Transaction) # example_update) example_system =
      (Transaction_Made # as, s1) \<and>
    kv_event False memory_rocksdb (1, Commit_Transaction) s1 = (Call_Done (Inr True), s2) \<and>
    as ! 5 = Got_Value (Inr ''6'') \<and> map_of (system_db s2) = map_of (system_db s1) ++ [''n'' \<mapsto> ''6''] \<and>
    map_of (system_db s1) ''n'' = Some ''5'' \<and> map_of (system_db s1) ''m'' = Some ''0''"
proof -
  obtain as s1 s2 where run: "kv_events False memory_rocksdb ((1, Make_Transaction) # example_update) example_system =
      (Transaction_Made # as, s1)"
    and commit: "kv_event False memory_rocksdb (1, Commit_Transaction) s1 = (Call_Done (Inr True), s2)"
    and as: "client_writes 1 example_update as = [(''n'', ''6'')]" "as ! 5 = Got_Value (Inr ''6'')"
      "map_of (system_db s1) ''m'' = Some ''0''"
    by (simp add: example_update_def example_system_def memory_run_simps)
  have "map_of (system_db s1) ''n'' = map_of (system_db example_system) ''n''"
    "map_of (system_db s2) = map_of (system_db s1) ++ map_of (rev [(''n'', ''6'')])"
    using kv_commit_loses_no_update [OF memory_is_optimistic run _ commit] as
    by (simp_all add: example_update_def)
  then show ?thesis using run commit as by (intro exI [of _ as] exI [of _ s1] exI [of _ s2]) (simp add: example_system_def)
qed

text \<open>
  C13. Clients that update one key in transactions, any number of them, their calls in any order, some of
  them throwing: the value is \<open>f\<close> applied as often to the first value as commits succeeded, as if the
  transactions that committed had run one after the other.
\<close>

theorem kv_updates_serialize:
  assumes "optimistic_rocksdb R content written stamp latest snapshot tracked"
    and "content (system_db s0) k = Some v0"
    and "fold (update_client R f k) schedule (s0, \<lambda>c. Not_Started, 0) = (s, ph, n)"
  shows "content (system_db s) k = Some ((f ^^ n) v0)"
  using optimistic_rocksdb.updates_serialize [OF assms(1) _ _ assms(3), of v0] assms(2)
    optimistic_rocksdb.client_ok_def [OF assms(1)] by simp

definition example_schedule :: "nat list" where
  "example_schedule = [1, 2, 1, 2, 1, 2, 2, 1, 1, 1, 1, 1]"

theorem kv_updates_serialize_witness:
  "\<exists>s ph. fold (update_client memory_rocksdb (\<lambda>v. v @ ''x'') ''n'') example_schedule
       (example_system, \<lambda>c. Not_Started, 0) = (s, ph, 2) \<and>
     map_of (system_db s) ''n'' = Some ''5xx''"
proof -
  obtain s ph where run: "fold (update_client memory_rocksdb (\<lambda>v. v @ ''x'') ''n'') example_schedule
       (example_system, \<lambda>c. Not_Started, 0) = (s, ph, 2)"
    by (simp add: example_schedule_def example_system_def memory_run_simps)
  have "map_of (system_db example_system) ''n'' = Some ''5''" by (simp add: example_system_def)
  from kv_updates_serialize [OF memory_is_optimistic this run] run show ?thesis by (simp add: numeral_2_eq_2)
qed

text \<open>
  Reads are not repeatable: the snapshot is not in the \<open>ReadOptions\<close>, so a second \<open>get\<close> of the same
  transaction sees what another has committed in between.
\<close>

definition repeated_read :: "(nat \<times> kv_call) list" where
  "repeated_read =
     [(1, Make_Transaction), (1, Get_Key ''n''), (2, Make_Transaction), (2, Set_Pair (''n'', ''6'')),
      (2, Commit_Transaction), (1, Get_Key ''n'')]"

lemma kv_reads_not_repeatable:
  "fst (kv_events False memory_rocksdb repeated_read example_system) =
     [Transaction_Made, Got_Value (Inr ''5''), Transaction_Made, Call_Done (Inr True), Call_Done (Inr True),
      Got_Value (Inr ''6'')]"
  by (simp add: repeated_read_def example_system_def memory_run_simps)

text \<open>
  Nor are the keys only read checked: two transactions that each read both keys and set one of them to
  zero, as they may while the other is not, both commit.
\<close>

definition write_skew :: "(nat \<times> kv_call) list" where
  "write_skew =
     [(1, Make_Transaction), (2, Make_Transaction), (1, Get_Key ''m''), (2, Get_Key ''n''),
      (1, Set_Pair (''n'', ''0'')), (2, Set_Pair (''m'', ''0'')), (1, Commit_Transaction), (2, Commit_Transaction)]"

lemma kv_write_skew:
  "\<exists>s. kv_events False memory_rocksdb write_skew example_system =
     ([Transaction_Made, Transaction_Made, Got_Value (Inr ''5''), Got_Value (Inr ''5''), Call_Done (Inr True),
       Call_Done (Inr True), Call_Done (Inr True), Call_Done (Inr True)], s) \<and>
     map_of (system_db s) ''n'' = Some ''0'' \<and> map_of (system_db s) ''m'' = Some ''0''"
  by (simp add: write_skew_def example_system_def memory_run_simps)

text \<open>With \<open>NDEBUG\<close> the commit that found a conflict returns true as the other does, and its update is lost.\<close>

definition conflicting_updates :: "(nat \<times> kv_call) list" where
  "conflicting_updates =
     [(1, Make_Transaction), (2, Make_Transaction), (1, Set_Pair (''n'', ''6'')), (2, Set_Pair (''n'', ''7'')),
      (1, Commit_Transaction), (2, Commit_Transaction)]"

lemma kv_ndebug_commit_lost:
  "\<exists>s. kv_events True memory_rocksdb conflicting_updates example_system =
     ([Transaction_Made, Transaction_Made, Call_Done (Inr True), Call_Done (Inr True), Call_Done (Inr True),
       Call_Done (Inr True)], s) \<and> map_of (system_db s) ''n'' = Some ''6''"
  by (simp add: conflicting_updates_def example_system_def memory_run_simps)

end
