(* ===== verification/Acl.thy ===== *)
theory Acl
  imports Fabko_Exception "HOL-Library.Word"
begin

text \<open>
  \<open>fabko/agent/protocol/acl.hh\<close>: the messages of the agent communication language, their
  classification, and their JSON and CBOR forms. The JSON library is a parameter: the record of the
  operations the code uses, over a type of JSON values.
\<close>

section \<open>Message types\<close>

text \<open>
  The enumeration is one of \<open>unsigned\<close>, and a JSON number is cast to it: \<open>Unnamed\<close> stands for the
  values from 20 on, which have no enumerator.
\<close>

datatype message_type =
    Accept_Proposal | Agree | Cancel | Cfp | Confirm | Disconfirm | Failure | Inform | Inform_If
  | Not_Understood | Propose | Query_If | Query_Ref | Refuse | Reject_Proposal | Request
  | Request_When | Request_Whenever | Subscribe | Inform_Ref | Unnamed nat

definition enumerators :: "message_type list" where
  "enumerators =
     [Accept_Proposal, Agree, Cancel, Cfp, Confirm, Disconfirm, Failure, Inform, Inform_If,
      Not_Understood, Propose, Query_If, Query_Ref, Refuse, Reject_Proposal, Request,
      Request_When, Request_Whenever, Subscribe, Inform_Ref]"

fun message_code :: "message_type \<Rightarrow> nat" where
  "message_code Accept_Proposal = 0"
| "message_code Agree = 1"
| "message_code Cancel = 2"
| "message_code Cfp = 3"
| "message_code Confirm = 4"
| "message_code Disconfirm = 5"
| "message_code Failure = 6"
| "message_code Inform = 7"
| "message_code Inform_If = 8"
| "message_code Not_Understood = 9"
| "message_code Propose = 10"
| "message_code Query_If = 11"
| "message_code Query_Ref = 12"
| "message_code Refuse = 13"
| "message_code Reject_Proposal = 14"
| "message_code Request = 15"
| "message_code Request_When = 16"
| "message_code Request_Whenever = 17"
| "message_code Subscribe = 18"
| "message_code Inform_Ref = 19"
| "message_code (Unnamed n) = n"

definition message_of_code :: "nat \<Rightarrow> message_type" where
  "message_of_code n = (if n < 20 then enumerators ! n else Unnamed n)"

definition is_negotiation :: "message_type \<Rightarrow> bool" where
  "is_negotiation ty \<longleftrightarrow>
     ty = Accept_Proposal \<or> ty = Cfp \<or> ty = Propose \<or> ty = Reject_Proposal"

definition is_action :: "message_type \<Rightarrow> bool" where
  "is_action ty \<longleftrightarrow>
     ty = Agree \<or> ty = Cancel \<or> ty = Refuse \<or> ty = Request \<or> ty = Query_Ref \<or> ty = Request_When \<or>
     ty = Request_Whenever"

definition is_info_passing :: "message_type \<Rightarrow> bool" where
  "is_info_passing ty \<longleftrightarrow>
     ty = Inform \<or> ty = Inform_If \<or> ty = Inform_Ref \<or> ty = Failure \<or> ty = Confirm \<or> ty = Disconfirm"

definition is_query :: "message_type \<Rightarrow> bool" where
  "is_query ty \<longleftrightarrow> ty = Query_If \<or> ty = Query_Ref \<or> ty = Subscribe \<or> ty = Refuse"

definition is_error_handling :: "message_type \<Rightarrow> bool" where
  "is_error_handling ty \<longleftrightarrow> ty = Failure \<or> ty = Inform \<or> ty = Not_Understood"

section \<open>The JSON library\<close>

text \<open>
  \<open>json_set\<close> is \<open>operator[]\<close> with an assignment, \<open>json_at\<close> is \<open>at\<close>; the others convert between JSON values
  and C++ values, bytes and text.
\<close>

record 'j json_ops =
  json_null :: 'j
  json_is_null :: "'j \<Rightarrow> bool"
  json_set :: "'j \<Rightarrow> string \<Rightarrow> 'j \<Rightarrow> 'j fallible"
  json_at :: "'j \<Rightarrow> string \<Rightarrow> 'j fallible"
  json_of_string :: "string \<Rightarrow> 'j"
  json_get_string :: "'j \<Rightarrow> string fallible"
  json_of_strings :: "string list \<Rightarrow> 'j"
  json_get_strings :: "'j \<Rightarrow> string list fallible"
  json_of_bytes :: "8 word list \<Rightarrow> 'j"
  json_get_bytes :: "'j \<Rightarrow> 8 word list fallible"
  json_of_enum :: "nat \<Rightarrow> 'j"
  json_get_enum :: "'j \<Rightarrow> nat fallible"
  json_to_cbor :: "'j \<Rightarrow> 8 word list"
  json_from_cbor :: "8 word list \<Rightarrow> 'j fallible"
  json_dump :: "'j \<Rightarrow> string fallible"
  json_parse :: "string \<Rightarrow> 'j fallible"

definition set_field :: "'j json_ops \<Rightarrow> string \<Rightarrow> 'j \<Rightarrow> 'j fallible \<Rightarrow> 'j fallible" where
  "set_field J key v ser = and_then ser (\<lambda>j. json_set J j key v)"

section \<open>Conversations and messages\<close>

record acc =
  acc_identifier :: "32 word"
  protocol :: string
  reply_with :: "string option"
  reply_by :: "string option"

definition default_acc :: acc where
  "default_acc = \<lparr>acc_identifier = 0, protocol = [], reply_with = None, reply_by = None\<rparr>"

definition acc_to_json :: "'j json_ops \<Rightarrow> 'j fallible \<Rightarrow> acc \<Rightarrow> 'j fallible" where
  "acc_to_json J ser obj =
     (let s1 = set_field J ''protocol'' (json_of_string J (protocol obj)) ser;
          s2 = (case reply_with obj of
                  None \<Rightarrow> s1 | Some r \<Rightarrow> set_field J ''reply_with'' (json_of_string J r) s1)
      in case reply_by obj of
           None \<Rightarrow> s2 | Some r \<Rightarrow> set_field J ''reply_by'' (json_of_string J r) s2)"

text \<open>
  \<open>from_json\<close> fills an object the caller passes: what was stored before an exception stays. The two
  optional members are read only if the object has them set.
\<close>

definition acc_from_json :: "'j json_ops \<Rightarrow> 'j \<Rightarrow> acc \<Rightarrow> unit fallible \<times> acc" where
  "acc_from_json J ser obj =
     (let s1 = fill (\<lambda>_. and_then (json_at J ser ''protocol'') (json_get_string J)) (\<lambda>x o'. o'\<lparr>protocol := x\<rparr>)
                 (Inr (), obj);
          s2 = (if reply_with (snd s1) \<noteq> None
                then fill (\<lambda>_. and_then (json_at J ser ''reply_with'') (json_get_string J))
                       (\<lambda>x o'. o'\<lparr>reply_with := Some x\<rparr>) s1
                else s1)
      in if reply_by (snd s2) \<noteq> None
         then fill (\<lambda>_. and_then (json_at J ser ''reply_by'') (json_get_string J))
                (\<lambda>x o'. o'\<lparr>reply_by := Some x\<rparr>) s2
         else s2)"

record message =
  msg_type :: message_type
  sender :: string
  receivers :: "string list"
  envelope :: "string \<rightharpoonup> string"
  content :: "8 word list"
  ontology :: string
  communication :: "acc option"

definition default_message :: message where
  "default_message =
     \<lparr>msg_type = Not_Understood, sender = [], receivers = [], envelope = Map.empty, content = [],
      ontology = [], communication = None\<rparr>"

definition content_as_string :: "message \<Rightarrow> string" where
  "content_as_string m = map (\<lambda>c. char_of (unat c)) (content m)"

definition message_to_json :: "'j json_ops \<Rightarrow> 'j fallible \<Rightarrow> message \<Rightarrow> 'j fallible" where
  "message_to_json J ser obj =
     (let s = set_field J ''ontology'' (json_of_string J (ontology obj))
               (set_field J ''content'' (json_of_bytes J (content obj))
               (set_field J ''receivers'' (json_of_strings J (receivers obj))
               (set_field J ''sender'' (json_of_string J (sender obj))
               (set_field J ''type'' (json_of_enum J (message_code (msg_type obj))) ser))))
      in case communication obj of
           None \<Rightarrow> s
         | Some a \<Rightarrow>
             and_then (acc_to_json J (Inr (json_null J)) a) (\<lambda>j. set_field J ''communication'' j s))"

text \<open>\<open>get<acc>()\<close> fills a new object.\<close>

definition get_acc :: "'j json_ops \<Rightarrow> 'j \<Rightarrow> acc fallible" where
  "get_acc J j = (case acc_from_json J j default_acc of (Inl e, _) \<Rightarrow> Inl e | (Inr _, a) \<Rightarrow> Inr a)"

definition message_from_json :: "'j json_ops \<Rightarrow> 'j \<Rightarrow> message \<Rightarrow> unit fallible \<times> message" where
  "message_from_json J ser obj =
     (let s = fill (\<lambda>_. and_then (json_at J ser ''ontology'') (json_get_string J)) (\<lambda>x o'. o'\<lparr>ontology := x\<rparr>)
               (fill (\<lambda>_. and_then (json_at J ser ''content'') (json_get_bytes J)) (\<lambda>x o'. o'\<lparr>content := x\<rparr>)
               (fill (\<lambda>_. and_then (json_at J ser ''receivers'') (json_get_strings J)) (\<lambda>x o'. o'\<lparr>receivers := x\<rparr>)
               (fill (\<lambda>_. and_then (json_at J ser ''sender'') (json_get_string J)) (\<lambda>x o'. o'\<lparr>sender := x\<rparr>)
               (fill (\<lambda>_. and_then (json_at J ser ''type'') (json_get_enum J))
                  (\<lambda>x o'. o'\<lparr>msg_type := message_of_code x\<rparr>)
                  (Inr (), obj)))))
      in if communication (snd s) \<noteq> None
         then fill (\<lambda>_. and_then (json_at J ser ''communication'') (get_acc J))
                (\<lambda>x o'. o'\<lparr>communication := Some x\<rparr>) s
         else s)"

section \<open>Serialisation\<close>

text \<open>
  \<open>deserialize\<close> chooses its branch by what its argument converts to. A JSON value takes the last branch
  only when it does not convert to a vector of bytes or to a string: the model assumes the implicit
  conversions of the JSON library to be off, as \<open>CMakeLists.txt\<close> (line 41) asks for.
\<close>

definition to_binary :: "'j json_ops \<Rightarrow> message \<Rightarrow> 8 word list fallible" where
  "to_binary J m = and_then (message_to_json J (Inr (json_null J)) m) (\<lambda>j. Inr (json_to_cbor J j))"

definition to_json :: "'j json_ops \<Rightarrow> message \<Rightarrow> string fallible" where
  "to_json J m = and_then (message_to_json J (Inr (json_null J)) m) (json_dump J)"

datatype 'j serialized = Cbor "8 word list" | Text string | Json 'j

definition deserialize :: "'j json_ops \<Rightarrow> 'j serialized \<Rightarrow> message \<Rightarrow> unit fallible \<times> message" where
  "deserialize J s into =
     (case (case s of Cbor bs \<Rightarrow> json_from_cbor J bs | Text t \<Rightarrow> json_parse J t | Json j \<Rightarrow> Inr j) of
        Inl e \<Rightarrow> (Inl e, into)
      | Inr ser \<Rightarrow> message_from_json J ser into)"

text \<open>The serialiser of optionals, for a type with the given conversions; its \<open>value()\<close> may throw.\<close>

definition optional_to_json :: "'j json_ops \<Rightarrow> ('a \<Rightarrow> 'j) \<Rightarrow> 'a option \<Rightarrow> 'j fallible" where
  "optional_to_json J conv opt =
     (if opt \<noteq> None then Inr (json_null J)
      else (case opt of None \<Rightarrow> Inl Bad_Optional_Access | Some x \<Rightarrow> Inr (conv x)))"

definition optional_from_json :: "'j json_ops \<Rightarrow> ('j \<Rightarrow> 'a fallible) \<Rightarrow> 'j \<Rightarrow> 'a option fallible" where
  "optional_from_json J get j = (if json_is_null J j then Inr None else and_then (get j) (\<lambda>x. Inr (Some x)))"

end
