(* ===== verification/Acl_Properties.thy ===== *)
theory Acl_Properties
  imports Acl
begin

text \<open>
  What the JSON library promises, as a locale, and the lemmas on what is written of a message and read
  back from it.
\<close>

section \<open>The promises of the JSON library\<close>

text \<open>\<open>fields\<close> gives the members of an object, \<open>None\<close> for other values.\<close>

locale json_library =
  fixes J :: "'j json_ops"
    and fields :: "'j \<Rightarrow> (string \<rightharpoonup> 'j) option"
  assumes null_law: "json_is_null J (json_null J)"
    and set_null_law: "\<exists>j. json_set J (json_null J) k v = Inr j \<and> fields j = Some [k \<mapsto> v]"
    and set_law: "fields j = Some m \<Longrightarrow> \<exists>j'. json_set J j k v = Inr j' \<and> fields j' = Some (m(k \<mapsto> v))"
    and at_law: "fields j = Some m \<Longrightarrow>
      json_at J j k = (case m k of None \<Rightarrow> Inl (Json_Error 403) | Some v \<Rightarrow> Inr v)"
    and string_law: "json_get_string J (json_of_string J s) = Inr s"
    and strings_law: "json_get_strings J (json_of_strings J ss) = Inr ss"
    and bytes_law: "json_get_bytes J (json_of_bytes J bs) = Inr bs"
    and enum_law: "n < 2 ^ 32 \<Longrightarrow> json_get_enum J (json_of_enum J n) = Inr n"
    and cbor_law: "json_from_cbor J (json_to_cbor J j) = Inr j"
    and text_law: "json_dump J j = Inr t \<Longrightarrow> json_parse J t = Inr j"
begin

text \<open>A value under construction: nothing yet, or an object with known members.\<close>

definition holds_fields :: "'j fallible \<Rightarrow> (string \<rightharpoonup> 'j) \<Rightarrow> bool" where
  "holds_fields ser m \<longleftrightarrow>
     (\<exists>j. ser = Inr j \<and> (fields j = Some m \<or> (j = json_null J \<and> m = Map.empty)))"

lemma holds_start: "holds_fields (Inr (json_null J)) Map.empty"
  by (simp add: holds_fields_def)

lemma holds_set: "holds_fields ser m \<Longrightarrow> holds_fields (set_field J k v ser) (m(k \<mapsto> v))"
  using set_null_law [of k v] set_law [of _ m k v] by (auto simp: holds_fields_def set_field_def)

lemma holds_object:
  assumes "holds_fields ser m" and "m \<noteq> Map.empty"
  obtains j where "ser = Inr j" and "fields j = Some m"
  using assms by (auto simp: holds_fields_def)

definition acc_fields :: "acc \<Rightarrow> string \<rightharpoonup> 'j" where
  "acc_fields a =
     (let m1 = [''protocol'' \<mapsto> json_of_string J (protocol a)];
          m2 = (case reply_with a of None \<Rightarrow> m1 | Some r \<Rightarrow> m1(''reply_with'' \<mapsto> json_of_string J r))
      in case reply_by a of None \<Rightarrow> m2 | Some r \<Rightarrow> m2(''reply_by'' \<mapsto> json_of_string J r))"

lemma acc_to_json_fields: "holds_fields (acc_to_json J (Inr (json_null J)) a) (acc_fields a)"
  using holds_start
  by (cases "reply_with a"; cases "reply_by a") (auto simp: acc_to_json_def acc_fields_def Let_def intro!: holds_set)

lemma acc_fields_protocol: "acc_fields a ''protocol'' = Some (json_of_string J (protocol a))"
  by (cases "reply_with a"; cases "reply_by a") (simp_all add: acc_fields_def Let_def)

text \<open>What a new object gets back of a conversation: its protocol.\<close>

lemma get_acc_back:
  assumes "acc_to_json J (Inr (json_null J)) a = Inr j"
  shows "get_acc J j = Inr (default_acc\<lparr>protocol := protocol a\<rparr>)"
proof -
  have "acc_fields a \<noteq> Map.empty" using acc_fields_protocol [of a] by auto
  then have "fields j = Some (acc_fields a)"
    using holds_object [OF acc_to_json_fields [of a]] assms by auto
  then have "json_at J j ''protocol'' = Inr (json_of_string J (protocol a))"
    by (simp add: at_law acc_fields_protocol)
  then show ?thesis
    by (simp add: get_acc_def acc_from_json_def Let_def string_law default_acc_def)
qed

definition message_fields :: "message \<Rightarrow> string \<rightharpoonup> 'j" where
  "message_fields obj =
     [''type'' \<mapsto> json_of_enum J (message_code (msg_type obj)), ''sender'' \<mapsto> json_of_string J (sender obj),
      ''receivers'' \<mapsto> json_of_strings J (receivers obj), ''content'' \<mapsto> json_of_bytes J (content obj),
      ''ontology'' \<mapsto> json_of_string J (ontology obj)]"

lemma message_to_json_object:
  obtains j m where "message_to_json J (Inr (json_null J)) obj = Inr j" and "fields j = Some m"
    and "\<forall>k. k \<noteq> ''communication'' \<longrightarrow> m k = message_fields obj k"
    and "case communication obj of
        None \<Rightarrow> m ''communication'' = None
      | Some a \<Rightarrow> \<exists>v. m ''communication'' = Some v \<and> get_acc J v = Inr (default_acc\<lparr>protocol := protocol a\<rparr>)"
proof -
  let ?s = "set_field J ''ontology'' (json_of_string J (ontology obj))
               (set_field J ''content'' (json_of_bytes J (content obj))
               (set_field J ''receivers'' (json_of_strings J (receivers obj))
               (set_field J ''sender'' (json_of_string J (sender obj))
               (set_field J ''type'' (json_of_enum J (message_code (msg_type obj))) (Inr (json_null J))))))"
  have s: "holds_fields ?s (message_fields obj)"
    unfolding message_fields_def by (intro holds_set holds_start)
  have none: "message_fields obj ''communication'' = None" by (simp add: message_fields_def)
  show thesis
  proof (cases "communication obj")
    case None
    from s obtain j where "?s = Inr j" "fields j = Some (message_fields obj)"
      by (rule holds_object) (simp add: message_fields_def)
    with None none show ?thesis by (intro that [of j "message_fields obj"]) (simp_all add: message_to_json_def Let_def)
  next
    case (Some a)
    have "acc_fields a \<noteq> Map.empty" using acc_fields_protocol [of a] by auto
    then obtain v where v: "acc_to_json J (Inr (json_null J)) a = Inr v"
      using holds_object [OF acc_to_json_fields [of a]] by auto
    from holds_set [OF s, of "''communication''" v] obtain j where
      "set_field J ''communication'' v ?s = Inr j" "fields j = Some ((message_fields obj)(''communication'' \<mapsto> v))"
      by (rule holds_object) simp
    with Some v get_acc_back [OF v] show ?thesis
      by (intro that [of j "(message_fields obj)(''communication'' \<mapsto> v)"]) (simp_all add: message_to_json_def Let_def)
  qed
qed

text \<open>The members a message gets back in every case.\<close>

definition restored :: "message \<Rightarrow> message \<Rightarrow> message" where
  "restored obj into =
     into\<lparr>msg_type := msg_type obj, sender := sender obj, receivers := receivers obj,
          content := content obj, ontology := ontology obj\<rparr>"

lemma message_from_json_back:
  assumes code: "message_of_code (message_code (msg_type obj)) = msg_type obj" "message_code (msg_type obj) < 2 ^ 32"
    and j: "message_to_json J (Inr (json_null J)) obj = Inr j"
  shows "message_from_json J j into =
    (if communication into = None then (Inr (), restored obj into)
     else (case communication obj of
             None \<Rightarrow> (Inl (Json_Error 403), restored obj into)
           | Some a \<Rightarrow> (Inr (), (restored obj into)\<lparr>communication := Some (default_acc\<lparr>protocol := protocol a\<rparr>)\<rparr>)))"
proof -
  obtain j' m where j': "message_to_json J (Inr (json_null J)) obj = Inr j'"
    and f': "fields j' = Some m" and m: "\<forall>k. k \<noteq> ''communication'' \<longrightarrow> m k = message_fields obj k"
    and c: "case communication obj of
        None \<Rightarrow> m ''communication'' = None
      | Some a \<Rightarrow> \<exists>v. m ''communication'' = Some v \<and> get_acc J v = Inr (default_acc\<lparr>protocol := protocol a\<rparr>)"
    by (rule message_to_json_object)
  have f: "fields j = Some m" using j j' f' by simp
  have at: "json_at J j ''type'' = Inr (json_of_enum J (message_code (msg_type obj)))"
    "json_at J j ''sender'' = Inr (json_of_string J (sender obj))"
    "json_at J j ''receivers'' = Inr (json_of_strings J (receivers obj))"
    "json_at J j ''content'' = Inr (json_of_bytes J (content obj))"
    "json_at J j ''ontology'' = Inr (json_of_string J (ontology obj))"
    using m by (simp_all add: at_law [OF f] message_fields_def)
  have "case communication obj of
      None \<Rightarrow> json_at J j ''communication'' = Inl (Json_Error 403)
    | Some a \<Rightarrow> and_then (json_at J j ''communication'') (get_acc J) = Inr (default_acc\<lparr>protocol := protocol a\<rparr>)"
    using c by (cases "communication obj") (auto simp: at_law [OF f])
  then show ?thesis
    by (cases "communication obj")
      (auto simp: message_from_json_def Let_def at string_law strings_law bytes_law enum_law [OF code(2)] code(1)
         restored_def)
qed

end

end
