(* ===== verification/Json_Value.thy ===== *)
theory Json_Value
  imports Acl_Properties "HOL-Library.AList"
begin

text \<open>
  An instance of the JSON interface: JSON values as a datatype, with a self-delimiting binary form that
  stands for both CBOR and the text.
\<close>

datatype json_value =
    JNull
  | JString string
  | JNumber nat
  | JArray "json_value list"
  | JObject "(string \<times> json_value) list"

section \<open>The binary form\<close>

definition enc_nat :: "nat \<Rightarrow> 8 word list" where
  "enc_nat n = replicate n 1 @ [0]"

definition enc_string :: "string \<Rightarrow> 8 word list" where
  "enc_string s = enc_nat (length s) @ map (\<lambda>c. of_nat (of_char c)) s"

fun enc :: "json_value \<Rightarrow> 8 word list" where
  "enc JNull = [0]"
| "enc (JString s) = 1 # enc_string s"
| "enc (JNumber n) = 2 # enc_nat n"
| "enc (JArray vs) = 3 # enc_nat (length vs) @ concat (map enc vs)"
| "enc (JObject kvs) = 4 # enc_nat (length kvs) @ concat (map (\<lambda>(k, v). enc_string k @ enc v) kvs)"

fun dec_nat :: "8 word list \<Rightarrow> (nat \<times> 8 word list) option" where
  "dec_nat [] = None"
| "dec_nat (b # bs) = (if b = 0 then Some (0, bs) else map_option (\<lambda>(n, r). (Suc n, r)) (dec_nat bs))"

definition dec_string :: "8 word list \<Rightarrow> (string \<times> 8 word list) option" where
  "dec_string bs = map_option (\<lambda>(n, r). (map (\<lambda>b. char_of (unat b)) (take n r), drop n r)) (dec_nat bs)"

fun dec :: "nat \<Rightarrow> 8 word list \<Rightarrow> (json_value \<times> 8 word list) option"
  and dec_list :: "nat \<Rightarrow> nat \<Rightarrow> 8 word list \<Rightarrow> (json_value list \<times> 8 word list) option"
  and dec_members :: "nat \<Rightarrow> nat \<Rightarrow> 8 word list \<Rightarrow> ((string \<times> json_value) list \<times> 8 word list) option"
where
  "dec 0 bs = None"
| "dec (Suc f) [] = None"
| "dec (Suc f) (b # bs) =
     (if b = 0 then Some (JNull, bs)
      else if b = 1 then map_option (\<lambda>(s, r). (JString s, r)) (dec_string bs)
      else if b = 2 then map_option (\<lambda>(n, r). (JNumber n, r)) (dec_nat bs)
      else if b = 3 then
        (case dec_nat bs of None \<Rightarrow> None
         | Some (n, r) \<Rightarrow> map_option (\<lambda>(vs, r'). (JArray vs, r')) (dec_list f n r))
      else
        (case dec_nat bs of None \<Rightarrow> None
         | Some (n, r) \<Rightarrow> map_option (\<lambda>(kvs, r'). (JObject kvs, r')) (dec_members f n r)))"
| "dec_list f 0 bs = Some ([], bs)"
| "dec_list f (Suc n) bs =
     (case dec f bs of None \<Rightarrow> None
      | Some (v, r) \<Rightarrow> map_option (\<lambda>(vs, r'). (v # vs, r')) (dec_list f n r))"
| "dec_members f 0 bs = Some ([], bs)"
| "dec_members f (Suc n) bs =
     (case dec_string bs of None \<Rightarrow> None
      | Some (k, r) \<Rightarrow>
          (case dec f r of None \<Rightarrow> None
           | Some (v, r') \<Rightarrow> map_option (\<lambda>(kvs, r''). ((k, v) # kvs, r'')) (dec_members f n r')))"

lemma dec_enc_nat: "dec_nat (enc_nat n @ r) = Some (n, r)"
  by (induction n) (simp_all add: enc_nat_def)

lemma dec_enc_string: "dec_string (enc_string s @ r) = Some (s, r)"
proof -
  have "char_of (unat (of_nat (of_char c) :: 8 word)) = c" for c
    by (simp add: unat_of_nat)
  then show ?thesis
    by (simp add: dec_string_def enc_string_def dec_enc_nat comp_def)
qed

lemma dec_enc_list:
  assumes "\<And>v r. v \<in> set vs \<Longrightarrow> dec f (enc v @ r) = Some (v, r)"
  shows "dec_list f (length vs) (concat (map enc vs) @ r) = Some (vs, r)"
  using assms by (induction vs) simp_all

lemma dec_enc_members:
  assumes "\<And>k v r. (k, v) \<in> set kvs \<Longrightarrow> dec f (enc v @ r) = Some (v, r)"
  shows "dec_members f (length kvs) (concat (map (\<lambda>(k, v). enc_string k @ enc v) kvs) @ r) = Some (kvs, r)"
  using assms
proof (induction kvs)
  case (Cons kv kvs)
  obtain k v where kv: "kv = (k, v)" by (cases kv)
  have "dec f (enc v @ r') = Some (v, r')" for r' by (rule Cons.prems [of k]) (simp add: kv)
  moreover have "dec_members f (length kvs) (concat (map (\<lambda>(k, v). enc_string k @ enc v) kvs) @ r) = Some (kvs, r)"
    by (rule Cons.IH) (use Cons.prems in auto)
  ultimately show ?case by (simp add: kv dec_enc_string)
qed simp

lemma length_in_concat: "v \<in> set vs \<Longrightarrow> length (g v) \<le> length (concat (map g vs))"
  by (induction vs) auto

lemma dec_enc: "length (enc j) \<le> f \<Longrightarrow> dec f (enc j @ r) = Some (j, r)"
proof (induction j arbitrary: f r rule: enc.induct)
  case (4 vs)
  then obtain f' where f: "f = Suc f'" by (cases f) auto
  have "dec f' (enc v @ r) = Some (v, r)" if "v \<in> set vs" for v r
    using 4 that length_in_concat [OF that, of enc] by (simp add: f)
  then show ?case using dec_enc_list [of vs f' r] by (simp add: f dec_enc_nat)
next
  case (5 kvs)
  then obtain f' where f: "f = Suc f'" by (cases f) auto
  have "dec f' (enc v @ r) = Some (v, r)" if kv: "(k, v) \<in> set kvs" for k v r
    using 5 kv length_in_concat [OF kv, of "\<lambda>(k, v). enc_string k @ enc v"] by (simp add: f)
  then show ?case using dec_enc_members [of kvs f' r] by (simp add: f dec_enc_nat)
next
  case 1
  then show ?case by (cases f) simp_all
next
  case 2
  then show ?case by (cases f) (simp_all add: dec_enc_string)
next
  case 3
  then show ?case by (cases f) (simp_all add: dec_enc_nat)
qed

section \<open>The instance\<close>

definition value_fields :: "json_value \<Rightarrow> (string \<rightharpoonup> json_value) option" where
  "value_fields j = (case j of JObject kvs \<Rightarrow> Some (map_of kvs) | _ \<Rightarrow> None)"

definition value_set :: "json_value \<Rightarrow> string \<Rightarrow> json_value \<Rightarrow> json_value fallible" where
  "value_set j k v =
     (case j of
        JNull \<Rightarrow> Inr (JObject [(k, v)])
      | JObject kvs \<Rightarrow> Inr (JObject (AList.update k v kvs))
      | _ \<Rightarrow> Inl (Json_Error 305))"

definition value_at :: "json_value \<Rightarrow> string \<Rightarrow> json_value fallible" where
  "value_at j k =
     (case j of
        JObject kvs \<Rightarrow> (case map_of kvs k of None \<Rightarrow> Inl (Json_Error 403) | Some v \<Rightarrow> Inr v)
      | _ \<Rightarrow> Inl (Json_Error 304))"

fun value_string :: "json_value \<Rightarrow> string fallible" where
  "value_string (JString s) = Inr s"
| "value_string _ = Inl (Json_Error 302)"

fun value_number :: "json_value \<Rightarrow> nat fallible" where
  "value_number (JNumber n) = Inr (n mod 2 ^ 32)"
| "value_number _ = Inl (Json_Error 302)"

fun value_list :: "(json_value \<Rightarrow> 'a fallible) \<Rightarrow> json_value list \<Rightarrow> 'a list fallible" where
  "value_list get [] = Inr []"
| "value_list get (v # vs) = and_then (get v) (\<lambda>x. and_then (value_list get vs) (\<lambda>xs. Inr (x # xs)))"

definition value_array :: "(json_value \<Rightarrow> 'a fallible) \<Rightarrow> json_value \<Rightarrow> 'a list fallible" where
  "value_array get j = (case j of JArray vs \<Rightarrow> value_list get vs | _ \<Rightarrow> Inl (Json_Error 302))"

lemma value_list_back: "(\<And>x. get (put x) = Inr x) \<Longrightarrow> value_list get (map put xs) = Inr xs"
  by (induction xs) simp_all

definition value_of_bytes :: "8 word list \<Rightarrow> json_value fallible" where
  "value_of_bytes bs =
     (case dec (length bs) bs of Some (j, []) \<Rightarrow> Inr j | _ \<Rightarrow> Inl (Json_Error 110))"

lemma value_of_bytes_enc: "value_of_bytes (enc j) = Inr j"
  using dec_enc [of j "length (enc j)" "[]"] by (simp add: value_of_bytes_def)

definition json_values :: "json_value json_ops" where
  "json_values =
     \<lparr>json_null = JNull,
      json_is_null = (\<lambda>j. j = JNull),
      json_set = value_set,
      json_at = value_at,
      json_of_string = JString,
      json_get_string = value_string,
      json_of_strings = (\<lambda>ss. JArray (map JString ss)),
      json_get_strings = value_array value_string,
      json_of_bytes = (\<lambda>bs. JArray (map (\<lambda>b. JNumber (unat b)) bs)),
      json_get_bytes = value_array (\<lambda>j. and_then (value_number j) (\<lambda>n. Inr (word_of_nat n))),
      json_of_enum = JNumber,
      json_get_enum = value_number,
      json_to_cbor = enc,
      json_from_cbor = value_of_bytes,
      json_dump = (\<lambda>j. Inr (map (\<lambda>b. char_of (unat b)) (enc j))),
      json_parse = (\<lambda>t. value_of_bytes (map (\<lambda>c. of_nat (of_char c)) t))\<rparr>"

lemma byte_less: "unat (b :: 8 word) < 256"
  using unsigned_less [of b] by simp

interpretation json_values: json_library json_values value_fields
proof unfold_locales
  fix bs :: "8 word list"
  have "unat b mod 2 ^ 32 = unat b" for b :: "8 word"
    using byte_less [of b] by simp
  then show "json_get_bytes json_values (json_of_bytes json_values bs) = Inr bs"
    by (simp add: json_values_def value_array_def) (rule value_list_back, simp)
next
  fix j t assume "json_dump json_values j = Inr t"
  then show "json_parse json_values t = Inr j"
    by (auto simp: json_values_def comp_def byte_less value_of_bytes_enc)
qed (auto simp: json_values_def value_set_def value_fields_def value_at_def value_array_def value_list_back
      value_of_bytes_enc update_conv' split: option.splits json_value.splits)

end
