(* ===== verification/Acl_Messages.thy ===== *)
theory Acl_Messages
  imports Json_Value
begin

text \<open>The properties of messages that are serialised and read back.\<close>

definition valid_type :: "message_type \<Rightarrow> bool" where
  "valid_type ty \<longleftrightarrow> (case ty of Unnamed n \<Rightarrow> 20 \<le> n \<and> n < 2 ^ 32 | _ \<Rightarrow> True)"

lemma valid_type_code: "valid_type ty \<Longrightarrow> message_of_code (message_code ty) = ty \<and> message_code ty < 2 ^ 32"
  by (cases ty) (simp_all add: valid_type_def message_of_code_def enumerators_def)

definition example_acc :: acc where
  "example_acc = \<lparr>acc_identifier = 7, protocol = ''fipa'', reply_with = Some ''q1'', reply_by = None\<rparr>"

definition example_message :: message where
  "example_message =
     \<lparr>msg_type = Inform, sender = ''myself'', receivers = [''choco1'', ''choco2''],
      envelope = [''sent'' \<mapsto> ''now''], content = [1, 2, 255], ontology = ''race'', communication = Some example_acc\<rparr>"

lemma json_values_library: "json_library json_values value_fields"
  by (rule json_values.json_library_axioms)

lemma message_serialized:
  assumes "json_library J members"
  obtains j where "message_to_json J (Inr (json_null J)) m = Inr j"
  using json_library.message_to_json_object [OF assms, of m] by metis

text \<open>
  C14. Every message can be written as CBOR, and reading the bytes, the JSON text or the JSON value into a
  message without a conversation gives back the type, the sender, the receivers, the content and the
  ontology. The envelope and the conversation are not written or not read: the target keeps its own.
\<close>

theorem message_roundtrip:
  assumes "json_library J members" and "valid_type (msg_type m)" and "communication into = None"
  shows "\<exists>bs j. to_binary J m = Inr bs \<and> message_to_json J (Inr (json_null J)) m = Inr j \<and>
    deserialize J (Cbor bs) into =
      (Inr (), into\<lparr>msg_type := msg_type m, sender := sender m, receivers := receivers m,
                   content := content m, ontology := ontology m\<rparr>) \<and>
    deserialize J (Json j) into = deserialize J (Cbor bs) into \<and>
    (\<forall>t. to_json J m = Inr t \<longrightarrow> deserialize J (Text t) into = deserialize J (Cbor bs) into)"
proof -
  obtain j where j: "message_to_json J (Inr (json_null J)) m = Inr j" by (rule message_serialized [OF assms(1)])
  have "message_from_json J j into = (Inr (), json_library.restored m into)"
    using json_library.message_from_json_back [OF assms(1) _ _ j] valid_type_code [OF assms(2)] assms(3) by simp
  then show ?thesis
    using j json_library.cbor_law [OF assms(1)] json_library.text_law [OF assms(1)]
    by (simp add: to_binary_def to_json_def deserialize_def json_library.restored_def [OF assms(1)])
qed

theorem message_roundtrip_witness:
  "\<exists>bs. to_binary json_values example_message = Inr bs \<and>
     deserialize json_values (Cbor bs) default_message =
       (Inr (), example_message\<lparr>envelope := Map.empty, communication := None\<rparr>)"
proof -
  have "valid_type (msg_type example_message)" "communication default_message = None"
    by (simp_all add: valid_type_def example_message_def default_message_def)
  from message_roundtrip [OF json_values_library this]
  show ?thesis by (auto simp: example_message_def default_message_def)
qed

text \<open>
  C35. Reading into a message that has a conversation: if the text has one too, its protocol is
  restored and its number and its reply members are those of a new conversation, whatever was written;
  if not, an exception leaves the target with the five other members already replaced.
\<close>

theorem message_conversation_lost:
  assumes "json_library J members" and "valid_type (msg_type m)" and "communication into \<noteq> None"
    and "to_binary J m = Inr bs"
  shows "deserialize J (Cbor bs) into =
    (case communication m of
       None \<Rightarrow> (Inl (Json_Error 403),
          into\<lparr>msg_type := msg_type m, sender := sender m, receivers := receivers m,
               content := content m, ontology := ontology m\<rparr>)
     | Some a \<Rightarrow> (Inr (),
          into\<lparr>msg_type := msg_type m, sender := sender m, receivers := receivers m,
               content := content m, ontology := ontology m,
               communication := Some (default_acc\<lparr>protocol := protocol a\<rparr>)\<rparr>))"
proof -
  obtain j where j: "message_to_json J (Inr (json_null J)) m = Inr j" by (rule message_serialized [OF assms(1)])
  then have "bs = json_to_cbor J j" using assms(4) by (simp add: to_binary_def)
  then show ?thesis
    using json_library.message_from_json_back [OF assms(1) _ _ j, of into] valid_type_code [OF assms(2)] assms(3)
      json_library.cbor_law [OF assms(1)]
    by (cases "communication m")
      (simp_all add: deserialize_def json_library.restored_def [OF assms(1)])
qed

theorem message_conversation_lost_witness:
  "\<exists>bs. to_binary json_values example_message = Inr bs \<and>
     deserialize json_values (Cbor bs) (default_message\<lparr>communication := Some example_acc\<rparr>) =
       (Inr (), example_message\<lparr>envelope := Map.empty,
          communication := Some \<lparr>acc_identifier = 0, protocol = ''fipa'', reply_with = None, reply_by = None\<rparr>\<rparr>)"
proof -
  obtain j where "message_to_json json_values (Inr (json_null json_values)) example_message = Inr j"
    by (rule message_serialized [OF json_values_library])
  then have bs: "to_binary json_values example_message = Inr (json_to_cbor json_values j)"
    by (simp add: to_binary_def)
  have "valid_type (msg_type example_message)"
    "communication (default_message\<lparr>communication := Some example_acc\<rparr>) \<noteq> None"
    by (simp_all add: valid_type_def example_message_def)
  from message_conversation_lost [OF json_values_library this bs] bs
  show ?thesis by (auto simp: example_message_def default_message_def example_acc_def default_acc_def)
qed

text \<open>
  The serialiser of optionals writes null for a value and throws for none, so that what it writes is
  never read back as a value.
\<close>

theorem optional_serializer_inverted:
  assumes "json_library J members"
  shows "optional_to_json J conv (Some x) = Inr (json_null J) \<and>
    optional_to_json J conv None = Inl Bad_Optional_Access \<and>
    and_then (optional_to_json J conv (Some x)) (optional_from_json J get) = Inr None"
  using json_library.null_law [OF assms] by (simp add: optional_to_json_def optional_from_json_def)

theorem optional_serializer_inverted_witness:
  "and_then (optional_to_json json_values JString (Some ''q1'')) (optional_from_json json_values value_string) = Inr None"
  using optional_serializer_inverted [OF json_values_library, of JString "''q1''" value_string] by blast

text \<open>
  Every named message type is in a class; the types in more than one are the two actions that are
  also queries and the two that inform of errors, and a type without a name is in none.
\<close>

theorem message_classes:
  "(\<forall>ty\<in>set enumerators.
      is_negotiation ty \<or> is_action ty \<or> is_info_passing ty \<or> is_query ty \<or> is_error_handling ty) \<and>
   (\<forall>ty. is_action ty \<and> is_query ty \<longleftrightarrow> ty \<in> {Refuse, Query_Ref}) \<and>
   (\<forall>ty. is_info_passing ty \<and> is_error_handling ty \<longleftrightarrow> ty \<in> {Inform, Failure}) \<and>
   (\<forall>ty. is_negotiation ty \<longrightarrow> \<not> is_action ty \<and> \<not> is_info_passing ty \<and> \<not> is_query ty \<and> \<not> is_error_handling ty) \<and>
   (\<forall>n. \<not> is_negotiation (Unnamed n) \<and> \<not> is_action (Unnamed n) \<and> \<not> is_info_passing (Unnamed n) \<and>
      \<not> is_query (Unnamed n) \<and> \<not> is_error_handling (Unnamed n))"
  by (auto simp: enumerators_def is_negotiation_def is_action_def is_info_passing_def is_query_def
      is_error_handling_def)

theorem message_classes_witness: "is_query Query_Ref \<and> is_action Query_Ref \<and> \<not> is_query Cfp"
  using message_classes by (auto simp: is_negotiation_def)

end
