(* ===== verification/Fabl_Ir.thy ===== *)
theory Fabl_Ir
  imports Json_Value
begin

text \<open>
  \<open>fabko/compiler/frontend/ir\<close>: the intermediate representation of FABL, and the JSON forms of its two
  enumerations and of actor identifiers.
\<close>

section \<open>The data\<close>

datatype operator_exec = Op_INVALID | Op_ADD | Op_SUBTRACT | Op_MULTIPLY | Op_DIVIDE | Op_MODULO

datatype constraint_operation =
    C_INVALID | C_EQUAL | C_DIFFERENT | C_GREATER_THAN | C_LESS_THAN | C_GREATER_THAN_OR_EQUAL
  | C_LESS_THAN_OR_EQUAL

record source_loc =
  loc_line :: nat
  source_name :: string

record actor_id =
  actor_name :: string

record resource =
  resource_name :: string
  resource_loc :: source_loc

text \<open>The expression of the source has no members.\<close>

datatype expression = Expression

record state_var =
  var_actor :: actor_id
  var_rsc :: resource

record constraint =
  constraint_lhs :: expression
  constraint_op :: constraint_operation
  constraint_rhs :: expression
  constraint_loc :: source_loc

record effect =
  effect_lhs :: state_var
  effect_op :: operator_exec
  effect_rhs :: state_var
  effect_loc :: source_loc

record capability =
  capability_name :: string
  capability_actor :: actor_id
  capability_target :: actor_id
  preconditions :: "constraint list"
  effects :: "effect list"
  capability_loc :: source_loc

datatype opti_type = MINIMIZE | MAXIMIZE

record optimization =
  opti_type :: opti_type
  opti_rsc :: resource

record ir_request =
  request_actor :: actor_id
  request_rsc :: "resource list"
  request_opti :: optimization
  request_loc :: source_loc

record ir_program =
  program_actors :: "actor_id list"
  program_resources :: "resource list"
  program_capabilities :: "capability list"
  program_req :: ir_request

section \<open>JSON forms\<close>

text \<open>
  \<open>NLOHMANN_JSON_SERIALIZE_ENUM\<close>: the pairs are searched in order, and the first pair stands for what
  is not found, in both directions.
\<close>

definition enum_to_json :: "'j json_ops \<Rightarrow> ('e \<times> string) list \<Rightarrow> 'e \<Rightarrow> 'j" where
  "enum_to_json J m e =
     json_of_string J (case find (\<lambda>p. fst p = e) m of Some p \<Rightarrow> snd p | None \<Rightarrow> snd (hd m))"

definition enum_from_json :: "'j json_ops \<Rightarrow> ('e \<times> string) list \<Rightarrow> 'j \<Rightarrow> 'e" where
  "enum_from_json J m j =
     (case find (\<lambda>p. json_get_string J j = Inr (snd p)) m of Some p \<Rightarrow> fst p | None \<Rightarrow> fst (hd m))"

definition operator_exec_table :: "(operator_exec \<times> string) list" where
  "operator_exec_table =
     [(Op_ADD, ''add''), (Op_SUBTRACT, ''substract''), (Op_DIVIDE, ''divide''), (Op_MODULO, ''modulo''),
      (Op_MULTIPLY, ''multitply'')]"

definition constraint_operation_table :: "(constraint_operation \<times> string) list" where
  "constraint_operation_table =
     [(C_EQUAL, ''equal''), (C_GREATER_THAN, ''greater than''),
      (C_GREATER_THAN_OR_EQUAL, ''greater or equal than''), (C_LESS_THAN, ''less than''),
      (C_LESS_THAN_OR_EQUAL, ''less or equal than'')]"

definition actor_id_to_json :: "'j json_ops \<Rightarrow> 'j fallible \<Rightarrow> actor_id \<Rightarrow> 'j fallible" where
  "actor_id_to_json J ser obj = set_field J ''name_'' (json_of_string J (actor_name obj)) ser"

definition actor_id_from_json :: "'j json_ops \<Rightarrow> 'j \<Rightarrow> actor_id \<Rightarrow> unit fallible \<times> actor_id" where
  "actor_id_from_json J ser obj =
     fill (\<lambda>_. and_then (json_at J ser ''name_'') (json_get_string J)) (\<lambda>x o'. o'\<lparr>actor_name := x\<rparr>) (Inr (), obj)"

section \<open>Round trips\<close>

definition enum_roundtrip :: "'j json_ops \<Rightarrow> ('e \<times> string) list \<Rightarrow> 'e \<Rightarrow> 'e" where
  "enum_roundtrip J m e = enum_from_json J m (enum_to_json J m e)"

lemma find_pair:
  "distinct (map snd m) \<Longrightarrow> (e, s) \<in> set m \<Longrightarrow> find (\<lambda>p. s = snd p) m = Some (e, s)"
  by (induction m) (auto simp: rev_image_eqI)

text \<open>
  A table without repeated texts gives an enumerator it lists back, and the first one for the others.
\<close>

lemma enum_roundtrip_table:
  assumes J: "json_library J members" and m: "m \<noteq> []" "distinct (map snd m)"
  shows "enum_roundtrip J m e = (if e \<in> fst ` set m then e else fst (hd m))"
proof -
  have restores: "enum_from_json J m (json_of_string J s) = d" if "(d, s) \<in> set m" for d s
    using find_pair [OF m(2) that] by (simp add: enum_from_json_def json_library.string_law [OF J])
  show ?thesis
  proof (cases "find (\<lambda>p. fst p = e) m")
    case None
    then have "e \<notin> fst ` set m" by (auto simp: find_None_iff)
    moreover have "(fst (hd m), snd (hd m)) \<in> set m" using m(1) by simp
    ultimately show ?thesis using None restores by (simp add: enum_roundtrip_def enum_to_json_def)
  next
    case (Some p)
    then have "p \<in> set m" "fst p = e" by (auto simp: find_Some_iff)
    then have "(e, snd p) \<in> set m" by auto
    then show ?thesis using Some restores [of e "snd p"] by (auto simp: enum_roundtrip_def enum_to_json_def image_iff)
  qed
qed

lemma actor_id_roundtrip:
  assumes "json_library J members"
  shows "\<exists>j. actor_id_to_json J (Inr (json_null J)) a = Inr j \<and> actor_id_from_json J j b = (Inr (), a)"
proof -
  obtain j where "json_set J (json_null J) ''name_'' (json_of_string J (actor_name a)) = Inr j"
    and "members j = Some [''name_'' \<mapsto> json_of_string J (actor_name a)]"
    using json_library.set_null_law [OF assms] by blast
  then show ?thesis
    using json_library.at_law [OF assms, of j] json_library.string_law [OF assms]
    by (intro exI [of _ j]) (simp add: actor_id_to_json_def set_field_def actor_id_from_json_def)
qed

text \<open>
  The operators of effects survive the JSON form, except the invalid one, which comes back as an
  addition; of the comparisons, \<open>different\<close> and the invalid one come back as \<open>equal\<close>: a constraint that
  demands a difference is read back as one that demands equality. Actor identifiers come back.
\<close>

theorem ir_enums_roundtrip:
  assumes "json_library J members"
  shows "enum_roundtrip J operator_exec_table e = (if e = Op_INVALID then Op_ADD else e) \<and>
    enum_roundtrip J constraint_operation_table c =
      (if c = C_DIFFERENT \<or> c = C_INVALID then C_EQUAL else c) \<and>
    (\<exists>j. actor_id_to_json J (Inr (json_null J)) a = Inr j \<and> actor_id_from_json J j b = (Inr (), a))"
proof -
  have "distinct (map snd operator_exec_table)" "operator_exec_table \<noteq> []"
    "distinct (map snd constraint_operation_table)" "constraint_operation_table \<noteq> []"
    by (simp_all add: operator_exec_table_def constraint_operation_table_def)
  note t = this enum_roundtrip_table [OF assms]
  show ?thesis
  proof (intro conjI)
    show "enum_roundtrip J operator_exec_table e = (if e = Op_INVALID then Op_ADD else e)"
      using t(1,2) t(5) [of operator_exec_table e] by (cases e) (simp_all add: operator_exec_table_def)
    show "enum_roundtrip J constraint_operation_table c = (if c = C_DIFFERENT \<or> c = C_INVALID then C_EQUAL else c)"
      using t(3,4) t(5) [of constraint_operation_table c] by (cases c) (simp_all add: constraint_operation_table_def)
  qed (rule actor_id_roundtrip [OF assms])
qed

theorem ir_enums_roundtrip_witness:
  "enum_roundtrip json_values constraint_operation_table C_DIFFERENT = C_EQUAL \<and>
   enum_roundtrip json_values operator_exec_table Op_MODULO = Op_MODULO"
  using ir_enums_roundtrip [OF json_values.json_library_axioms, of Op_MODULO C_DIFFERENT] by simp

end
