(* ===== verification/Fabl_Cst.thy ===== *)
theory Fabl_Cst
  imports Fabl_Ir
begin

text \<open>
  \<open>fabko/compiler/frontend/parser/concrete_ast.hh\<close>: the concrete syntax tree of FABL. The syntax tree
  nodes of the parser library carry an operator and two operands, each nothing, a node, a number, an
  identifier or one of the leaves the source names, as the parser's tests use them.
\<close>

section \<open>Literals, operators and attributes\<close>

type_synonym cst_identifier = string
type_synonym literal_integer = "32 word"

record literal_string =
  string_value :: string

record literal_bool =
  bool_value :: bool

datatype cst_operator_exec = X_NONE | X_ADD | X_SUBTRACT | X_MULTIPLY | X_DIVIDE | X_MODULO

datatype compare_operator =
    Cmp_INVALID | Cmp_GREATER | Cmp_GREATER_EQUAL | Cmp_LESS | Cmp_LESS_EQUAL | Cmp_EQUAL | Cmp_DIFFERENT

datatype visibility = PRIVATE | PUBLIC
datatype compile_status = DEFINED | DECLARED
datatype compile_unit_type = FILE | RAW
datatype mutability = CONSTANT | MUTABLE | MUTABLE_IN_SCOPE

record resources_hardcoded =
  hardcoded_rsc :: resource

record actor_accessor =
  accessor_actor :: string
  accessor_access :: "string option"

text \<open>The conversions of operator tokens.\<close>

definition compare_of_token :: "string \<Rightarrow> compare_operator" where
  "compare_of_token token =
     (if token = ''=='' then Cmp_EQUAL
      else if token = ''!='' then Cmp_DIFFERENT
      else if token = ''>'' then Cmp_GREATER
      else if token = ''>='' then Cmp_GREATER_EQUAL
      else if token = ''<'' then Cmp_LESS
      else if token = ''<='' then Cmp_LESS_EQUAL
      else Cmp_INVALID)"

definition operator_of_token :: "string \<Rightarrow> cst_operator_exec" where
  "operator_of_token token =
     (if token = ''+'' then X_ADD
      else if token = ''-'' then X_SUBTRACT
      else if token = ''*'' then X_MULTIPLY
      else if token = ''/'' then X_DIVIDE
      else if token = ''%'' then X_MODULO
      else X_NONE)"

section \<open>Nodes\<close>

datatype ('op, 'leaf) ast_node =
  Ast_Node (node_value : 'op) (node_lhs : "('op, 'leaf) ast_operand") (node_rhs : "('op, 'leaf) ast_operand")
and ('op, 'leaf) ast_operand =
    No_Operand
  | Sub_Node "('op, 'leaf) ast_node"
  | Integer_Operand literal_integer
  | Identifier_Operand cst_identifier
  | Leaf_Operand 'leaf

datatype expression_leaf = Bool_Leaf literal_bool | Accessor_Leaf actor_accessor

type_synonym precondition_ast_node = "(compare_operator, actor_accessor) ast_node"
type_synonym expression_node = "(cst_operator_exec, expression_leaf) ast_node"

section \<open>Statements and programs\<close>

record 'a named_lit =
  lit_name :: string
  lit_val :: 'a

record assignment_statement =
  assignment_lhs :: actor_accessor
  assignment_rhs :: expression_node

record outcomes =
  assignments :: "assignment_statement list"

record prerequisites_conjunction =
  conditions :: "precondition_ast_node list"

record cst_capability =
  cap_name :: string
  cap_pre :: prerequisites_conjunction
  cap_post :: outcomes

record capability_identifier =
  cap_id :: cst_identifier

record has_statement =
  has_id :: cst_identifier
  has_quantity :: "32 word"

datatype data_type =
    Null_Type
  | Custom_Data_Type (custom_name : string) (custom_content : "data_type list")
  | Has_Statement has_statement
  | Capability cst_capability
  | Capability_Identifier capability_identifier
  | Literal_Integer literal_integer
  | Literal_String literal_string
  | Literal_Bool literal_bool
  | Named_Bool "literal_bool named_lit"
  | Named_Integer "literal_integer named_lit"
  | Named_String "literal_string named_lit"

record compile_unit_id =
  unit_id_name :: string

record metadata_info =
  info_unit :: compile_unit_id
  info_type :: compile_unit_type
  line_definition :: nat

record symbol =
  symbol_identifier :: cst_identifier
  symbol_status :: compile_status
  symbol_mutability :: mutability
  symbol_visibility :: visibility
  symbol_metadata :: metadata_info
  symbol_type :: "data_type option"  \<comment> \<open>a unique pointer, which may be null\<close>

type_synonym symbol_table = "symbol list"
type_synonym fabl_program = "(compile_unit_id \<times> symbol_table) list"

section \<open>Operators and their tokens\<close>

definition compare_tokens :: "string list" where
  "compare_tokens = [''=='', ''!='', ''>'', ''>='', ''<'', ''<='']"

definition operator_tokens :: "string list" where
  "operator_tokens = [''+'', ''-'', ''*'', ''/'', ''%'']"

lemma compare_of_token_bij: "bij_betw compare_of_token (set compare_tokens) (UNIV - {Cmp_INVALID})"
  and compare_of_other: "t \<notin> set compare_tokens \<Longrightarrow> compare_of_token t = Cmp_INVALID"
proof -
  have "c \<in> compare_of_token ` set compare_tokens" if "c \<noteq> Cmp_INVALID" for c
    using that by (cases c) (auto simp: compare_tokens_def compare_of_token_def)
  then show "bij_betw compare_of_token (set compare_tokens) (UNIV - {Cmp_INVALID})"
    by (auto simp: bij_betw_def inj_on_def compare_tokens_def compare_of_token_def)
  show "t \<notin> set compare_tokens \<Longrightarrow> compare_of_token t = Cmp_INVALID"
    by (simp add: compare_tokens_def compare_of_token_def)
qed

lemma operator_of_token_bij: "bij_betw operator_of_token (set operator_tokens) (UNIV - {X_NONE})"
  and operator_of_other: "t \<notin> set operator_tokens \<Longrightarrow> operator_of_token t = X_NONE"
proof -
  have "c \<in> operator_of_token ` set operator_tokens" if "c \<noteq> X_NONE" for c
    using that by (cases c) (auto simp: operator_tokens_def operator_of_token_def)
  then show "bij_betw operator_of_token (set operator_tokens) (UNIV - {X_NONE})"
    by (auto simp: bij_betw_def inj_on_def operator_tokens_def operator_of_token_def)
  show "t \<notin> set operator_tokens \<Longrightarrow> operator_of_token t = X_NONE"
    by (simp add: operator_tokens_def operator_of_token_def)
qed

end
