(* ===== verification/Fabl_Grammar.thy ===== *)
theory Fabl_Grammar
  imports Fabko_Exception "HOL-Library.Sublist"
begin

text \<open>
  \<open>fabko/compiler/frontend/parser/fabl_grammar.hh\<close>: the grammar of FABL. In the source a grammar is a
  type built from the combinators of the parser library; here it is a value of \<open>rule\<close>, built from the
  same combinators in the same order, one definition for each structure of the source, with the
  actions that say where the result of a rule goes. What the combinators do is \<open>Fabl_Parser\<close>.
\<close>

section \<open>Rules\<close>

datatype action =
    No_Action
  | Member string             \<comment> \<open>\<open>member<&ast_object::m>\<close>\<close>
  | As_Leaf                   \<comment> \<open>\<open>ast_object::leaf\<close>\<close>
  | As_Operand                \<comment> \<open>\<open>ast_object::operand\<close>\<close>
  | Callback_Bool bool        \<comment> \<open>a callback that yields a Boolean literal\<close>
  | Callback_Passthrough
  | Callback_Capability_Identifier

datatype grammar_name =
    Bool_Literal | Member_Accessor | Strict_Member_Accessor
  | Expr | Level_2 | Level_1 | Base
  | Condition | Precondition | Capability_Pre
  | Assignment | Capability_Post | Capability_Definition
  | Actor_Can | Actor_Has | Actor_Definition | Fabl

datatype rule =
    Match_String string action
  | Match_Char char
  | Match_Point
  | Semicol
  | Match_Identifier action
  | Match_Number action
  | Then rule rule
  | Or rule rule
  | May rule
  | List_Rule rule
  | Parenthesised rule
  | Bracketed rule
  | Match_Parser grammar_name action
  | Match_Production grammar_name action

datatype sink = Aggregator | Ast_Tree_Generator nat

section \<open>Keywords\<close>

definition match_actor :: rule where "match_actor = Match_String ''actor'' No_Action"
definition match_can :: rule where "match_can = Match_String ''can'' No_Action"
definition match_has :: rule where "match_has = Match_String ''has'' No_Action"
definition match_capability :: rule where "match_capability = Match_String ''capability'' No_Action"
definition match_pre :: rule where "match_pre = Match_String ''pre'' No_Action"
definition match_post :: rule where "match_post = Match_String ''post'' No_Action"

definition match_any_keyword :: rule where
  "match_any_keyword =
     Or (Or (Or (Or (Or match_actor match_can) match_capability) match_has) match_pre) match_post"

lemmas keyword_defs = match_actor_def match_can_def match_has_def match_capability_def match_pre_def
  match_post_def

section \<open>Expressions\<close>

definition bool_literal_rules :: rule where
  "bool_literal_rules =
     Or (Match_String ''true'' (Callback_Bool True)) (Match_String ''false'' (Callback_Bool False))"

definition member_accessor_rules :: rule where
  "member_accessor_rules =
     Then (Match_Identifier (Member ''actor'')) (May (Then Match_Point (Match_Identifier (Member ''access''))))"

definition strict_member_accessor_rules :: rule where
  "strict_member_accessor_rules =
     Then (Then (Match_Identifier (Member ''actor'')) Match_Point) (Match_Identifier (Member ''access''))"

definition level_2_rules :: rule where
  "level_2_rules = Or (Match_String ''*'' As_Operand) (Match_String ''/'' As_Operand)"

definition level_1_rules :: rule where
  "level_1_rules = Or (Match_String ''+'' As_Operand) (Match_String ''-'' As_Operand)"

definition expression_rules :: rule where
  "expression_rules =
     List_Rule (Or (Or (Match_Parser Base No_Action) (Match_Parser Level_1 No_Action))
                   (Match_Parser Level_2 No_Action))"

definition base_rules :: rule where
  "base_rules =
     Or (Or (Or (Or (Match_Number As_Leaf)
                    (Match_Production Bool_Literal As_Leaf))
                (Match_Production Strict_Member_Accessor As_Leaf))
            (Match_Identifier As_Leaf))
        (Parenthesised (Match_Production Expr As_Leaf))"

section \<open>Capabilities\<close>

definition condition_rules :: rule where
  "condition_rules =
     Or (Or (Or (Or (Or (Match_String ''>='' As_Operand) (Match_String ''>'' As_Operand))
                    (Match_String ''<='' As_Operand))
                (Match_String ''<'' As_Operand))
            (Match_String ''=='' As_Operand))
        (Match_String ''!='' As_Operand)"

definition precondition_rules :: rule where
  "precondition_rules =
     Then (Then (Then (Match_Production Member_Accessor As_Leaf) (Match_Parser Condition No_Action))
                (Match_Number As_Leaf))
          Semicol"

definition capability_pre_rules :: rule where
  "capability_pre_rules =
     Then match_pre (Bracketed (List_Rule (Match_Production Precondition (Member ''conditions''))))"

definition assignment_rules :: rule where
  "assignment_rules =
     Then (Then (Then (Match_Parser Member_Accessor (Member ''lhs'')) (Match_Char CHR ''=''))
                (Match_Production Expr (Member ''rhs'')))
          Semicol"

definition capability_post_rules :: rule where
  "capability_post_rules =
     Then match_post (Bracketed (List_Rule (Match_Parser Assignment (Member ''assignments''))))"

definition capability_definition_rules :: rule where
  "capability_definition_rules =
     Then (Then (Then match_capability (Match_Identifier (Member ''name'')))
                (Bracketed (Then (Match_Parser Capability_Pre (Member ''pre''))
                                 (Match_Parser Capability_Post (Member ''post'')))))
          Semicol"

section \<open>Actors and programs\<close>

definition actor_can_rules :: rule where
  "actor_can_rules =
     Then match_can
       (Or (Match_Production Capability_Definition Callback_Passthrough)
           (Then (Match_Identifier Callback_Capability_Identifier) Semicol))"

definition actor_has_rules :: rule where
  "actor_has_rules =
     Then (Then (Then match_has (Match_Number (Member ''quantity''))) (Match_Identifier (Member ''id''))) Semicol"

definition actor_definition_rules :: rule where
  "actor_definition_rules =
     Then (Then (Then match_actor (Match_Identifier (Member ''name'')))
                (Bracketed (List_Rule (Or (Match_Parser Actor_Has (Member ''content''))
                                          (Match_Parser Actor_Can (Member ''content''))))))
          Semicol"

definition fabl_rules :: rule where
  "fabl_rules =
     List_Rule (Or (Match_Parser Actor_Definition (Member ''actors''))
                   (Match_Parser Capability_Definition (Member ''capabilities'')))"

fun rules :: "grammar_name \<Rightarrow> rule" where
  "rules Bool_Literal = bool_literal_rules"
| "rules Member_Accessor = member_accessor_rules"
| "rules Strict_Member_Accessor = strict_member_accessor_rules"
| "rules Expr = expression_rules"
| "rules Level_2 = level_2_rules"
| "rules Level_1 = level_1_rules"
| "rules Base = base_rules"
| "rules Condition = condition_rules"
| "rules Precondition = precondition_rules"
| "rules Capability_Pre = capability_pre_rules"
| "rules Assignment = assignment_rules"
| "rules Capability_Post = capability_post_rules"
| "rules Capability_Definition = capability_definition_rules"
| "rules Actor_Can = actor_can_rules"
| "rules Actor_Has = actor_has_rules"
| "rules Actor_Definition = actor_definition_rules"
| "rules Fabl = fabl_rules"

text \<open>The sinks the results of a grammar are collected with; the number is the precedence.\<close>

fun convertor :: "grammar_name \<Rightarrow> sink" where
  "convertor Level_2 = Ast_Tree_Generator 2"
| "convertor Level_1 = Ast_Tree_Generator 1"
| "convertor Base = Ast_Tree_Generator 0"
| "convertor Expr = Ast_Tree_Generator 0"
| "convertor Condition = Ast_Tree_Generator 1"
| "convertor Precondition = Ast_Tree_Generator 0"
| "convertor _ = Aggregator"

lemmas grammar_defs = bool_literal_rules_def member_accessor_rules_def strict_member_accessor_rules_def
  level_2_rules_def level_1_rules_def expression_rules_def base_rules_def condition_rules_def
  precondition_rules_def capability_pre_rules_def assignment_rules_def capability_post_rules_def
  capability_definition_rules_def actor_can_rules_def actor_has_rules_def actor_definition_rules_def
  fabl_rules_def

end
