(* ===== verification/Fabl_Parser.thy ===== *)
theory Fabl_Parser
  imports Fabl_Grammar
begin

text \<open>
  What the parser library promises of its combinators, as a locale over a function \<open>run\<close>: from a rule
  and a text to the rest of the text after a match, \<open>None\<close> inside if the rule does not match, \<open>None\<close>
  outside if the parser does not return. The laws leave open what the parser's tests do not show, such
  as words that run into letters or signs before digits. They say when the rule of a grammar matches; that
  the sink of a grammar takes what its rule matched is part of \<open>parser_law\<close> and \<open>production_law\<close>, which
  the tests exercise on well-formed programs only: nothing is claimed of texts outside the language.
  Then: the parser returns on every text.
\<close>

section \<open>Text\<close>

definition ident_char :: "char \<Rightarrow> bool" where
  "ident_char c \<longleftrightarrow> is_digit c \<or> c = CHR ''_'' \<or>
     (65 \<le> (of_char c :: nat) \<and> (of_char c :: nat) \<le> 90) \<or> (97 \<le> (of_char c :: nat) \<and> (of_char c :: nat) \<le> 122)"

definition is_identifier :: "string \<Rightarrow> bool" where
  "is_identifier x \<longleftrightarrow> x \<noteq> [] \<and> \<not> is_digit (hd x) \<and> (\<forall>c\<in>set x. ident_char c)"

text \<open>The text goes on with something that is not part of a word.\<close>

definition word_ends :: "string \<Rightarrow> bool" where
  "word_ends r \<longleftrightarrow> r = [] \<or> \<not> ident_char (hd r)"

definition visible :: "string \<Rightarrow> bool" where
  "visible s \<longleftrightarrow> s \<noteq> [] \<and> \<not> is_space (hd s) \<and> \<not> prefix ''//'' s \<and> \<not> prefix ''/*'' s"

text \<open>What an outcome is followed by: a rule after a match, another rule after a failure.\<close>

definition after_match :: "string option option \<Rightarrow> (string \<Rightarrow> string option option) \<Rightarrow> string option option" where
  "after_match out f = Option.bind out (\<lambda>r. case r of None \<Rightarrow> Some None | Some t \<Rightarrow> f t)"

definition after_failure :: "string option option \<Rightarrow> string option option \<Rightarrow> string option option" where
  "after_failure out other = Option.bind out (\<lambda>r. case r of None \<Rightarrow> other | Some t \<Rightarrow> Some (Some t))"

definition again_or_stop ::
    "string option option \<Rightarrow> string \<Rightarrow> (string \<Rightarrow> string option option) \<Rightarrow> string option option" where
  "again_or_stop out s again = Option.bind out (\<lambda>r. case r of None \<Rightarrow> Some (Some s) | Some t \<Rightarrow> again t)"

lemma after_match_simps [simp]:
  "after_match None f = None" "after_match (Some None) f = Some None" "after_match (Some (Some t)) f = f t"
  by (simp_all add: after_match_def)

lemma after_failure_simps [simp]:
  "after_failure None other = None" "after_failure (Some None) other = other"
  "after_failure (Some (Some t)) other = Some (Some t)"
  by (simp_all add: after_failure_def)

lemma again_or_stop_simps [simp]:
  "again_or_stop None s again = None" "again_or_stop (Some None) s again = Some (Some s)"
  "again_or_stop (Some (Some t)) s again = again t"
  by (simp_all add: again_or_stop_def)

fun is_token :: "rule \<Rightarrow> bool" where
  "is_token (Match_String w a) \<longleftrightarrow> w \<noteq> []"
| "is_token (Match_Char c) \<longleftrightarrow> True"
| "is_token Match_Point \<longleftrightarrow> True"
| "is_token Semicol \<longleftrightarrow> True"
| "is_token (Match_Identifier a) \<longleftrightarrow> True"
| "is_token (Match_Number a) \<longleftrightarrow> True"
| "is_token _ \<longleftrightarrow> False"

section \<open>The promises of the combinators\<close>

locale copa =
  fixes run :: "rule \<Rightarrow> string \<Rightarrow> string option option"
    and skip :: "string \<Rightarrow> string"
  assumes skip_space: "skip (CHR '' '' # s) = skip s"
    and skip_visible: "visible s \<Longrightarrow> skip s = s"
    and skip_empty: "skip [] = []"
    and token_returns: "is_token tok \<Longrightarrow> \<exists>out. run tok s = Some out"
    and token_consumes: "is_token tok \<Longrightarrow> run tok s = Some (Some t) \<Longrightarrow> length t < length s"
    and string_matches: "skip s = w @ t \<Longrightarrow> word_ends t \<or> \<not> ident_char (last w) \<Longrightarrow>
      run (Match_String w a) s = Some (Some t)"
    and string_fails: "\<not> prefix w (skip s) \<Longrightarrow> run (Match_String w a) s = Some None"
    and char_law: "run (Match_Char c) s =
      Some (case skip s of [] \<Rightarrow> None | d # t \<Rightarrow> if d = c then Some t else None)"
    and point_law: "run Match_Point s = run (Match_Char CHR ''.'') s"
    and semicol_law: "run Semicol s = run (Match_Char CHR '';'') s"
    and identifier_matches: "skip s = x @ t \<Longrightarrow> is_identifier x \<Longrightarrow> word_ends t \<Longrightarrow>
      run (Match_Identifier a) s = Some (Some t)"
    and identifier_fails: "skip s = [] \<or> \<not> ident_char (hd (skip s)) \<Longrightarrow> run (Match_Identifier a) s = Some None"
    and number_matches: "skip s = string_of_nat k @ t \<Longrightarrow> k < 2 ^ 31 \<Longrightarrow> word_ends t \<Longrightarrow>
      t = [] \<or> hd t \<noteq> CHR ''.'' \<Longrightarrow> run (Match_Number a) s = Some (Some t)"
    and number_fails: "skip s = [] \<or>
        (\<not> is_digit (hd (skip s)) \<and>
         (hd (skip s) \<in> {CHR ''+'', CHR ''-'', CHR ''.''} \<longrightarrow> (\<exists>t. tl (skip s) = CHR '' '' # t))) \<Longrightarrow>
      run (Match_Number a) s = Some None"
    and then_law: "run (Then r1 r2) s = after_match (run r1 s) (run r2)"
    and or_law: "run (Or r1 r2) s = after_failure (run r1 s) (run r2 s)"
    and may_law: "run (May r1) s = after_failure (run r1 s) (Some (Some s))"
    and list_law: "run (List_Rule r1) s = again_or_stop (run r1 s) s (run (List_Rule r1))"
    and parenthesised_law: "run (Parenthesised r1) s =
      run (Then (Match_Char CHR ''('') (Then r1 (Match_Char CHR '')''))) s"
    and bracketed_law: "run (Bracketed r1) s =
      run (Then (Match_Char CHR ''{'') (Then r1 (Match_Char CHR ''}''))) s"
    and parser_law: "run (Match_Parser n a) s = run (rules n) s"
    and production_law: "run (Match_Production n a) s = run (rules n) s"

section \<open>A parser with these combinators\<close>

definition lex_char :: "char \<Rightarrow> string \<Rightarrow> string option" where
  "lex_char c s = (case skip_ws s of [] \<Rightarrow> None | d # r \<Rightarrow> if d = c then Some r else None)"

definition lex_string :: "string \<Rightarrow> string \<Rightarrow> string option" where
  "lex_string w s = (if prefix w (skip_ws s) then Some (drop (length w) (skip_ws s)) else None)"

definition lex_identifier :: "string \<Rightarrow> string option" where
  "lex_identifier s =
     (let t = skip_ws s
      in if t = [] \<or> is_digit (hd t) \<or> \<not> ident_char (hd t) then None else Some (dropWhile ident_char t))"

definition lex_number :: "string \<Rightarrow> string option" where
  "lex_number s =
     (let t = skip_ws s in if t = [] \<or> \<not> is_digit (hd t) then None else Some (dropWhile is_digit t))"

partial_function (option) peg :: "rule \<Rightarrow> string \<Rightarrow> string option option" where
  "peg r s =
     (case r of
        Match_String w a \<Rightarrow> Some (lex_string w s)
      | Match_Char c \<Rightarrow> Some (lex_char c s)
      | Match_Point \<Rightarrow> Some (lex_char CHR ''.'' s)
      | Semicol \<Rightarrow> Some (lex_char CHR '';'' s)
      | Match_Identifier a \<Rightarrow> Some (lex_identifier s)
      | Match_Number a \<Rightarrow> Some (lex_number s)
      | Then r1 r2 \<Rightarrow>
          Option.bind (peg r1 s) (\<lambda>o1. case o1 of None \<Rightarrow> Some None | Some t \<Rightarrow> peg r2 t)
      | Or r1 r2 \<Rightarrow>
          Option.bind (peg r1 s) (\<lambda>o1. case o1 of None \<Rightarrow> peg r2 s | Some t \<Rightarrow> Some (Some t))
      | May r1 \<Rightarrow>
          Option.bind (peg r1 s) (\<lambda>o1. case o1 of None \<Rightarrow> Some (Some s) | Some t \<Rightarrow> Some (Some t))
      | List_Rule r1 \<Rightarrow>
          Option.bind (peg r1 s) (\<lambda>o1. case o1 of None \<Rightarrow> Some (Some s) | Some t \<Rightarrow> peg (List_Rule r1) t)
      | Parenthesised r1 \<Rightarrow> peg (Then (Match_Char CHR ''('') (Then r1 (Match_Char CHR '')''))) s
      | Bracketed r1 \<Rightarrow> peg (Then (Match_Char CHR ''{'') (Then r1 (Match_Char CHR ''}''))) s
      | Match_Parser n a \<Rightarrow> peg (rules n) s
      | Match_Production n a \<Rightarrow> peg (rules n) s)"

declare peg.simps [code]

lemma peg_rules:
  "peg (Match_String w a) s = Some (lex_string w s)"
  "peg (Match_Char c) s = Some (lex_char c s)"
  "peg Match_Point s = Some (lex_char CHR ''.'' s)"
  "peg Semicol s = Some (lex_char CHR '';'' s)"
  "peg (Match_Identifier a) s = Some (lex_identifier s)"
  "peg (Match_Number a) s = Some (lex_number s)"
  "peg (Then r1 r2) s = after_match (peg r1 s) (peg r2)"
  "peg (Or r1 r2) s = after_failure (peg r1 s) (peg r2 s)"
  "peg (May r1) s = after_failure (peg r1 s) (Some (Some s))"
  "peg (List_Rule r1) s = again_or_stop (peg r1 s) s (peg (List_Rule r1))"
  "peg (Parenthesised r1) s = peg (Then (Match_Char CHR ''('') (Then r1 (Match_Char CHR '')''))) s"
  "peg (Bracketed r1) s = peg (Then (Match_Char CHR ''{'') (Then r1 (Match_Char CHR ''}''))) s"
  "peg (Match_Parser n a) s = peg (rules n) s"
  "peg (Match_Production n a) s = peg (rules n) s"
  by (subst peg.simps, simp add: after_match_def after_failure_def again_or_stop_def)+

lemma skip_ws_shorter: "length (skip_ws s) \<le> length s"
  unfolding skip_ws_def by (rule length_dropWhile_le)

lemma lex_shorter:
  "w \<noteq> [] \<Longrightarrow> lex_string w s = Some t \<Longrightarrow> length t < length s"
  "lex_char c s = Some t \<Longrightarrow> length t < length s"
  "lex_identifier s = Some t \<Longrightarrow> length t < length s"
  "lex_number s = Some t \<Longrightarrow> length t < length s"
proof -
  show "length t < length s" if "w \<noteq> []" "lex_string w s = Some t"
    using that skip_ws_shorter [of s] by (cases w) (auto simp: lex_string_def prefix_def split: if_splits)
  show "length t < length s" if "lex_char c s = Some t"
    using that skip_ws_shorter [of s] by (auto simp: lex_char_def split: list.splits if_splits)
  have drop: "length (dropWhile P u) < length s" if sk: "u = skip_ws s" and ne: "u \<noteq> []" and hd: "P (hd u)" for P u
  proof -
    obtain c cs where u: "u = c # cs" using ne by (cases u) auto
    then have "length (dropWhile P u) \<le> length cs" using hd length_dropWhile_le [of P cs] by simp
    also have "length cs < length u" by (simp add: u)
    also have "length u \<le> length s" using sk skip_ws_shorter by simp
    finally show ?thesis .
  qed
  show "length t < length s" if "lex_identifier s = Some t"
    using that by (auto simp: lex_identifier_def Let_def split: if_splits intro!: drop)
  show "length t < length s" if "lex_number s = Some t"
    using that by (auto simp: lex_number_def Let_def split: if_splits intro!: drop)
qed

lemma dropWhile_word:
  "\<forall>c\<in>set x. P c \<Longrightarrow> t = [] \<or> \<not> P (hd t) \<Longrightarrow> dropWhile P (x @ t) = t"
  by (cases t) (simp_all add: dropWhile_append2)

interpretation peg: copa peg skip_ws
proof unfold_locales
  fix s x t a assume "skip_ws s = x @ t" "is_identifier x" "word_ends t"
  then show "peg (Match_Identifier a) s = Some (Some t)"
    using dropWhile_word [of x ident_char t]
    by (auto simp: peg_rules lex_identifier_def is_identifier_def word_ends_def Let_def)
next
  fix s k t a assume s: "skip_ws s = string_of_nat k @ t" and t: "word_ends t"
  have "\<forall>c\<in>set (string_of_nat k). is_digit c" using string_of_nat_digits by blast
  moreover have "t = [] \<or> \<not> is_digit (hd t)" using t by (auto simp: word_ends_def ident_char_def)
  ultimately show "peg (Match_Number a) s = Some (Some t)"
    using dropWhile_word [of "string_of_nat k" is_digit t] hd_in_set [of "string_of_nat k"]
    by (auto simp: peg_rules lex_number_def s Let_def)
next
  fix s assume "visible s"
  then show "skip_ws s = s" by (cases s) (simp_all add: visible_def skip_ws_def)
next
  fix tok s show "is_token tok \<Longrightarrow> \<exists>out. peg tok s = Some out" by (cases tok) (simp_all add: peg_rules)
next
  fix tok s t assume "is_token tok" "peg tok s = Some (Some t)"
  then show "length t < length s" by (cases tok) (auto simp: peg_rules dest: lex_shorter)
qed (auto simp: peg_rules skip_ws_def is_space_def visible_def lex_string_def lex_char_def lex_identifier_def
      lex_number_def Let_def hd_append)

section \<open>The parser returns\<close>

text \<open>
  Which rules may match nothing, and which grammars a rule may enter before anything is consumed. The
  only grammars that may match nothing are the two lists.
\<close>

fun nullable_name :: "grammar_name \<Rightarrow> bool" where
  "nullable_name Expr \<longleftrightarrow> True"
| "nullable_name Fabl \<longleftrightarrow> True"
| "nullable_name _ \<longleftrightarrow> False"

fun nullable :: "rule \<Rightarrow> bool" where
  "nullable (Then a b) \<longleftrightarrow> nullable a \<and> nullable b"
| "nullable (Or a b) \<longleftrightarrow> nullable a \<or> nullable b"
| "nullable (May a) \<longleftrightarrow> True"
| "nullable (List_Rule a) \<longleftrightarrow> True"
| "nullable (Match_Parser n _) \<longleftrightarrow> nullable_name n"
| "nullable (Match_Production n _) \<longleftrightarrow> nullable_name n"
| "nullable _ \<longleftrightarrow> False"

text \<open>A number for each grammar, larger than those of the grammars it may enter at its start.\<close>

fun rank :: "grammar_name \<Rightarrow> nat" where
  "rank Base = 1"
| "rank Expr = 2"
| "rank Precondition = 1"
| "rank Assignment = 1"
| "rank Actor_Definition = 1"
| "rank Fabl = 2"
| "rank _ = 0"

fun height :: "rule \<Rightarrow> nat" where
  "height (Then a b) = (if nullable a then max (height a) (height b) else height a)"
| "height (Or a b) = max (height a) (height b)"
| "height (May a) = height a"
| "height (List_Rule a) = height a"
| "height (Match_Parser n _) = Suc (rank n)"
| "height (Match_Production n _) = Suc (rank n)"
| "height _ = 0"

text \<open>Tokens that match something, and lists of things that do.\<close>

fun well_formed :: "rule \<Rightarrow> bool" where
  "well_formed (Then a b) \<longleftrightarrow> well_formed a \<and> well_formed b"
| "well_formed (Or a b) \<longleftrightarrow> well_formed a \<and> well_formed b"
| "well_formed (May a) \<longleftrightarrow> well_formed a"
| "well_formed (List_Rule a) \<longleftrightarrow> well_formed a \<and> \<not> nullable a"
| "well_formed (Parenthesised a) \<longleftrightarrow> well_formed a"
| "well_formed (Bracketed a) \<longleftrightarrow> well_formed a"
| "well_formed (Match_Parser n _) \<longleftrightarrow> True"
| "well_formed (Match_Production n _) \<longleftrightarrow> True"
| "well_formed r \<longleftrightarrow> is_token r"

lemma grammar_well_formed:
  "well_formed (rules n)" "height (rules n) \<le> rank n" "nullable (rules n) \<longleftrightarrow> nullable_name n"
  by (cases n; simp add: grammar_defs keyword_defs)+

context copa begin

definition returns :: "rule \<Rightarrow> string \<Rightarrow> bool" where
  "returns r s \<longleftrightarrow>
     (\<exists>out. run r s = Some out \<and>
        (\<forall>t. out = Some t \<longrightarrow> length t \<le> length s \<and> (\<not> nullable r \<longrightarrow> length t < length s)))"

lemma returnsE:
  assumes "returns r s"
  obtains "run r s = Some None"
  | t where "run r s = Some (Some t)" "length t < length s"
  | t where "run r s = Some (Some t)" "length t = length s" "nullable r"
proof -
  from assms obtain out where out: "run r s = Some out"
    "\<forall>t. out = Some t \<longrightarrow> length t \<le> length s \<and> (\<not> nullable r \<longrightarrow> length t < length s)"
    unfolding returns_def by blast
  show thesis
  proof (cases out)
    case None
    with out that(1) show thesis by simp
  next
    case (Some t)
    with out that(2,3) show thesis by (cases "length t < length s") auto
  qed
qed

lemma token_run: "is_token r \<Longrightarrow> returns r s"
  using token_returns [of r s] token_consumes [of r s] by (auto simp: returns_def intro: less_imp_le)

lemma returns_then:
  assumes "returns a s"
    and "\<And>t. run a s = Some (Some t) \<Longrightarrow> length t < length s \<Longrightarrow> returns b t"
    and "\<And>t. run a s = Some (Some t) \<Longrightarrow> length t = length s \<Longrightarrow> nullable a \<Longrightarrow> returns b t"
  shows "returns (Then a b) s"
  using assms(1)
proof (cases rule: returnsE)
  case 1
  then show ?thesis by (simp add: returns_def then_law)
next
  case (2 t)
  from assms(2) [OF 2] show ?thesis
    by (cases rule: returnsE) (use 2 in \<open>auto simp: returns_def then_law\<close>)
next
  case (3 t)
  from assms(3) [OF 3] show ?thesis
    by (cases rule: returnsE) (use 3 in \<open>auto simp: returns_def then_law\<close>)
qed

lemma returns_or: "returns a s \<Longrightarrow> returns b s \<Longrightarrow> returns (Or a b) s"
  by (auto simp: returns_def or_law split: option.splits elim!: returnsE)
    (metis after_failure_simps(2,3) option.exhaust)+

lemma returns_list:
  assumes "returns a s" and "\<not> nullable a"
    and "\<And>t. length t < length s \<Longrightarrow> returns (List_Rule a) t"
  shows "returns (List_Rule a) s"
  using assms(1)
proof (cases rule: returnsE)
  case 1
  then show ?thesis by (simp add: returns_def list_law)
next
  case (2 t)
  from assms(3) [OF 2(2)] show ?thesis
    by (cases rule: returnsE) (use 2 list_law [of a s] in \<open>auto simp: returns_def\<close>)
next
  case 3
  then show ?thesis using assms(2) by blast
qed

lemma returns_same:
  assumes "run r s = run r' s" and "returns r' s" and "nullable r' \<longrightarrow> nullable r"
  shows "returns r s"
  using assms by (auto simp: returns_def)

text \<open>Rules on a text, given that all rules return on shorter texts.\<close>

lemma returns_from_shorter:
  assumes shorter: "\<And>r u. length u < n \<Longrightarrow> well_formed r \<Longrightarrow> returns r u"
  shows "length s = n \<Longrightarrow> height r \<le> k \<Longrightarrow> well_formed r \<Longrightarrow> returns r s"
proof (induction k arbitrary: r s rule: less_induct)
  case (less k)
  have delimited: "returns (Then (Match_Char c) (Then a (Match_Char d))) u" if "well_formed a" "length u = n" for a c d u
    by (intro returns_then token_run shorter) (use that in auto)
  have named: "returns (rules m) u" if "Suc (rank m) \<le> k" "length u = n" for m u
    using less.IH [of "rank m" u "rules m"] grammar_well_formed [of m] that by simp
  from less.prems show ?case
  proof (induction r arbitrary: s)
    case (Then a b)
    have ab: "well_formed a" "well_formed b" "height a \<le> k" "nullable a \<Longrightarrow> height b \<le> k"
      using Then.prems by (auto split: if_splits)
    show ?case
    proof (rule returns_then)
      show "returns a s" by (rule Then.IH(1) [OF Then.prems(1) ab(3,1)])
    next
      fix t :: string assume "length t < length s"
      then show "returns b t" using shorter ab(2) Then.prems(1) by simp
    next
      fix t :: string assume "length t = length s" "nullable a"
      then show "returns b t" using Then.IH(2) [of t] Then.prems(1) ab by simp
    qed
  next
    case (Or a b)
    then show ?case by (intro returns_or) simp_all
  next
    case (May a)
    have "returns a s" by (rule May.IH) (use May.prems in simp_all)
    then show ?case by (cases rule: returnsE) (auto simp: returns_def may_law)
  next
    case (List_Rule a)
    have a: "well_formed a" "\<not> nullable a" "height a \<le> k" using List_Rule.prems by simp_all
    show ?case
    proof (rule returns_list [OF List_Rule.IH [OF List_Rule.prems(1) a(3,1)] a(2)])
      fix t :: string assume "length t < length s"
      then show "returns (List_Rule a) t" using List_Rule.prems(1,3) by (intro shorter) auto
    qed
  next
    case (Parenthesised a)
    then show ?case by (intro returns_same [OF parenthesised_law delimited]) auto
  next
    case (Bracketed a)
    then show ?case by (intro returns_same [OF bracketed_law delimited]) auto
  next
    case (Match_Parser m a)
    then show ?case by (intro returns_same [OF parser_law named]) (auto simp: grammar_well_formed)
  next
    case (Match_Production m a)
    then show ?case by (intro returns_same [OF production_law named]) (auto simp: grammar_well_formed)
  qed (auto intro: token_run)
qed

lemma run_returns: "well_formed r \<Longrightarrow> returns r s"
proof (induction "length s" arbitrary: r s rule: less_induct)
  case less
  show ?case by (rule returns_from_shorter [OF less.hyps refl order.refl less.prems])
qed

lemma list_matches:
  assumes "well_formed (List_Rule a)"
  shows "\<exists>t. run (List_Rule a) s = Some (Some t)"
proof (induction "length s" arbitrary: s rule: less_induct)
  case less
  have "returns a s" using assms by (intro run_returns) simp
  then show ?case
  proof (cases rule: returnsE)
    case (2 t)
    then show ?thesis using less.hyps [of t] by (simp add: list_law [of a s])
  qed (use assms in \<open>auto simp: list_law [of a s]\<close>)
qed

end

text \<open>
  C10. The parser returns on every text, for every grammar of FABL: no grammar enters itself before it
  consumed something, and no list repeats a rule that may match nothing. A match leaves a rest that is
  no longer than the text, and shorter except for the two lists, expressions and programs, which match
  on every text, if only its beginning.
\<close>

theorem fabl_parser_returns:
  assumes "copa run skip"
  shows "\<exists>out. run (rules n) s = Some out \<and>
    (\<forall>t. out = Some t \<longrightarrow> length t \<le> length s \<and> (n \<notin> {Expr, Fabl} \<longrightarrow> length t < length s)) \<and>
    (n \<in> {Expr, Fabl} \<longrightarrow> out \<noteq> None)"
proof -
  have "copa.returns run (rules n) s" by (rule copa.run_returns [OF assms grammar_well_formed(1)])
  then obtain out where out: "run (rules n) s = Some out"
    "\<forall>t. out = Some t \<longrightarrow> length t \<le> length s \<and> (\<not> nullable_name n \<longrightarrow> length t < length s)"
    by (auto simp: copa.returns_def [OF assms] grammar_well_formed(3))
  moreover have "nullable_name n \<longleftrightarrow> n \<in> {Expr, Fabl}" by (cases n) simp_all
  moreover have "out \<noteq> None" if "n \<in> {Expr, Fabl}"
  proof -
    have "\<exists>a. rules n = List_Rule a" using that by (auto simp: expression_rules_def fabl_rules_def)
    then obtain a where "rules n = List_Rule a" by blast
    with grammar_well_formed(1) [of n] out(1) show ?thesis
      using copa.list_matches [OF assms, of a s] by auto
  qed
  ultimately show ?thesis by auto
qed

theorem fabl_parser_returns_witness: "\<exists>t. peg (rules Fabl) ''actor a { has 4 x; };'' = Some (Some t)"
  using fabl_parser_returns [OF peg.copa_axioms, of Fabl] by fastforce

end
