(* ===== verification/Fabl_Words.thy ===== *)
theory Fabl_Words
  imports Fabl_Parser
begin

text \<open>
  Texts whose words are separated by blanks, and what the tokens of the parser do on them.
\<close>

definition word :: "string \<Rightarrow> string" where
  "word w = CHR '' '' # w"

text \<open>What may follow a word: nothing, or a blank and a word that is not a point.\<close>

definition follows :: "string \<Rightarrow> bool" where
  "follows s \<longleftrightarrow> s = [] \<or> (\<exists>u. s = CHR '' '' # u \<and> visible u \<and> hd u \<noteq> CHR ''.'')"

definition starts_word :: "string \<Rightarrow> bool" where
  "starts_word w \<longleftrightarrow> w \<noteq> [] \<and> \<not> is_space (hd w) \<and> hd w \<noteq> CHR ''.'' \<and> (hd w = CHR ''/'' \<longrightarrow> w = ''/'')"

lemma ident_char_facts:
  "ident_char c \<Longrightarrow> \<not> is_space c \<and> c \<noteq> CHR ''.'' \<and> c \<noteq> CHR ''/'' \<and> c \<noteq> CHR ''+'' \<and> c \<noteq> CHR ''-''"
  by (auto simp: ident_char_def is_space_def is_digit_def)

lemma digit_ident: "is_digit c \<Longrightarrow> ident_char c"
  by (simp add: ident_char_def)

lemma follows_ends: "follows s \<Longrightarrow> word_ends s"
  by (auto simp: follows_def word_ends_def ident_char_def is_digit_def)

lemma follows_word: "starts_word w \<Longrightarrow> follows s \<Longrightarrow> follows (word w @ s)"
  by (cases w) (auto simp: starts_word_def follows_def word_def visible_def)

lemma follows_Nil [simp]: "follows []"
  by (simp add: follows_def)

lemma identifier_starts: "is_identifier x \<Longrightarrow> starts_word (x @ t) \<and> starts_word x"
  using ident_char_facts by (cases x) (auto simp: is_identifier_def starts_word_def)

lemma number_starts: "starts_word (string_of_nat n)"
proof -
  have "is_digit (hd (string_of_nat n))" by (rule string_of_nat_digits, rule hd_in_set) simp
  then show ?thesis using ident_char_facts [of "hd (string_of_nat n)"] digit_ident by (auto simp: starts_word_def)
qed

text \<open>A keyword is at the start of a text that begins with a whole word only if it is at the start of
  the word.\<close>

lemma prefix_word: "prefix k (x @ t) \<Longrightarrow> \<forall>c\<in>set k. ident_char c \<Longrightarrow> word_ends t \<Longrightarrow> prefix k x"
proof (induction k arbitrary: x)
  case (Cons c k)
  then show ?case by (cases x) (auto simp: word_ends_def prefix_def)
qed simp

context copa begin

lemma skip_word: "starts_word w \<Longrightarrow> follows s \<Longrightarrow> skip (word w @ s) = w @ s"
proof -
  assume w: "starts_word w" "follows s"
  then have "visible (w @ s)"
    by (cases w) (auto simp: starts_word_def visible_def follows_def)
  then show ?thesis by (simp add: word_def skip_space skip_visible)
qed

lemma string_word: "starts_word w \<Longrightarrow> follows s \<Longrightarrow> run (Match_String w a) (word w @ s) = Some (Some s)"
  by (intro string_matches disjI1) (simp_all add: skip_word follows_ends)

lemma char_word:
  assumes "starts_word [c]" and "follows s"
  shows "run (Match_Char c) (word [c] @ s) = Some (Some s)"
  using skip_word [OF assms] by (simp add: char_law)

lemma char_other:
  assumes "starts_word w" and "follows s" and "hd w \<noteq> c"
  shows "run (Match_Char c) (word w @ s) = Some None"
  using skip_word [OF assms(1,2)] assms(1,3) by (cases w) (auto simp: char_law starts_word_def)

lemma semicol_word: "follows s \<Longrightarrow> run Semicol (word '';'' @ s) = Some (Some s)"
  by (simp add: semicol_law char_word starts_word_def is_space_def)

lemma identifier_word:
  "is_identifier x \<Longrightarrow> follows s \<Longrightarrow> run (Match_Identifier a) (word x @ s) = Some (Some s)"
  by (intro identifier_matches [of _ x]) (simp_all add: skip_word identifier_starts follows_ends)

lemma identifier_other:
  "starts_word w \<Longrightarrow> follows s \<Longrightarrow> \<not> ident_char (hd w) \<Longrightarrow> run (Match_Identifier a) (word w @ s) = Some None"
  by (intro identifier_fails disjI2) (auto simp: skip_word starts_word_def hd_append)

lemma number_word:
  assumes "n < 2 ^ 31" and "follows s"
  shows "run (Match_Number a) (word (string_of_nat n) @ s) = Some (Some s)"
  using assms
  by (intro number_matches [of _ n]) (auto simp: skip_word number_starts follows_ends follows_def)

text \<open>A number is not read from a word that begins otherwise; a sign alone is not a number.\<close>

lemma number_other:
  assumes "starts_word w" and "follows s" and "\<not> is_digit (hd w)"
    and "hd w \<in> {CHR ''+'', CHR ''-''} \<Longrightarrow> w = [hd w] \<and> s \<noteq> []"
  shows "run (Match_Number a) (word w @ s) = Some None"
proof (rule number_fails, rule disjI2, intro conjI impI)
  have sk: "skip (word w @ s) = w @ s" by (rule skip_word [OF assms(1,2)])
  have w: "w \<noteq> []" "hd w \<noteq> CHR ''.''" using assms(1) by (simp_all add: starts_word_def)
  show "\<not> is_digit (hd (skip (word w @ s)))" using assms(3) w by (simp add: sk)
  assume "hd (skip (word w @ s)) \<in> {CHR ''+'', CHR ''-'', CHR ''.''}"
  then have "w = [hd w]" "s \<noteq> []" using assms(4) w by (auto simp: sk)
  moreover from this have "tl (skip (word w @ s)) = s" unfolding sk by (cases w) auto
  ultimately show "\<exists>t. tl (skip (word w @ s)) = CHR '' '' # t"
    using assms(2) by (auto simp: follows_def)
qed

lemma string_other:
  "starts_word w \<Longrightarrow> follows s \<Longrightarrow> \<not> prefix k (w @ s) \<Longrightarrow> run (Match_String k a) (word w @ s) = Some None"
  by (intro string_fails) (simp add: skip_word)

lemma string_other_hd:
  "starts_word w \<Longrightarrow> follows s \<Longrightarrow> k \<noteq> [] \<Longrightarrow> hd k \<noteq> hd w \<Longrightarrow> run (Match_String k a) (word w @ s) = Some None"
  by (intro string_other) (auto simp: starts_word_def prefix_def neq_Nil_conv)

lemma string_other_word:
  assumes "is_identifier x" and "word_ends t" and "follows s" and "\<forall>c\<in>set k. ident_char c" and "\<not> prefix k x"
    and "starts_word (x @ t)" and "t = [] \<or> word_ends (t @ s)"
  shows "run (Match_String k a) (word (x @ t) @ s) = Some None"
proof (rule string_other [OF assms(6,3)])
  have "word_ends (t @ s)" using assms(2,3,7) follows_ends by auto
  then show "\<not> prefix k ((x @ t) @ s)"
    using prefix_word [of k x "t @ s"] assms(4,5) by auto
qed

text \<open>Sequences, choices and lists, one step at a time.\<close>

lemma then_run: "run a s = Some (Some t) \<Longrightarrow> run (Then a b) s = run b t"
  by (simp add: then_law)

lemma then_fails: "run a s = Some None \<Longrightarrow> run (Then a b) s = Some None"
  by (simp add: then_law)

lemma or_first: "run a s = Some (Some t) \<Longrightarrow> run (Or a b) s = Some (Some t)"
  by (simp add: or_law)

lemma or_second: "run a s = Some None \<Longrightarrow> run (Or a b) s = run b s"
  by (simp add: or_law)

lemma list_step: "run a s = Some (Some t) \<Longrightarrow> run (List_Rule a) s = run (List_Rule a) t"
  by (simp add: list_law [of a s])

lemma list_stop: "run a s = Some None \<Longrightarrow> run (List_Rule a) s = Some (Some s)"
  by (simp add: list_law)

lemma bracketed_run:
  assumes "starts_word ''{''" and "follows (p @ word ''}'' @ s)" and "run a (p @ word ''}'' @ s) = Some (Some (word ''}'' @ s))"
    and "follows s"
  shows "run (Bracketed a) (word ''{'' @ p @ word ''}'' @ s) = Some (Some s)"
  unfolding bracketed_law
  using char_word [OF assms(1,2)] assms(3) char_word [of "CHR ''}''" s] assms(4)
  by (simp add: then_run starts_word_def is_space_def)

lemma parenthesised_run:
  assumes "follows (p @ word '')'' @ s)" and "run a (p @ word '')'' @ s) = Some (Some (word '')'' @ s))"
    and "follows s"
  shows "run (Parenthesised a) (word ''('' @ p @ word '')'' @ s) = Some (Some s)"
  unfolding parenthesised_law
  using char_word [OF _ assms(1), of "CHR ''(''"] assms(2) char_word [of "CHR '')''" s] assms(3)
  by (simp add: then_run starts_word_def is_space_def)

text \<open>A list of printed items, each read to its end, before a text on which the items fail.\<close>

lemma list_items:
  assumes "\<And>x t. x \<in> set xs \<Longrightarrow> follows t \<Longrightarrow> run a (p x @ t) = Some (Some t) \<and> follows (p x @ t)"
    and "run a s = Some None" and "follows s"
  shows "run (List_Rule a) (concat (map p xs) @ s) = Some (Some s) \<and> follows (concat (map p xs) @ s)"
  using assms(1)
proof (induction xs)
  case Nil
  then show ?case using assms(2,3) by (simp add: list_stop)
next
  case (Cons x xs)
  then have ih: "run (List_Rule a) (concat (map p xs) @ s) = Some (Some s)" "follows (concat (map p xs) @ s)" by simp_all
  from Cons.prems [of x, OF _ ih(2)]
  have "run a (p x @ concat (map p xs) @ s) = Some (Some (concat (map p xs) @ s))"
    "follows (p x @ concat (map p xs) @ s)" by simp_all
  then show ?case using ih(1) by (simp add: list_step)
qed

end

end
