(* ===== verification/Fabl_Print.thy ===== *)
theory Fabl_Print
  imports Fabl_Cst Fabl_Words
begin

text \<open>
  The concrete syntax trees of FABL as text, every word after a blank, and which trees the language can
  write.
\<close>

section \<open>Printing\<close>

fun operator_token :: "cst_operator_exec \<Rightarrow> string" where
  "operator_token X_NONE = []"
| "operator_token X_ADD = ''+''"
| "operator_token X_SUBTRACT = ''-''"
| "operator_token X_MULTIPLY = ''*''"
| "operator_token X_DIVIDE = ''/''"
| "operator_token X_MODULO = ''%''"

fun compare_token :: "compare_operator \<Rightarrow> string" where
  "compare_token Cmp_INVALID = []"
| "compare_token Cmp_GREATER = ''>''"
| "compare_token Cmp_GREATER_EQUAL = ''>=''"
| "compare_token Cmp_LESS = ''<''"
| "compare_token Cmp_LESS_EQUAL = ''<=''"
| "compare_token Cmp_EQUAL = ''==''"
| "compare_token Cmp_DIFFERENT = ''!=''"

definition print_accessor :: "actor_accessor \<Rightarrow> string" where
  "print_accessor a =
     word (accessor_actor a) @ (case accessor_access a of None \<Rightarrow> [] | Some x \<Rightarrow> CHR ''.'' # x)"

definition print_leaf :: "expression_leaf \<Rightarrow> string" where
  "print_leaf l =
     (case l of
        Bool_Leaf b \<Rightarrow> word (if bool_value b then ''true'' else ''false'')
      | Accessor_Leaf a \<Rightarrow> print_accessor a)"

fun print_expression :: "expression_node \<Rightarrow> string"
  and print_operand :: "(cst_operator_exec, expression_leaf) ast_operand \<Rightarrow> string" where
  "print_expression (Ast_Node op l r) =
     (if op = X_NONE then print_operand l else print_operand l @ word (operator_token op) @ print_operand r)"
| "print_operand No_Operand = []"
| "print_operand (Sub_Node n) = word ''('' @ print_expression n @ word '')''"
| "print_operand (Integer_Operand i) = word (string_of_nat (unat i))"
| "print_operand (Identifier_Operand x) = word x"
| "print_operand (Leaf_Operand l) = print_leaf l"

fun print_condition :: "precondition_ast_node \<Rightarrow> string" where
  "print_condition (Ast_Node c (Leaf_Operand a) (Integer_Operand i)) =
     print_accessor a @ word (compare_token c) @ word (string_of_nat (unat i)) @ word '';''"
| "print_condition _ = []"

definition print_assignment :: "assignment_statement \<Rightarrow> string" where
  "print_assignment a =
     print_accessor (assignment_lhs a) @ word ''='' @ print_expression (assignment_rhs a) @ word '';''"

definition print_capability :: "cst_capability \<Rightarrow> string" where
  "print_capability c =
     word ''capability'' @ word (cap_name c) @ word ''{'' @
     word ''pre'' @ word ''{'' @ concat (map print_condition (conditions (cap_pre c))) @ word ''}'' @
     word ''post'' @ word ''{'' @ concat (map print_assignment (assignments (cap_post c))) @ word ''}'' @
     word ''}'' @ word '';''"

fun print_content :: "data_type \<Rightarrow> string" where
  "print_content (Has_Statement h) =
     word ''has'' @ word (string_of_nat (unat (has_quantity h))) @ word (has_id h) @ word '';''"
| "print_content (Capability c) = word ''can'' @ print_capability c"
| "print_content (Capability_Identifier i) = word ''can'' @ word (cap_id i) @ word '';''"
| "print_content _ = []"

fun print_actor :: "data_type \<Rightarrow> string" where
  "print_actor (Custom_Data_Type name items) =
     word ''actor'' @ word name @ word ''{'' @ concat (map print_content items) @ word ''}'' @ word '';''"
| "print_actor _ = []"

definition print_program :: "data_type list \<Rightarrow> cst_capability list \<Rightarrow> string" where
  "print_program actors capabilities =
     concat (map print_actor actors) @ concat (map print_capability capabilities)"

section \<open>Trees the grammar can express\<close>

text \<open>
  Identifiers that do not begin like a word the grammar tries first, numbers that are not negative, no
  modulo.
\<close>

definition plain_identifier :: "string \<Rightarrow> bool" where
  "plain_identifier x \<longleftrightarrow>
     is_identifier x \<and> \<not> prefix ''true'' x \<and> \<not> prefix ''false'' x \<and> \<not> prefix ''capability'' x"

definition good_number :: "32 word \<Rightarrow> bool" where
  "good_number i \<longleftrightarrow> unat i < 2 ^ 31"

definition good_accessor :: "actor_accessor \<Rightarrow> bool" where
  "good_accessor a \<longleftrightarrow>
     plain_identifier (accessor_actor a) \<and>
     (case accessor_access a of None \<Rightarrow> True | Some x \<Rightarrow> plain_identifier x)"

fun good_leaf :: "expression_leaf \<Rightarrow> bool" where
  "good_leaf (Bool_Leaf b) \<longleftrightarrow> True"
| "good_leaf (Accessor_Leaf a) \<longleftrightarrow> good_accessor a \<and> accessor_access a \<noteq> None"

fun good_expression :: "expression_node \<Rightarrow> bool"
  and good_operand :: "(cst_operator_exec, expression_leaf) ast_operand \<Rightarrow> bool" where
  "good_expression (Ast_Node op l r) \<longleftrightarrow>
     good_operand l \<and> (if op = X_NONE then r = No_Operand else op \<noteq> X_MODULO \<and> good_operand r)"
| "good_operand No_Operand \<longleftrightarrow> False"
| "good_operand (Sub_Node n) \<longleftrightarrow> good_expression n"
| "good_operand (Integer_Operand i) \<longleftrightarrow> good_number i"
| "good_operand (Identifier_Operand x) \<longleftrightarrow> plain_identifier x"
| "good_operand (Leaf_Operand l) \<longleftrightarrow> good_leaf l"

fun good_condition :: "precondition_ast_node \<Rightarrow> bool" where
  "good_condition (Ast_Node c (Leaf_Operand a) (Integer_Operand i)) \<longleftrightarrow>
     c \<noteq> Cmp_INVALID \<and> good_accessor a \<and> good_number i"
| "good_condition _ \<longleftrightarrow> False"

definition good_assignment :: "assignment_statement \<Rightarrow> bool" where
  "good_assignment a \<longleftrightarrow> good_accessor (assignment_lhs a) \<and> good_expression (assignment_rhs a)"

definition good_capability :: "cst_capability \<Rightarrow> bool" where
  "good_capability c \<longleftrightarrow>
     plain_identifier (cap_name c) \<and> (\<forall>n\<in>set (conditions (cap_pre c)). good_condition n) \<and>
     (\<forall>a\<in>set (assignments (cap_post c)). good_assignment a)"

fun good_content :: "data_type \<Rightarrow> bool" where
  "good_content (Has_Statement h) \<longleftrightarrow> good_number (has_quantity h) \<and> plain_identifier (has_id h)"
| "good_content (Capability c) \<longleftrightarrow> good_capability c"
| "good_content (Capability_Identifier i) \<longleftrightarrow> plain_identifier (cap_id i)"
| "good_content _ \<longleftrightarrow> False"

fun good_actor :: "data_type \<Rightarrow> bool" where
  "good_actor (Custom_Data_Type name items) \<longleftrightarrow> plain_identifier name \<and> (\<forall>d\<in>set items. good_content d)"
| "good_actor _ \<longleftrightarrow> False"

end
