(* ===== verification/Fabl_Accepts.thy ===== *)
theory Fabl_Accepts
  imports Fabl_Print
begin

text \<open>
  The grammar reads printed accessors and expressions to their end, and what stops it there.
\<close>

section \<open>Accessors\<close>

context copa begin

lemma point_stops: "follows s \<Longrightarrow> run Match_Point s = Some None"
  by (auto simp: follows_def point_law char_law skip_space skip_visible skip_empty split: list.split)

lemma visible_point: "visible (CHR ''.'' # s)"
  by (simp add: visible_def is_space_def)

lemma plain_facts:
  assumes "plain_identifier x"
  shows "is_identifier x" "starts_word x" "starts_word (x @ t)" "ident_char (hd x)" "\<not> is_digit (hd x)" "x \<noteq> []"
  using assms identifier_starts [of x t] by (auto simp: plain_identifier_def is_identifier_def)

lemma point_then_identifier:
  assumes "is_identifier x" and "follows s"
  shows "run (Then Match_Point (Match_Identifier a)) (CHR ''.'' # x @ s) = Some (Some s)"
proof -
  have "run Match_Point (CHR ''.'' # x @ s) = Some (Some (x @ s))"
    by (simp add: point_law char_law skip_visible [OF visible_point])
  moreover have "visible (x @ s)"
    using identifier_starts [OF assms(1)] assms(1)
    by (cases x) (auto simp: starts_word_def visible_def is_identifier_def dest: ident_char_facts)
  then have "run (Match_Identifier a) (x @ s) = Some (Some s)"
    by (intro identifier_matches [of _ x] follows_ends assms) (simp add: skip_visible)
  ultimately show ?thesis by (simp add: then_run)
qed

lemma identifier_before_point:
  assumes "is_identifier x"
  shows "run (Match_Identifier a) (word x @ CHR ''.'' # t) = Some (Some (CHR ''.'' # t))"
proof (rule identifier_matches [OF _ assms])
  have "visible (x @ CHR ''.'' # t)"
    using assms by (cases x) (auto simp: visible_def is_identifier_def dest: ident_char_facts)
  then show "skip (word x @ CHR ''.'' # t) = x @ CHR ''.'' # t" by (simp add: word_def skip_space skip_visible)
  show "word_ends (CHR ''.'' # t)" by (simp add: word_ends_def ident_char_def is_digit_def)
qed

lemma follows_accessor: "good_accessor a \<Longrightarrow> follows s \<Longrightarrow> follows (print_accessor a @ s)"
proof -
  assume a: "good_accessor a" "follows s"
  let ?t = "case accessor_access a of None \<Rightarrow> [] | Some x \<Rightarrow> CHR ''.'' # x"
  have "plain_identifier (accessor_actor a)" using a(1) by (simp add: good_accessor_def)
  from follows_word [OF plain_facts(3) [OF this, of ?t] a(2)]
  show ?thesis by (simp add: print_accessor_def word_def)
qed

lemma accepts_accessor:
  assumes "good_accessor a" and "follows s"
  shows "run (rules Member_Accessor) (print_accessor a @ s) = Some (Some s)"
proof -
  have x: "is_identifier (accessor_actor a)" using assms(1) by (simp add: good_accessor_def plain_facts(1))
  show ?thesis
  proof (cases "accessor_access a")
    case None
    then show ?thesis
      using identifier_word [OF x assms(2)] point_stops [OF assms(2)]
      by (simp add: print_accessor_def member_accessor_rules_def then_law may_law)
  next
    case (Some y)
    then have "is_identifier y" using assms(1) by (simp add: good_accessor_def plain_facts(1))
    then show ?thesis
      using identifier_before_point [OF x] point_then_identifier [OF _ assms(2)]
      by (simp add: print_accessor_def Some member_accessor_rules_def then_run may_law)
  qed
qed

lemma accepts_strict_accessor:
  assumes "good_accessor a" and "accessor_access a = Some y" and "follows s"
  shows "run (rules Strict_Member_Accessor) (print_accessor a @ s) = Some (Some s)"
proof -
  have x: "is_identifier (accessor_actor a)" "is_identifier y"
    using assms(1,2) by (simp_all add: good_accessor_def plain_facts(1))
  have "run (Then Match_Point (Match_Identifier (Member ''access''))) (CHR ''.'' # y @ s) = Some (Some s)"
    by (rule point_then_identifier [OF x(2) assms(3)])
  then show ?thesis
    using identifier_before_point [OF x(1)]
    by (simp add: print_accessor_def assms(2) strict_member_accessor_rules_def then_law)
qed

lemma strict_accessor_stops:
  assumes "is_identifier x" and "follows s"
  shows "run (rules Strict_Member_Accessor) (word x @ s) = Some None"
  using identifier_word [OF assms] point_stops [OF assms(2)]
  by (simp add: strict_member_accessor_rules_def then_law)

end

section \<open>Expressions\<close>

abbreviation expression_item :: rule where
  "expression_item \<equiv>
     Or (Or (Match_Parser Base No_Action) (Match_Parser Level_1 No_Action)) (Match_Parser Level_2 No_Action)"

context copa begin

lemma base_item: "run (rules Base) s = Some (Some t) \<Longrightarrow> run expression_item s = Some (Some t)"
  by (simp only: or_law parser_law after_failure_simps)

text \<open>What the alternatives of the base grammar do on a word.\<close>

lemma bool_other:
  "starts_word w \<Longrightarrow> follows s \<Longrightarrow> hd w \<noteq> CHR ''t'' \<Longrightarrow> hd w \<noteq> CHR ''f'' \<Longrightarrow>
   run (rules Bool_Literal) (word w @ s) = Some None"
  by (simp add: bool_literal_rules_def or_law string_other_hd)

lemma bool_identifier:
  assumes "plain_identifier x" and "follows s" and "word_ends t" and "t = [] \<or> word_ends (t @ s)"
  shows "run (rules Bool_Literal) (word (x @ t) @ s) = Some None"
proof -
  have "run (Match_String k a) (word (x @ t) @ s) = Some None"
    if "\<not> prefix k x" "\<forall>c\<in>set k. ident_char c" for k a
    by (rule string_other_word) (use assms that plain_facts [OF assms(1)] in auto)
  moreover have "\<forall>c\<in>set ''true''. ident_char c" "\<forall>c\<in>set ''false''. ident_char c"
    by (simp_all add: ident_char_def)
  ultimately show ?thesis
    using assms(1) by (simp add: bool_literal_rules_def or_law plain_identifier_def)
qed

lemma base_number:
  assumes "n < 2 ^ 31" and "follows s"
  shows "run (rules Base) (word (string_of_nat n) @ s) = Some (Some s)"
  using number_word [OF assms] by (simp add: base_rules_def or_law)

lemma base_bool:
  assumes "follows s"
  shows "run (rules Base) (word (if b then ''true'' else ''false'') @ s) = Some (Some s)"
proof -
  let ?w = "if b then ''true'' else ''false''"
  have w: "starts_word ?w" by (simp add: starts_word_def is_space_def)
  have "run (Match_Number As_Leaf) (word ?w @ s) = Some None"
    by (rule number_other [OF w assms]) (cases b, simp_all add: is_digit_def)+
  moreover have "run (rules Bool_Literal) (word ?w @ s) = Some (Some s)"
    using string_word [OF w assms] string_other_hd [OF w assms, of "''true''"]
    by (cases b) (simp_all add: bool_literal_rules_def or_law)
  ultimately show ?thesis by (simp add: base_rules_def or_law production_law)
qed

lemma base_identifier:
  assumes "plain_identifier x" and "follows s"
  shows "run (rules Base) (word x @ s) = Some (Some s)"
proof -
  have "run (Match_Number As_Leaf) (word x @ s) = Some None"
    by (rule number_other [OF plain_facts(2) assms(2)])
      (use assms(1) plain_facts(4,5) [OF assms(1)] in \<open>auto dest: ident_char_facts\<close>)
  moreover have "run (rules Bool_Literal) (word x @ s) = Some None"
    using bool_identifier [OF assms, of "[]"] by (simp add: word_ends_def)
  ultimately show ?thesis
    using strict_accessor_stops [OF plain_facts(1) assms(2)] identifier_word [OF plain_facts(1) assms(2)] assms(1)
    by (simp add: base_rules_def or_law production_law)
qed

lemma base_accessor:
  assumes "good_accessor a" and "accessor_access a = Some y" and "follows s"
  shows "run (rules Base) (print_accessor a @ s) = Some (Some s)"
proof -
  let ?x = "accessor_actor a"
  have x: "plain_identifier ?x" using assms(1) by (simp add: good_accessor_def)
  have shown: "print_accessor a @ s = word (?x @ CHR ''.'' # y) @ s"
    by (simp add: print_accessor_def assms(2) word_def)
  have ends: "word_ends (CHR ''.'' # t)" for t by (simp add: word_ends_def ident_char_def is_digit_def)
  have "hd (?x @ CHR ''.'' # y) = hd ?x" using plain_facts(6) [OF x] by simp
  then have "run (Match_Number As_Leaf) (word (?x @ CHR ''.'' # y) @ s) = Some None"
    using plain_facts(4,5) [OF x]
    by (intro number_other [OF plain_facts(3) [OF x] assms(3)]) (auto dest: ident_char_facts)
  moreover have "run (rules Bool_Literal) (word (?x @ CHR ''.'' # y) @ s) = Some None"
    by (rule bool_identifier [OF x assms(3) ends]) (simp add: ends)
  ultimately show ?thesis
    using accepts_strict_accessor [OF assms] unfolding shown
    by (simp add: base_rules_def or_law production_law)
qed

lemma base_parenthesised:
  assumes "run (rules Expr) (p @ word '')'' @ s) = Some (Some (word '')'' @ s))" and "follows s"
    and "follows (p @ word '')'' @ s)"
  shows "run (rules Base) (word ''('' @ p @ word '')'' @ s) = Some (Some s)"
proof -
  have w: "starts_word ''(''" by (simp add: starts_word_def is_space_def)
  have "run (Match_Number As_Leaf) (word ''('' @ p @ word '')'' @ s) = Some None"
    by (rule number_other [OF w assms(3)]) (simp_all add: is_digit_def)
  moreover have "run (rules Bool_Literal) (word ''('' @ p @ word '')'' @ s) = Some None"
    by (rule bool_other [OF w assms(3)]) simp_all
  moreover have id: "run (Match_Identifier a) (word ''('' @ p @ word '')'' @ s) = Some None" for a
    by (rule identifier_other [OF w assms(3)]) (simp add: ident_char_def is_digit_def)
  moreover have "run (Parenthesised (Match_Production Expr As_Leaf)) (word ''('' @ p @ word '')'' @ s) = Some (Some s)"
    by (rule parenthesised_run [OF assms(3) _ assms(2)]) (use assms(1) in \<open>simp add: production_law\<close>)
  ultimately show ?thesis
    by (simp add: base_rules_def or_law production_law strict_member_accessor_rules_def then_fails)
qed

lemma base_stops:
  assumes "starts_word w" and "follows s" and "\<not> ident_char (hd w)" and "hd w \<noteq> CHR ''(''"
    and "hd w \<in> {CHR ''+'', CHR ''-''} \<Longrightarrow> w = [hd w] \<and> s \<noteq> []"
  shows "run (rules Base) (word w @ s) = Some None"
proof -
  have "\<not> is_digit (hd w)" "hd w \<noteq> CHR ''t''" "hd w \<noteq> CHR ''f''"
    using assms(3) by (auto simp: ident_char_def)
  then have "run (Match_Number As_Leaf) (word w @ s) = Some None" "run (rules Bool_Literal) (word w @ s) = Some None"
    using number_other [OF assms(1,2) _ assms(5)] bool_other [OF assms(1,2)] by blast+
  moreover have "run (Match_Identifier a) (word w @ s) = Some None" for a
    by (rule identifier_other [OF assms(1-3)])
  moreover have "run (Match_Char CHR ''('') (word w @ s) = Some None"
    by (rule char_other [OF assms(1,2,4)])
  ultimately show ?thesis
    by (simp add: base_rules_def or_law production_law strict_member_accessor_rules_def then_fails parenthesised_law)
qed

definition closing :: "string \<Rightarrow> bool" where
  "closing s \<longleftrightarrow> follows s \<and> run expression_item s = Some None"

lemma closing_word:
  assumes "follows s" and "w = '';'' \<or> w = '')''"
  shows "closing (word w @ s)"
proof -
  have w: "starts_word w" "\<not> ident_char (hd w)" using assms(2) by (auto simp: starts_word_def is_space_def ident_char_def is_digit_def)
  have "run (rules Base) (word w @ s) = Some None" by (rule base_stops [OF w(1) assms(1) w(2)]) (use assms(2) in auto)
  moreover have "run (Match_String k a) (word w @ s) = Some None" if "k \<in> {''+'', ''-'', ''*'', ''/''}" for k a
    by (rule string_other_hd [OF w(1) assms(1)]) (use that assms(2) in auto)
  ultimately show ?thesis
    using follows_word [OF w(1) assms(1)]
    by (simp add: closing_def or_law parser_law level_1_rules_def level_2_rules_def)
qed

lemma operator_item:
  assumes "follows s" and "s \<noteq> []" and "op \<noteq> X_NONE" and "op \<noteq> X_MODULO"
  shows "run expression_item (word (operator_token op) @ s) = Some (Some s)"
    and "follows (word (operator_token op) @ s)"
proof -
  let ?w = "operator_token op"
  have w: "starts_word ?w" "\<not> ident_char (hd ?w)" "hd ?w \<noteq> CHR ''(''" "?w = [hd ?w]"
    using assms(3,4) by (cases op; simp add: starts_word_def is_space_def ident_char_def is_digit_def)+
  show "follows (word ?w @ s)" by (rule follows_word [OF w(1) assms(1)])
  have base: "run (rules Base) (word ?w @ s) = Some None"
    by (rule base_stops [OF w(1) assms(1) w(2,3)]) (use w(4) assms(2) in blast)
  have yes: "run (Match_String ?w a) (word ?w @ s) = Some (Some s)" for a
    by (rule string_word [OF w(1) assms(1)])
  have no: "run (Match_String k a) (word ?w @ s) = Some None" if "k \<noteq> []" "hd k \<noteq> hd ?w" for k a
    by (rule string_other_hd [OF w(1) assms(1) that])
  show "run expression_item (word ?w @ s) = Some (Some s)"
    using base yes no assms(3,4)
    by (cases op) (simp_all add: or_law parser_law level_1_rules_def level_2_rules_def)
qed

lemma print_operand_nonempty: "good_operand l \<Longrightarrow> print_operand l @ s \<noteq> []"
  by (cases l) (auto simp: word_def print_leaf_def print_accessor_def split: expression_leaf.split)

lemma accepts_expression_operand:
  "good_expression n \<Longrightarrow> closing s \<Longrightarrow>
     run (rules Expr) (print_expression n @ s) = Some (Some s) \<and> follows (print_expression n @ s)"
  "good_operand l \<Longrightarrow> follows t \<Longrightarrow>
     run (rules Base) (print_operand l @ t) = Some (Some t) \<and> follows (print_operand l @ t)"
proof (induction n and l arbitrary: s and t rule: print_expression_print_operand.induct)
  case (1 op l r)
  have stop: "run expression_item s = Some None" "follows s" using 1(5) by (simp_all add: closing_def)
  have l: "good_operand l" using 1(4) by simp
  show ?case
  proof (cases "op = X_NONE")
    case True
    from 1(1) [OF True l stop(2)] show ?thesis
      using list_step [OF base_item] list_stop [OF stop(1)] True by (simp add: expression_rules_def)
  next
    case False
    then have r: "good_operand r" "op \<noteq> X_MODULO" using 1(4) by simp_all
    from 1(3) [OF False r(1) stop(2)]
    have rr: "run (rules Base) (print_operand r @ s) = Some (Some s)" "follows (print_operand r @ s)" by simp_all
    note op = operator_item [OF rr(2) print_operand_nonempty [OF r(1)] False r(2)]
    from 1(2) [OF False l op(2)]
    have ll: "run (rules Base) (print_operand l @ word (operator_token op) @ print_operand r @ s) =
        Some (Some (word (operator_token op) @ print_operand r @ s))"
      "follows (print_operand l @ word (operator_token op) @ print_operand r @ s)" by simp_all
    show ?thesis
      using ll(2) False list_step [OF base_item [OF ll(1)]] list_step [OF op(1)] list_step [OF base_item [OF rr(1)]]
        list_stop [OF stop(1)]
      by (simp add: expression_rules_def)
  qed
next
  case (3 n)
  have c: "closing (word '')'' @ t)" by (rule closing_word [OF 3(3)]) simp
  from 3(1) [OF _ c] 3(2)
  have n: "run (rules Expr) (print_expression n @ word '')'' @ t) = Some (Some (word '')'' @ t))"
    "follows (print_expression n @ word '')'' @ t)" by simp_all
  from base_parenthesised [OF n(1) 3(3) n(2)] follows_word [OF _ n(2), of "''(''"] show ?case
    by (simp add: starts_word_def is_space_def)
next
  case (4 i)
  then show ?case using base_number [of "unat i" t] follows_word [OF number_starts] by (simp add: good_number_def)
next
  case (5 x)
  then show ?case using base_identifier follows_word [OF plain_facts(2)] by simp
next
  case (6 lf)
  show ?case
  proof (cases lf)
    case (Bool_Leaf b)
    have "starts_word (if bool_value b then ''true'' else ''false'')" by (simp add: starts_word_def is_space_def)
    then show ?thesis
      using 6(2) base_bool [of t "bool_value b"] follows_word by (simp add: Bool_Leaf print_leaf_def)
  next
    case (Accessor_Leaf a)
    then obtain y where "good_accessor a" "accessor_access a = Some y" using 6(1) by auto
    then show ?thesis
      using 6(2) base_accessor follows_accessor by (simp add: Accessor_Leaf print_leaf_def)
  qed
qed simp

lemmas accepts_expression = accepts_expression_operand(1)

end

end
