(* ===== verification/Fabl_Programs.thy ===== *)
theory Fabl_Programs
  imports Fabl_Accepts
begin

text \<open>
  The grammar of FABL reads printed conditions, assignments, capabilities, actors and programs to their
  end, one lemma each.
\<close>

section \<open>Conditions\<close>

lemma starts_words [simp]:
  "starts_word ''{''" "starts_word ''}''" "starts_word '';''" "starts_word ''=''" "starts_word ''pre''"
  "starts_word ''post''" "starts_word ''actor''" "starts_word ''can''" "starts_word ''has''"
  "starts_word ''capability''"
  by (simp_all add: starts_word_def is_space_def)

lemma compare_token_starts: "c \<noteq> Cmp_INVALID \<Longrightarrow> starts_word (compare_token c)"
  by (cases c) (simp_all add: starts_word_def is_space_def)

context copa begin

lemma condition_item:
  assumes "c \<noteq> Cmp_INVALID" and "follows s"
  shows "run (rules Condition) (word (compare_token c) @ s) = Some (Some s)"
proof -
  let ?w = "compare_token c"
  note w = compare_token_starts [OF assms(1)]
  have yes: "run (Match_String ?w a) (word ?w @ s) = Some (Some s)" for a
    by (rule string_word [OF w assms(2)])
  have no: "run (Match_String k a) (word ?w @ s) = Some None" if "\<not> prefix k (?w @ s)" for k a
    by (rule string_other [OF w assms(2) that])
  have blank: "\<not> prefix (CHR ''='' # k) s" for k using assms(2) by (auto simp: follows_def)
  show ?thesis
    using yes no assms(1) blank by (cases c) (simp_all add: condition_rules_def or_law)
qed

lemma semicol_follows: "follows s \<Longrightarrow> follows (word '';'' @ s)"
  by (simp add: follows_word)

lemma accepts_condition:
  assumes "good_condition n" and "follows s"
  shows "run (rules Precondition) (print_condition n @ s) = Some (Some s) \<and> follows (print_condition n @ s)"
proof -
  obtain c a i where n: "n = Ast_Node c (Leaf_Operand a) (Integer_Operand i)"
    and good: "c \<noteq> Cmp_INVALID" "good_accessor a" "unat i < 2 ^ 31"
    using assms(1) by (cases n rule: good_condition.cases) (auto simp: good_number_def)
  note f1 = semicol_follows [OF assms(2)]
  note f2 = follows_word [OF number_starts f1, of "unat i"]
  note f3 = follows_word [OF compare_token_starts [OF good(1)] f2]
  show ?thesis
    using accepts_accessor [OF good(2) f3] condition_item [OF good(1) f2] number_word [OF good(3) f1]
      semicol_word [OF assms(2)] follows_accessor [OF good(2) f3]
    by (simp add: n precondition_rules_def then_law parser_law production_law)
qed

lemma accessor_other:
  assumes "starts_word w" and "follows s" and "\<not> ident_char (hd w)"
  shows "run (rules Member_Accessor) (word w @ s) = Some None"
  using identifier_other [OF assms] by (simp add: member_accessor_rules_def then_fails)

lemma condition_other: "starts_word w \<Longrightarrow> follows s \<Longrightarrow> \<not> ident_char (hd w) \<Longrightarrow>
    run (rules Precondition) (word w @ s) = Some None"
  using accessor_other by (simp add: precondition_rules_def then_law production_law)

section \<open>Assignments\<close>

lemma accepts_assignment:
  assumes "good_assignment a" and "follows s"
  shows "run (rules Assignment) (print_assignment a @ s) = Some (Some s) \<and> follows (print_assignment a @ s)"
proof -
  have good: "good_accessor (assignment_lhs a)" "good_expression (assignment_rhs a)"
    using assms(1) by (simp_all add: good_assignment_def)
  have c: "closing (word '';'' @ s)" by (rule closing_word [OF assms(2)]) simp
  from accepts_expression [OF good(2) c]
  have e: "run (rules Expr) (print_expression (assignment_rhs a) @ word '';'' @ s) = Some (Some (word '';'' @ s))"
    "follows (print_expression (assignment_rhs a) @ word '';'' @ s)" by simp_all
  note f = follows_word [OF _ e(2), of "''=''", simplified]
  show ?thesis
    using accepts_accessor [OF good(1) f] char_word [OF _ e(2), of "CHR ''=''"] e(1) semicol_word [OF assms(2)]
      follows_accessor [OF good(1) f]
    by (simp add: print_assignment_def assignment_rules_def then_law parser_law production_law)
qed

lemma assignment_other: "starts_word w \<Longrightarrow> follows s \<Longrightarrow> \<not> ident_char (hd w) \<Longrightarrow>
    run (rules Assignment) (word w @ s) = Some None"
  using accessor_other by (simp add: assignment_rules_def then_law parser_law)

section \<open>Capabilities\<close>

lemma accepts_block:
  assumes "\<And>x t. x \<in> set xs \<Longrightarrow> follows t \<Longrightarrow> run a (p x @ t) = Some (Some t) \<and> follows (p x @ t)"
    and "run a (word ''}'' @ s) = Some None" and "follows s"
  shows "run (Bracketed (List_Rule a)) (word ''{'' @ concat (map p xs) @ word ''}'' @ s) = Some (Some s)"
    and "follows (word ''{'' @ concat (map p xs) @ word ''}'' @ s)"
proof -
  have e: "follows (word ''}'' @ s)" using assms(3) by (simp add: follows_word)
  have "run (List_Rule a) (concat (map p xs) @ word ''}'' @ s) = Some (Some (word ''}'' @ s)) \<and>
      follows (concat (map p xs) @ word ''}'' @ s)"
    by (rule list_items [where p = p, OF assms(1) assms(2) e])
  then show "run (Bracketed (List_Rule a)) (word ''{'' @ concat (map p xs) @ word ''}'' @ s) = Some (Some s)"
    and "follows (word ''{'' @ concat (map p xs) @ word ''}'' @ s)"
    using assms(3) by (simp_all add: bracketed_run follows_word)
qed

lemma brace_facts: "\<not> ident_char (hd ''}'')"
  by (simp add: ident_char_def is_digit_def)

lemma keyword_word:
  "starts_word k \<Longrightarrow> follows s \<Longrightarrow> run (Match_String k No_Action) (word k @ s) = Some (Some s)"
  by (rule string_word)

lemma accepts_pre:
  assumes "\<forall>n\<in>set ns. good_condition n" and "follows s"
  shows "run (rules Capability_Pre) (word ''pre'' @ word ''{'' @ concat (map print_condition ns) @ word ''}'' @ s) =
      Some (Some s)"
    and "follows (word ''pre'' @ word ''{'' @ concat (map print_condition ns) @ word ''}'' @ s)"
proof -
  let ?a = "Match_Production Precondition (Member ''conditions'')"
  note b = accepts_block [of ns ?a print_condition s]
  have items: "run ?a (print_condition n @ t) = Some (Some t) \<and> follows (print_condition n @ t)"
    if "n \<in> set ns" "follows t" for n t
    using accepts_condition [OF _ that(2), of n] assms(1) that(1) by (simp add: production_law)
  have stop: "run ?a (word ''}'' @ s) = Some None"
    using condition_other [OF _ assms(2) brace_facts] by (simp add: production_law)
  show "run (rules Capability_Pre) (word ''pre'' @ word ''{'' @ concat (map print_condition ns) @ word ''}'' @ s) =
      Some (Some s)"
    using string_word [of "''pre''", OF _ b(2) [OF items stop assms(2)]] b(1) [OF items stop assms(2)]
    by (simp add: capability_pre_rules_def match_pre_def then_law)
  show "follows (word ''pre'' @ word ''{'' @ concat (map print_condition ns) @ word ''}'' @ s)"
    by (rule follows_word [OF _ b(2) [OF items stop assms(2)]]) simp_all
qed

lemma accepts_post:
  assumes "\<forall>a\<in>set xs. good_assignment a" and "follows s"
  shows "run (rules Capability_Post) (word ''post'' @ word ''{'' @ concat (map print_assignment xs) @ word ''}'' @ s) =
      Some (Some s)"
    and "follows (word ''post'' @ word ''{'' @ concat (map print_assignment xs) @ word ''}'' @ s)"
proof -
  let ?a = "Match_Parser Assignment (Member ''assignments'')"
  note b = accepts_block [of xs ?a print_assignment s]
  have items: "run ?a (print_assignment n @ t) = Some (Some t) \<and> follows (print_assignment n @ t)"
    if "n \<in> set xs" "follows t" for n t
    using accepts_assignment [OF _ that(2), of n] assms(1) that(1) by (simp add: parser_law)
  have stop: "run ?a (word ''}'' @ s) = Some None"
    using assignment_other [OF _ assms(2) brace_facts] by (simp add: parser_law)
  show "run (rules Capability_Post) (word ''post'' @ word ''{'' @ concat (map print_assignment xs) @ word ''}'' @ s) =
      Some (Some s)"
    using string_word [of "''post''", OF _ b(2) [OF items stop assms(2)]] b(1) [OF items stop assms(2)]
    by (simp add: capability_post_rules_def match_post_def then_law)
  show "follows (word ''post'' @ word ''{'' @ concat (map print_assignment xs) @ word ''}'' @ s)"
    by (rule follows_word [OF _ b(2) [OF items stop assms(2)]]) simp_all
qed

lemma accepts_capability:
  assumes "good_capability c" and "follows s"
  shows "run (rules Capability_Definition) (print_capability c @ s) = Some (Some s) \<and> follows (print_capability c @ s)"
proof -
  let ?post = "word ''post'' @ word ''{'' @ concat (map print_assignment (assignments (cap_post c))) @ word ''}''"
  let ?pre = "word ''pre'' @ word ''{'' @ concat (map print_condition (conditions (cap_pre c))) @ word ''}''"
  let ?t = "word '';'' @ s" and ?u = "word ''}'' @ word '';'' @ s"
  have name: "plain_identifier (cap_name c)" and pre: "\<forall>n\<in>set (conditions (cap_pre c)). good_condition n"
    and post: "\<forall>a\<in>set (assignments (cap_post c)). good_assignment a"
    using assms(1) by (simp_all add: good_capability_def)
  have t: "follows ?t" "follows ?u" using assms(2) by (simp_all add: follows_word)
  note p1 = accepts_post [OF post t(2)]
  note p2 = accepts_pre [OF pre p1(2)]
  let ?a = "Then (Match_Parser Capability_Pre (Member ''pre'')) (Match_Parser Capability_Post (Member ''post''))"
  have body: "run (Bracketed ?a) (word ''{'' @ (?pre @ ?post) @ word ''}'' @ ?t) = Some (Some ?t)"
    by (rule bracketed_run) (use p1 p2 t in \<open>simp_all add: then_law parser_law\<close>)
  have f1: "follows (word ''{'' @ ?pre @ ?post @ ?u)" using p2(2) by (simp add: follows_word)
  then have f2: "follows (word (cap_name c) @ word ''{'' @ ?pre @ ?post @ ?u)"
    by (rule follows_word [OF plain_facts(2) [OF name]])
  show ?thesis
    using string_word [of "''capability''", OF _ f2] identifier_word [OF plain_facts(1) [OF name] f1] body
      semicol_word [OF assms(2)] follows_word [of "''capability''", OF _ f2]
    by (simp add: print_capability_def capability_definition_rules_def match_capability_def then_law)
qed

section \<open>Actors and programs\<close>

lemma keyword_other:
  "starts_word w \<Longrightarrow> follows s \<Longrightarrow> k \<noteq> [] \<Longrightarrow> hd k \<noteq> hd w \<Longrightarrow> run (Then (Match_String k a) b) (word w @ s) = Some None"
  by (simp add: then_fails string_other_hd)

lemma capability_other:
  assumes "plain_identifier x" and "follows s"
  shows "run (rules Capability_Definition) (word x @ s) = Some None"
proof -
  have x: "is_identifier x" "\<not> prefix ''capability'' x" using assms(1) by (simp_all add: plain_identifier_def)
  have "run (Match_String ''capability'' No_Action) (word (x @ []) @ s) = Some None"
    by (rule string_other_word [OF x(1) _ assms(2) _ x(2)])
      (use plain_facts(2) [OF assms(1)] in \<open>auto simp: word_ends_def ident_char_def\<close>)
  then show ?thesis by (simp add: capability_definition_rules_def match_capability_def then_fails)
qed

abbreviation content_item :: rule where
  "content_item \<equiv> Or (Match_Parser Actor_Has (Member ''content'')) (Match_Parser Actor_Can (Member ''content''))"

lemma has_item:
  assumes "good_number (has_quantity h)" and "plain_identifier (has_id h)" and "follows s"
  shows "run (rules Actor_Has) (print_content (Has_Statement h) @ s) = Some (Some s)"
    and "follows (print_content (Has_Statement h) @ s)"
proof -
  have n: "unat (has_quantity h) < 2 ^ 31" using assms(1) by (simp add: good_number_def)
  note f1 = semicol_follows [OF assms(3)]
  note f2 = follows_word [OF plain_facts(2) [OF assms(2)] f1]
  note f3 = follows_word [OF number_starts f2, of "unat (has_quantity h)"]
  show "run (rules Actor_Has) (print_content (Has_Statement h) @ s) = Some (Some s)"
    using string_word [of "''has''", OF _ f3] number_word [OF n f2] identifier_word [OF plain_facts(1) [OF assms(2)] f1]
      semicol_word [OF assms(3)]
    by (simp add: actor_has_rules_def match_has_def then_law)
  show "follows (print_content (Has_Statement h) @ s)" using f3 by (simp add: follows_word)
qed

lemma has_other: "follows s \<Longrightarrow> run (rules Actor_Has) (word ''can'' @ s) = Some None"
  "follows s \<Longrightarrow> run (rules Actor_Has) (word ''}'' @ s) = Some None"
  by (simp_all add: actor_has_rules_def match_has_def then_fails string_other_hd)

lemma can_other: "follows s \<Longrightarrow> run (rules Actor_Can) (word ''}'' @ s) = Some None"
  by (simp add: actor_can_rules_def match_can_def then_fails string_other_hd)

lemma can_item:
  assumes "follows t" and "run (Or (Match_Production Capability_Definition Callback_Passthrough)
      (Then (Match_Identifier Callback_Capability_Identifier) Semicol)) t = Some (Some s)"
  shows "run content_item (word ''can'' @ t) = Some (Some s) \<and> follows (word ''can'' @ t)"
  using string_word [of "''can''", OF _ assms(1)] has_other(1) [OF assms(1)] assms
  by (simp add: or_law parser_law actor_can_rules_def match_can_def then_law follows_word)

lemma accepts_content:
  assumes "good_content d" and "follows s"
  shows "run content_item (print_content d @ s) = Some (Some s) \<and> follows (print_content d @ s)"
  using assms(1)
proof (cases d rule: good_content.cases)
  case (1 h)
  with has_item [OF _ _ assms(2), of h] assms(1) show ?thesis by (simp add: or_law parser_law del: print_content.simps)
next
  case (2 c)
  have g: "good_capability c" using assms(1) 2 by simp
  note c = accepts_capability [OF g assms(2)]
  have "run (Or (Match_Production Capability_Definition Callback_Passthrough)
      (Then (Match_Identifier Callback_Capability_Identifier) Semicol)) (print_capability c @ s) = Some (Some s)"
    using c by (simp add: or_law production_law)
  from can_item [OF conjunct2 [OF c] this] show ?thesis by (simp add: 2)
next
  case (3 i)
  have x: "plain_identifier (cap_id i)" using assms(1) 3 by simp
  note f1 = semicol_follows [OF assms(2)]
  note f2 = follows_word [OF plain_facts(2) [OF x] f1]
  have "run (Or (Match_Production Capability_Definition Callback_Passthrough)
      (Then (Match_Identifier Callback_Capability_Identifier) Semicol)) (word (cap_id i) @ word '';'' @ s) = Some (Some s)"
    using capability_other [OF x f1] identifier_word [OF plain_facts(1) [OF x] f1] semicol_word [OF assms(2)]
    by (simp add: or_law production_law then_law)
  from can_item [OF f2 this] show ?thesis by (simp add: 3)
qed simp_all

lemma accepts_actor:
  assumes "good_actor d" and "follows s"
  shows "run (rules Actor_Definition) (print_actor d @ s) = Some (Some s) \<and> follows (print_actor d @ s)"
proof -
  obtain name ds where d: "d = Custom_Data_Type name ds" and name: "plain_identifier name"
    and items: "\<forall>x\<in>set ds. good_content x"
    using assms(1) by (cases d) simp_all
  have t: "follows (word '';'' @ s)" by (rule semicol_follows [OF assms(2)])
  have stop: "run content_item (word ''}'' @ word '';'' @ s) = Some None"
    using has_other(2) [OF t] can_other [OF t] by (simp add: or_law parser_law)
  have item: "run content_item (print_content x @ u) = Some (Some u) \<and> follows (print_content x @ u)"
    if "x \<in> set ds" "follows u" for x u
    using accepts_content that items by blast
  note b = accepts_block [of ds content_item print_content "word '';'' @ s", OF item stop t]
  note f = follows_word [OF plain_facts(2) [OF name] b(2)]
  show ?thesis
    using string_word [of "''actor''", OF _ f] identifier_word [OF plain_facts(1) [OF name] b(2)] b(1)
      semicol_word [OF assms(2)] follows_word [of "''actor''", OF _ f]
    by (simp add: d actor_definition_rules_def match_actor_def then_law)
qed

abbreviation program_item :: rule where
  "program_item \<equiv>
     Or (Match_Parser Actor_Definition (Member ''actors'')) (Match_Parser Capability_Definition (Member ''capabilities''))"

lemma no_word_left: "run program_item [] = Some None"
  by (simp add: or_law parser_law actor_definition_rules_def capability_definition_rules_def match_actor_def
      match_capability_def then_fails string_fails skip_empty)

lemma capability_not_actor:
  "follows (print_capability c @ s) \<Longrightarrow> run (rules Actor_Definition) (print_capability c @ s) = Some None"
proof -
  let ?k = "''capability''"
  obtain t where c: "print_capability c @ s = word ?k @ t" by (simp add: print_capability_def)
  have "skip (word ?k @ t) = ?k @ t" by (simp add: word_def skip_space skip_visible visible_def is_space_def)
  then have "run match_actor (word ?k @ t) = Some None" by (simp add: match_actor_def string_fails)
  then show ?thesis by (simp add: c actor_definition_rules_def then_fails)
qed

lemma accepts_program:
  assumes "\<forall>d\<in>set actors. good_actor d" and "\<forall>c\<in>set capabilities. good_capability c"
  shows "run (rules Fabl) (print_program actors capabilities) = Some (Some [])"
proof -
  have "run program_item (print_capability c @ t) = Some (Some t) \<and> follows (print_capability c @ t)"
    if "c \<in> set capabilities" "follows t" for c t
    using accepts_capability [OF _ that(2), of c] capability_not_actor [of c t] assms(2) that(1)
    by (simp add: or_law parser_law)
  from list_items [where p = print_capability, OF this no_word_left]
  have caps: "run (List_Rule program_item) (concat (map print_capability capabilities)) = Some (Some [])"
    "follows (concat (map print_capability capabilities))" by simp_all
  have acts: "run program_item (print_actor d @ t) = Some (Some t) \<and> follows (print_actor d @ t)"
    if "d \<in> set actors" "follows t" for d t
    using accepts_actor [OF _ that(2), of d] assms(1) that(1) by (simp add: or_law parser_law)
  have "run (List_Rule program_item) (concat (map print_actor ds) @ u) = run (List_Rule program_item) u \<and>
      follows (concat (map print_actor ds) @ u)" if "follows u" "set ds \<subseteq> set actors" for ds u
    using that(2)
  proof (induction ds)
    case (Cons d ds)
    then show ?case using acts [of d "concat (map print_actor ds) @ u"] by (simp add: list_step)
  qed (simp add: that(1))
  from this [OF caps(2) order.refl] caps(1) show ?thesis
    by (simp add: print_program_def fabl_rules_def)
qed

end

end
