(* ===== verification/Fabl_Properties.thy ===== *)
theory Fabl_Properties
  imports Fabl_Programs
begin

text \<open>
  What the grammar of FABL accepts: every printed program, whole, and every operator the concrete syntax
  tree can convert but one.
\<close>

section \<open>Programs\<close>

text \<open>
  C9. The grammar reads every program that is printed from a concrete syntax tree, actors before
  capabilities, to its end: nothing of a printed program is left over or refused. The trees are those
  the language can write: identifiers that do not begin like a keyword the grammar tries first,
  numbers that are not negative, no modulo.
\<close>

theorem fabl_reads_printed_programs:
  assumes "copa run skip"
    and "\<forall>d\<in>set actors. good_actor d" and "\<forall>c\<in>set capabilities. good_capability c"
  shows "run (rules Fabl) (print_program actors capabilities) = Some (Some [])"
  by (rule copa.accepts_program [OF assms])

definition example_capability :: cst_capability where
  "example_capability =
     \<lparr> cap_name = ''walk'',
       cap_pre = \<lparr> conditions =
         [Ast_Node Cmp_GREATER_EQUAL
            (Leaf_Operand \<lparr> accessor_actor = ''self'', accessor_access = Some ''legs'' \<rparr>) (Integer_Operand 2)] \<rparr>,
       cap_post = \<lparr> assignments =
         [\<lparr> assignment_lhs = \<lparr> accessor_actor = ''self'', accessor_access = Some ''place'' \<rparr>,
            assignment_rhs = Ast_Node X_ADD (Identifier_Operand ''step'')
              (Sub_Node (Ast_Node X_MULTIPLY (Integer_Operand 3) (Identifier_Operand ''speed''))) \<rparr>] \<rparr> \<rparr>"

definition example_actor :: data_type where
  "example_actor =
     Custom_Data_Type ''human''
       [Has_Statement \<lparr> has_id = ''legs'', has_quantity = 2 \<rparr>, Capability_Identifier \<lparr> cap_id = ''walk'' \<rparr>]"

lemma example_good: "good_actor example_actor" "good_capability example_capability"
  by (simp_all add: example_actor_def example_capability_def good_capability_def good_assignment_def
      good_accessor_def good_number_def plain_identifier_def is_identifier_def ident_char_def is_digit_def)

theorem fabl_reads_printed_programs_witness:
  "peg (rules Fabl) (print_program [example_actor] [example_capability]) = Some (Some [])"
  by (rule fabl_reads_printed_programs [OF peg.copa_axioms]) (simp_all add: example_good)

section \<open>Operators\<close>

context copa begin

lemma string_symbols:
  assumes "\<not> ident_char (last w)"
  shows "run (Match_String w a) s = Some (if prefix w (skip s) then Some (drop (length w) (skip s)) else None)"
  using string_matches [of s w "drop (length w) (skip s)" a] string_fails [of w s a] assms
  by (auto simp: prefix_def)

end

lemma operator_symbols:
  "\<not> ident_char CHR ''+''" "\<not> ident_char CHR ''-''" "\<not> ident_char CHR ''*''" "\<not> ident_char CHR ''/''"
  "\<not> ident_char CHR ''=''" "\<not> ident_char CHR ''<''" "\<not> ident_char CHR ''>''" "\<not> ident_char CHR ''%''"
  by (simp_all add: ident_char_def is_digit_def)

text \<open>
  C30. The condition grammar accepts exactly the comparison operators: it matches when the text goes
  on with the token of an operator that the tree converts back to this operator, and takes the longer
  of two tokens where one begins with the other, so \<open>>=\<close> is never read as \<open>>\<close> before \<open>=\<close>.
\<close>

theorem fabl_condition_tokens:
  assumes "copa run skip"
  shows "run (rules Condition) s = Some (Some t) \<longleftrightarrow>
    (\<exists>c. compare_of_token (compare_token c) = c \<and> c \<noteq> Cmp_INVALID \<and> skip s = compare_token c @ t \<and>
         (c \<in> {Cmp_GREATER, Cmp_LESS} \<longrightarrow> \<not> prefix ''='' t))"
proof -
  have ex: "(\<exists>c. P c) \<longleftrightarrow> P Cmp_INVALID \<or> P Cmp_GREATER \<or> P Cmp_GREATER_EQUAL \<or> P Cmp_LESS \<or> P Cmp_LESS_EQUAL \<or>
      P Cmp_EQUAL \<or> P Cmp_DIFFERENT" for P
    by (metis compare_operator.exhaust)
  show ?thesis
    unfolding ex
    by (cases "skip s"; cases "tl (skip s)")
      (auto simp: condition_rules_def copa.or_law [OF assms] copa.string_symbols [OF assms] operator_symbols
        compare_of_token_def)
qed

theorem fabl_condition_tokens_witness: "peg (rules Condition) '' >= 2'' = Some (Some '' 2'')"
  unfolding fabl_condition_tokens [OF peg.copa_axioms]
  by (rule exI [of _ Cmp_GREATER_EQUAL]) (simp add: compare_of_token_def skip_ws_def is_space_def)

text \<open>
  The arithmetic operators: multiplication and division are level two, with the higher precedence,
  addition and subtraction level one, and each token is converted back to the operator it stands for.
  The tree also converts \<open>%\<close> to the modulo operator, but no grammar of an expression reads it.
\<close>

theorem fabl_arithmetic_tokens:
  assumes "copa run skip"
  shows "(run (rules Level_1) s = Some (Some t) \<longleftrightarrow> (\<exists>op\<in>{X_ADD, X_SUBTRACT}. skip s = operator_token op @ t)) \<and>
    (run (rules Level_2) s = Some (Some t) \<longleftrightarrow> (\<exists>op\<in>{X_MULTIPLY, X_DIVIDE}. skip s = operator_token op @ t)) \<and>
    (op = X_NONE \<or> operator_of_token (operator_token op) = op) \<and>
    (\<exists>p q. convertor Level_1 = Ast_Tree_Generator p \<and> convertor Level_2 = Ast_Tree_Generator q \<and> p < q) \<and>
    (skip s = operator_token X_MODULO @ t \<longrightarrow> run (rules Expr) s = Some (Some s))"
proof (intro conjI impI)
  show "run (rules Level_1) s = Some (Some t) \<longleftrightarrow> (\<exists>op\<in>{X_ADD, X_SUBTRACT}. skip s = operator_token op @ t)"
    and "run (rules Level_2) s = Some (Some t) \<longleftrightarrow> (\<exists>op\<in>{X_MULTIPLY, X_DIVIDE}. skip s = operator_token op @ t)"
    by (cases "skip s";
        auto simp: level_1_rules_def level_2_rules_def copa.or_law [OF assms] copa.string_symbols [OF assms]
          operator_symbols)+
  show "op = X_NONE \<or> operator_of_token (operator_token op) = op"
    by (cases op) (simp_all add: operator_of_token_def)
  show "\<exists>p q. convertor Level_1 = Ast_Tree_Generator p \<and> convertor Level_2 = Ast_Tree_Generator q \<and> p < q"
    by simp
  assume s: "skip s = operator_token X_MODULO @ t"
  have word: "run (Match_String w a) s = Some None" if "w \<noteq> []" "hd w \<noteq> CHR ''%''" for w a
    by (rule copa.string_fails [OF assms]) (use that s in \<open>auto simp: neq_Nil_conv\<close>)
  have other: "run (Match_Identifier a) s = Some None" "run (Match_Number a) s = Some None" for a
    using s by (auto simp: operator_symbols is_digit_def
        intro!: copa.identifier_fails [OF assms] copa.number_fails [OF assms])
  have "run (rules Base) s = Some None"
    using word other
    by (simp add: base_rules_def bool_literal_rules_def strict_member_accessor_rules_def copa.or_law [OF assms]
        copa.production_law [OF assms] copa.then_fails [OF assms] copa.parenthesised_law [OF assms]
        copa.char_law [OF assms] s)
  then have "run expression_item s = Some None"
    using word by (simp add: copa.or_law [OF assms] copa.parser_law [OF assms] level_1_rules_def level_2_rules_def)
  then show "run (rules Expr) s = Some (Some s)" by (simp add: expression_rules_def copa.list_stop [OF assms])
qed

theorem fabl_arithmetic_tokens_witness:
  "peg (rules Level_2) '' * 2'' = Some (Some '' 2'') \<and> peg (rules Expr) ''% 2'' = Some (Some ''% 2'')"
  using fabl_arithmetic_tokens [OF peg.copa_axioms, of "'' * 2''" "'' 2''" X_ADD]
    fabl_arithmetic_tokens [OF peg.copa_axioms, of "''% 2''" "'' 2''" X_ADD]
  by (simp add: skip_ws_def is_space_def)

end
