(* ===== verification/Agent_Protocol.thy ===== *)
theory Agent_Protocol
  imports Acl "HOL-Library.List_Lexorder" "HOL-Library.Char_ord"
begin

text \<open>
  \<open>fabko/agent/protocol/fap_request.hh\<close>, \<open>agent_com.hh\<close> and its two implementations,
  \<open>fabko/agent/action.hh\<close> and \<open>blackboard.hh\<close>: the data of requests, propositions and actions, and the
  operations of communications and blackboards, which the source leaves as stubs.
\<close>

section \<open>Requests\<close>

datatype comparator = Lesser_Or_Eq | Lesser_Than | Greater_Than | Greater_Or_Eq | Fap_Eq

datatype status = Awaiting | On_Going | Done_Status | Wont_Do | Cancelled_Status

fun status_code :: "status \<Rightarrow> nat" where
  "status_code Awaiting = 0"
| "status_code On_Going = 1"
| "status_code Done_Status = 2"
| "status_code Wont_Do = 3"
| "status_code Cancelled_Status = 4"

datatype fap_resource = Fap_Resource (fap_resource_name : string)

text \<open>The defaulted comparison compares the names, and names compare by their bytes.\<close>

definition resource_at_most :: "fap_resource \<Rightarrow> fap_resource \<Rightarrow> bool" where
  "resource_at_most a b \<longleftrightarrow> fap_resource_name a \<le> fap_resource_name b"

definition resource_below :: "fap_resource \<Rightarrow> fap_resource \<Rightarrow> bool" where
  "resource_below a b \<longleftrightarrow> fap_resource_name a < fap_resource_name b"

instantiation fap_resource :: linorder
begin

definition less_eq_fap_resource :: "fap_resource \<Rightarrow> fap_resource \<Rightarrow> bool" where
  "less_eq_fap_resource = resource_at_most"

definition less_fap_resource :: "fap_resource \<Rightarrow> fap_resource \<Rightarrow> bool" where
  "less_fap_resource = resource_below"

instance
  by standard (auto simp: less_eq_fap_resource_def less_fap_resource_def resource_at_most_def
      resource_below_def fap_resource.expand)

end

record fap_option =
  option_resource :: fap_resource
  importance :: "32 word"
  cmp :: comparator

record fap_request =
  emitter :: string
  request_text :: string
  request_options :: "fap_option list"

section \<open>Communication\<close>

type_synonym fap_proposition = string

record propositions =
  props :: "fap_proposition list option"
  propositions_status :: status

definition default_propositions :: propositions where
  "default_propositions = \<lparr>props = None, propositions_status = Awaiting\<rparr>"

datatype decision_status = Decision_Success | Decision_Retry | Decision_Cancelled

text \<open>
  The variant of the two communications; the local one holds a ring of agents that nothing fills. A
  future is what it will hold, or \<open>None\<close> without a shared state: the only one the stubs make.
\<close>

datatype 'a agent_com = Local_Com "'a list" | P2p_Com

definition make_local_com :: "'a agent_com" where
  "make_local_com = Local_Com []"

fun instantiate_blackboard :: "'a agent_com \<Rightarrow> message \<Rightarrow> string" where
  "instantiate_blackboard (Local_Com ring) m = []"
| "instantiate_blackboard P2p_Com m = []"

fun request_propositions :: "'a agent_com \<Rightarrow> message \<Rightarrow> propositions option" where
  "request_propositions (Local_Com ring) m = None"
| "request_propositions P2p_Com m = None"

fun commit_decision :: "'a agent_com \<Rightarrow> message \<Rightarrow> decision_status" where
  "commit_decision (Local_Com ring) m = Decision_Retry"
| "commit_decision P2p_Com m = Decision_Retry"

section \<open>Blackboards and actions\<close>

record blackboard_data =
  initial_request :: fap_request
  board_propositions :: propositions

record 'a blackboard =
  board_com :: "'a agent_com"
  board_data :: blackboard_data

definition make_blackboard :: "'a agent_com \<Rightarrow> fap_request \<Rightarrow> 'a blackboard" where
  "make_blackboard bc req =
     \<lparr>board_com = bc, board_data = \<lparr>initial_request = req, board_propositions = default_propositions\<rparr>\<rparr>"

text \<open>The visit calls the communication and drops the name it returns.\<close>

definition instantiate_black_board :: "'a blackboard \<Rightarrow> message \<Rightarrow> blackboard_data" where
  "instantiate_black_board b m = (let _ = instantiate_blackboard (board_com b) m in board_data b)"

definition board_request_propositions :: "'a blackboard \<Rightarrow> message \<Rightarrow> propositions" where
  "board_request_propositions b m = default_propositions"

text \<open>A value-initialised \<open>decision_status\<close> is its first enumerator.\<close>

definition submit_decision :: "'a blackboard \<Rightarrow> message \<Rightarrow> decision_status" where
  "submit_decision b m = Decision_Success"

datatype action_source = Automatic | Manual

record agent_action =
  action_id :: "32 word"
  source :: action_source
  action_request :: fap_request
  action_status :: status

text \<open>A blackboard reports success for a decision that its communication asks to retry.\<close>

lemma board_ignores_communication:
  "submit_decision (make_blackboard bc req) m = Decision_Success \<and> commit_decision bc m = Decision_Retry \<and>
   instantiate_black_board (make_blackboard bc req) m = board_data (make_blackboard bc req)"
  by (cases bc) (simp_all add: submit_decision_def instantiate_black_board_def)

end
