(* ===== verification/Agent_Runner.thy ===== *)
theory Agent_Runner
  imports Acl
begin

text \<open>
  \<open>fabko/agent/agent.hh\<close> and \<open>agent.cpp\<close>: agents and the runner that executes them on a thread of its
  own. The threads are a step relation: the caller of \<open>run\<close> and the threads it started take steps in
  any order. What is visible of a thread is where it is in its loop, whether it was asked to stop and
  which agents it executed. Sleeping between two agents is left out.
\<close>

section \<open>Agents and threads\<close>

record agent =
  callback_on_action :: "message option \<Rightarrow> message list"

text \<open>The body of \<open>execute\<close> is a comment.\<close>

definition execute_agent :: "agent \<Rightarrow> agent" where
  "execute_agent a = a"

text \<open>The thread is at the test of its loop, before an agent, or at its end.\<close>

datatype thread_position = At_Test | At_Agent nat | Finished

record runner_thread =
  thread_at :: thread_position
  stop_requested :: bool
  visited :: "nat list"

definition new_thread :: runner_thread where
  "new_thread = \<lparr>thread_at = At_Test, stop_requested = False, visited = []\<rparr>"

definition request_stop :: "runner_thread \<Rightarrow> runner_thread" where
  "request_stop t = t\<lparr>stop_requested := True\<rparr>"

definition thread_step :: "nat \<Rightarrow> runner_thread \<Rightarrow> runner_thread" where
  "thread_step n t =
     (case thread_at t of
        At_Test \<Rightarrow> t\<lparr>thread_at := (if stop_requested t then Finished else At_Agent 0)\<rparr>
      | At_Agent i \<Rightarrow>
          if i < n then t\<lparr>thread_at := At_Agent (Suc i), visited := visited t @ [i]\<rparr>
          else t\<lparr>thread_at := At_Test\<rparr>
      | Finished \<Rightarrow> t)"

section \<open>The runner\<close>

text \<open>
  The caller is idle, or in \<open>run\<close> after the request to stop, or in \<open>run\<close> joining the thread it swapped
  out, which the destructor of the temporary \<open>jthread\<close> does. \<open>raced\<close> records that the vector of agents
  was changed while a thread could read it.
\<close>

datatype caller = Idle | Stopping | Joining

record agent_runner =
  runner_agents :: "agent list"
  runner_thread_member :: "runner_thread option"
  leaving_thread :: "runner_thread option"
  runner_caller :: caller
  raced :: bool

definition new_runner :: agent_runner where
  "new_runner =
     \<lparr>runner_agents = [], runner_thread_member = None, leaving_thread = None, runner_caller = Idle,
      raced = False\<rparr>"

definition running :: "runner_thread option \<Rightarrow> bool" where
  "running t \<longleftrightarrow> (\<exists>u. t = Some u \<and> thread_at u \<noteq> Finished)"

lemma running_simps [simp, code]: "running None \<longleftrightarrow> False" "running (Some u) \<longleftrightarrow> thread_at u \<noteq> Finished"
  by (simp_all add: running_def)

text \<open>
  \<open>raced\<close> is a mark of the model: the operations that change the vector of agents set it when a thread
  that has not ended may be reading the vector at that time. The accesses themselves are not modelled one
  by one.
\<close>

definition add_agent :: "agent \<Rightarrow> agent_runner \<Rightarrow> agent_runner" where
  "add_agent a r =
     r\<lparr>runner_agents := runner_agents r @ [a],
       raced := raced r \<or> running (runner_thread_member r) \<or> running (leaving_thread r)\<rparr>"

text \<open>
  \<open>run\<close>: the request to stop; the new thread, swapped with the old one; the end of the join. The start of
  the thread, the swap and the request to stop of the destructor are one step: between them the old
  thread, already asked to stop, could only go on with its round.
\<close>

definition run_request_stop :: "agent_runner \<Rightarrow> agent_runner" where
  "run_request_stop r =
     r\<lparr>runner_thread_member := map_option request_stop (runner_thread_member r), runner_caller := Stopping\<rparr>"

definition run_swap :: "agent_runner \<Rightarrow> agent_runner" where
  "run_swap r =
     r\<lparr>leaving_thread := map_option request_stop (runner_thread_member r),
       runner_thread_member := Some new_thread, runner_caller := Joining\<rparr>"

definition run_joined :: "agent_runner \<Rightarrow> agent_runner" where
  "run_joined r = r\<lparr>leaving_thread := None, runner_caller := Idle\<rparr>"

text \<open>
  The implicit destructor destroys the members in the reverse order of their declaration: the agents
  go first, then the thread is asked to stop and joined.
\<close>

definition destroy_runner :: "agent_runner \<Rightarrow> agent_runner" where
  "destroy_runner r =
     r\<lparr>runner_agents := [], raced := raced r \<or> running (runner_thread_member r),
       runner_thread_member := map_option request_stop (runner_thread_member r)\<rparr>"

inductive runner_step :: "agent_runner \<Rightarrow> agent_runner \<Rightarrow> bool" where
  member_runs: "runner_thread_member r = Some t \<Longrightarrow>
    runner_step r (r\<lparr>runner_thread_member := Some (thread_step (length (runner_agents r)) t)\<rparr>)"
| leaving_runs: "leaving_thread r = Some t \<Longrightarrow>
    runner_step r (r\<lparr>leaving_thread := Some (thread_step (length (runner_agents r)) t)\<rparr>)"
| adds: "runner_caller r = Idle \<Longrightarrow> runner_step r (add_agent a r)"
| requests_stop: "runner_caller r = Idle \<Longrightarrow> runner_step r (run_request_stop r)"
| swaps: "runner_caller r = Stopping \<Longrightarrow> runner_step r (run_swap r)"
| joins: "runner_caller r = Joining \<Longrightarrow> \<not> running (leaving_thread r) \<Longrightarrow> runner_step r (run_joined r)"

definition reachable_runner :: "agent_runner \<Rightarrow> bool" where
  "reachable_runner r \<longleftrightarrow> runner_step\<^sup>*\<^sup>* new_runner r"

lemma reachable_runner_induct [consumes 1, case_names start step]:
  assumes "reachable_runner r" and "P new_runner"
    and "\<And>r r'. reachable_runner r \<Longrightarrow> P r \<Longrightarrow> runner_step r r' \<Longrightarrow> P r'"
  shows "P r"
  using assms(1) unfolding reachable_runner_def
  by (induction rule: rtranclp_induct) (use assms(2,3) in \<open>auto simp: reachable_runner_def\<close>)

lemma reachable_step: "reachable_runner r \<Longrightarrow> runner_step r r' \<Longrightarrow> reachable_runner r'"
  unfolding reachable_runner_def by (rule rtranclp.rtrancl_into_rtrancl)

lemma reachable_new [simp]: "reachable_runner new_runner"
  by (simp add: reachable_runner_def)

section \<open>The rounds of a thread\<close>

text \<open>Some whole rounds over \<open>n\<close> agents and the beginning of another.\<close>

definition position_index :: "thread_position \<Rightarrow> nat" where
  "position_index p = (case p of At_Agent i \<Rightarrow> i | _ \<Rightarrow> 0)"

definition in_rounds :: "nat \<Rightarrow> runner_thread \<Rightarrow> bool" where
  "in_rounds n t \<longleftrightarrow>
     position_index (thread_at t) \<le> n \<and>
     (\<exists>k. visited t = concat (replicate k [0..<n]) @ [0..<position_index (thread_at t)])"

lemma rounds_snoc: "concat (replicate k xs) @ xs = concat (replicate (Suc k) xs)"
  by (induction k) simp_all

lemma in_rounds_new [simp]: "in_rounds n new_thread"
  by (auto simp: in_rounds_def new_thread_def position_index_def intro: exI [of _ 0])

lemma in_rounds_stop [simp]: "in_rounds n (request_stop t) \<longleftrightarrow> in_rounds n t"
  by (simp add: in_rounds_def request_stop_def)

lemma in_rounds_step:
  assumes "in_rounds n t"
  shows "in_rounds n (thread_step n t)"
proof (cases "thread_at t")
  case (At_Agent i)
  then obtain k where k: "visited t = concat (replicate k [0..<n]) @ [0..<i]" "i \<le> n"
    using assms by (auto simp: in_rounds_def position_index_def)
  show ?thesis
  proof (cases "i < n")
    case True
    then show ?thesis using k by (auto simp: in_rounds_def position_index_def thread_step_def At_Agent)
  next
    case False
    then have "visited t = concat (replicate (Suc k) [0..<n])"
      using k rounds_snoc [of k "[0..<n]"] by (simp add: le_antisym)
    then show ?thesis using False
      by (auto simp: in_rounds_def position_index_def thread_step_def At_Agent intro!: exI [of _ "Suc k"])
  qed
qed (use assms in \<open>auto simp: in_rounds_def position_index_def thread_step_def\<close>)

section \<open>The invariant of the runner\<close>

definition runner_inv :: "agent_runner \<Rightarrow> bool" where
  "runner_inv r \<longleftrightarrow>
     (leaving_thread r \<noteq> None \<longrightarrow> runner_caller r = Joining) \<and>
     (\<forall>t. leaving_thread r = Some t \<longrightarrow> stop_requested t) \<and>
     (\<forall>t. runner_thread_member r = Some t \<longrightarrow>
        (stop_requested t \<longleftrightarrow> runner_caller r = Stopping) \<and> (thread_at t = Finished \<longrightarrow> stop_requested t)) \<and>
     (\<not> raced r \<longrightarrow>
        (\<forall>t. runner_thread_member r = Some t \<longrightarrow> in_rounds (length (runner_agents r)) t) \<and>
        (\<forall>t. leaving_thread r = Some t \<longrightarrow> in_rounds (length (runner_agents r)) t))"

lemma thread_step_stop [simp]: "stop_requested (thread_step n t) = stop_requested t"
  by (simp add: thread_step_def split: thread_position.split)

lemma thread_step_finished: "thread_at (thread_step n t) = Finished \<Longrightarrow> thread_at t = Finished \<or> stop_requested t"
  by (auto simp: thread_step_def split: thread_position.splits if_splits)

lemma runner_inv_step:
  assumes "runner_inv r" and "runner_step r r'"
  shows "runner_inv r'"
  using assms(2)
proof (cases rule: runner_step.cases)
  case (member_runs t)
  then show ?thesis using assms(1) thread_step_finished
    by (auto simp: runner_inv_def in_rounds_step)
next
  case (leaving_runs t)
  then show ?thesis using assms(1) by (auto simp: runner_inv_def in_rounds_step)
next
  case (adds a)
  then show ?thesis using assms(1) by (auto simp: runner_inv_def add_agent_def running_def)
next
  case requests_stop
  then show ?thesis using assms(1)
    by (auto simp: runner_inv_def run_request_stop_def) (auto simp: request_stop_def)
next
  case swaps
  then show ?thesis using assms(1)
    by (auto simp: runner_inv_def run_swap_def) (auto simp: request_stop_def new_thread_def)
next
  case joins
  then show ?thesis using assms(1) by (auto simp: runner_inv_def run_joined_def)
qed

lemma reachable_runner_inv: "reachable_runner r \<Longrightarrow> runner_inv r"
proof (induction rule: reachable_runner_induct)
  case start
  then show ?case by (simp add: runner_inv_def new_runner_def)
next
  case (step r r')
  then show ?case by (blast intro: runner_inv_step)
qed

section \<open>How a thread ends\<close>

lemma step_finished: "thread_at t = Finished \<Longrightarrow> (thread_step n ^^ j) t = t"
  by (induction j) (simp_all add: thread_step_def)

lemma stopped_from_test:
  "thread_at t = At_Test \<Longrightarrow> stop_requested t \<Longrightarrow> (thread_step n ^^ Suc j) t = t\<lparr>thread_at := Finished\<rparr>"
  unfolding funpow_Suc_right by (simp add: thread_step_def step_finished)

lemma stopped_from_agent:
  assumes "thread_at t = At_Agent i" and "i \<le> n" and "stop_requested t"
  shows "(thread_step n ^^ (n - i + 2)) t = t\<lparr>thread_at := Finished, visited := visited t @ [i..<n]\<rparr>"
  using assms
proof (induction "n - i" arbitrary: i t)
  case 0
  then show ?case by (simp add: numeral_2_eq_2 thread_step_def)
next
  case (Suc m)
  let ?t = "t\<lparr>thread_at := At_Agent (Suc i), visited := visited t @ [i]\<rparr>"
  have i: "i < n" "m = n - Suc i" using Suc.hyps(2) by simp_all
  have step: "thread_step n t = ?t" using Suc.prems i by (simp add: thread_step_def)
  have "(thread_step n ^^ (n - i + 2)) t = (thread_step n ^^ (n - Suc i + 2)) ?t"
    using i Suc.hyps(2) by (simp add: step funpow_Suc_right del: funpow.simps flip: Suc.hyps(2))
  also have "\<dots> = ?t\<lparr>thread_at := Finished, visited := visited ?t @ [Suc i..<n]\<rparr>"
    by (rule Suc.hyps(1) [OF i(2)]) (use Suc.prems i in simp_all)
  finally show ?case using i by (simp add: upt_conv_Cons)
qed

lemma stopped_ends:
  assumes "stop_requested t" and "position_index (thread_at t) \<le> n"
  shows "(thread_step n ^^ (n + 2)) t =
    t\<lparr>thread_at := Finished,
      visited := visited t @ (case thread_at t of At_Agent i \<Rightarrow> [i..<n] | _ \<Rightarrow> [])\<rparr>"
proof (cases "thread_at t")
  case At_Test
  then show ?thesis using stopped_from_test [where n = n and j = "n + 1", of t] assms(1) by (simp del: funpow.simps)
next
  case (At_Agent i)
  then have i: "i \<le> n" using assms(2) by (simp add: position_index_def)
  then have sum: "n + 2 = i + (n - i + 2)" by simp
  have "(thread_step n ^^ (n + 2)) t = (thread_step n ^^ i) ((thread_step n ^^ (n - i + 2)) t)"
    unfolding sum by (simp only: funpow_add o_apply)
  then show ?thesis
    unfolding stopped_from_agent [OF At_Agent i assms(1)] by (simp add: step_finished At_Agent)
next
  case Finished
  then show ?thesis by (simp add: step_finished [OF Finished] del: funpow.simps)
qed

lemma not_stopped_goes_on:
  assumes "\<not> stop_requested t" and "thread_at t \<noteq> Finished"
  shows "thread_at ((thread_step n ^^ j) t) \<noteq> Finished"
proof -
  have "thread_at ((thread_step n ^^ j) t) \<noteq> Finished \<and> \<not> stop_requested ((thread_step n ^^ j) t)"
    using assms by (induction j) (auto dest: thread_step_finished)
  then show ?thesis by blast
qed

section \<open>The properties\<close>

text \<open>
  C31. In every reachable state: between two calls the thread of the runner has not ended and no other
  thread is left; a thread that \<open>run\<close> joins was asked to stop; and while agents are added only when no
  thread runs, every thread executes the agents in rounds, all of them in their order in each round.
\<close>

theorem agent_runner_rounds:
  assumes "reachable_runner r"
  shows "(runner_caller r = Idle \<longrightarrow>
      leaving_thread r = None \<and> (\<forall>t. runner_thread_member r = Some t \<longrightarrow> thread_at t \<noteq> Finished)) \<and>
    (\<forall>t. leaving_thread r = Some t \<longrightarrow> stop_requested t) \<and>
    (\<not> raced r \<longrightarrow>
      (\<forall>t\<in>set_option (runner_thread_member r) \<union> set_option (leaving_thread r).
         \<exists>k i. i \<le> length (runner_agents r) \<and>
           visited t = concat (replicate k [0..<length (runner_agents r)]) @ [0..<i]))"
proof -
  have inv: "runner_inv r" by (rule reachable_runner_inv [OF assms])
  have "\<exists>k i. i \<le> n \<and> visited t = concat (replicate k [0..<n]) @ [0..<i]" if "in_rounds n t" for n t
    using that unfolding in_rounds_def by blast
  moreover have "\<not> raced r \<longrightarrow>
      (\<forall>t\<in>set_option (runner_thread_member r) \<union> set_option (leaving_thread r).
         in_rounds (length (runner_agents r)) t)"
    using inv by (auto simp: runner_inv_def)
  ultimately show ?thesis using inv by (auto simp: runner_inv_def)
qed

text \<open>An agent, and a runner with two of them and one round behind it.\<close>

definition example_agent :: agent where
  "example_agent = \<lparr>callback_on_action = (\<lambda>_. [])\<rparr>"

definition two_agents :: agent_runner where
  "two_agents = add_agent example_agent (add_agent example_agent new_runner)"

definition two_agents_running :: agent_runner where
  "two_agents_running = run_joined (run_swap (run_request_stop two_agents))"

definition one_round_later :: agent_runner where
  "one_round_later =
     two_agents_running\<lparr>runner_thread_member := Some ((thread_step 2 ^^ 5) new_thread)\<rparr>"

lemma two_agents_reachable: "reachable_runner two_agents_running"
proof -
  have "reachable_runner two_agents"
    unfolding two_agents_def
    by (rule reachable_step [OF reachable_step [OF reachable_new adds] adds])
      (simp_all add: new_runner_def add_agent_def)
  then have "reachable_runner (run_swap (run_request_stop two_agents))"
    by (rule reachable_step [OF reachable_step [OF _ requests_stop] swaps])
      (simp_all add: two_agents_def new_runner_def add_agent_def run_request_stop_def)
  then show ?thesis
    unfolding two_agents_running_def
    by (rule reachable_step [OF _ joins])
      (simp_all add: two_agents_def new_runner_def add_agent_def run_request_stop_def run_swap_def)
qed

lemma reachable_member_runs:
  assumes "reachable_runner r" and "runner_thread_member r = Some t"
  shows "reachable_runner (r\<lparr>runner_thread_member := Some ((thread_step (length (runner_agents r)) ^^ j) t)\<rparr>)"
proof (induction j)
  case 0
  have "r\<lparr>runner_thread_member := Some t\<rparr> = r" using assms(2) by (cases r) simp
  then show ?case using assms(1) by simp
next
  case (Suc j)
  from reachable_step [OF Suc member_runs] show ?case by simp
qed

lemma two_agents_thread:
  "runner_thread_member two_agents_running = Some new_thread" "length (runner_agents two_agents_running) = 2"
  "raced two_agents_running = False" "runner_caller two_agents_running = Idle"
  by (simp_all add: two_agents_running_def two_agents_def add_agent_def new_runner_def run_request_stop_def
      run_swap_def run_joined_def)

lemma one_round_reachable: "reachable_runner one_round_later"
  using reachable_member_runs [OF two_agents_reachable two_agents_thread(1), of 5]
  by (simp add: one_round_later_def two_agents_thread)

theorem agent_runner_rounds_witness:
  "\<exists>k i. i \<le> 2 \<and> visited ((thread_step 2 ^^ 5) new_thread) = concat (replicate k [0..<2]) @ [0..<i]"
  using agent_runner_rounds [OF one_round_reachable] by (simp add: one_round_later_def two_agents_thread)

text \<open>
  C32. \<open>run\<close> gets out of its join: with \<open>n\<close> agents the thread it joins ends after at most \<open>n + 2\<close> of its
  own steps, in which it executes the agents left of its round and no other. The thread of the runner
  itself never ends before it is asked to.
\<close>

theorem agent_runner_join_ends:
  assumes "reachable_runner r" and "\<not> raced r" and "leaving_thread r = Some t"
  shows "(thread_step (length (runner_agents r)) ^^ (length (runner_agents r) + 2)) t =
      t\<lparr>thread_at := Finished,
        visited := visited t @ (case thread_at t of At_Agent i \<Rightarrow> [i..<length (runner_agents r)] | _ \<Rightarrow> [])\<rparr> \<and>
    (\<forall>u j. runner_thread_member r = Some u \<longrightarrow>
       thread_at ((thread_step (length (runner_agents r)) ^^ j) u) \<noteq> Finished)"
proof -
  have inv: "runner_inv r" by (rule reachable_runner_inv [OF assms(1)])
  then have t: "stop_requested t" "in_rounds (length (runner_agents r)) t"
    using assms(2,3) by (simp_all add: runner_inv_def)
  have "thread_at ((thread_step n ^^ j) u) \<noteq> Finished" if "runner_thread_member r = Some u" for n u j
    by (rule not_stopped_goes_on) (use inv assms(3) that in \<open>auto simp: runner_inv_def\<close>)
  then show ?thesis using stopped_ends [OF t(1)] t(2) by (simp add: in_rounds_def)
qed

lemma second_run_reachable:
  "reachable_runner (run_swap (run_request_stop one_round_later))"
  by (rule reachable_step [OF reachable_step [OF one_round_reachable requests_stop] swaps])
    (simp_all add: one_round_later_def two_agents_thread run_request_stop_def)

theorem agent_runner_join_ends_witness:
  "thread_at ((thread_step 2 ^^ 4) (request_stop ((thread_step 2 ^^ 5) new_thread))) = Finished"
proof -
  let ?r = "run_swap (run_request_stop one_round_later)"
  have stop: "request_stop (request_stop t) = request_stop t" for t by (simp add: request_stop_def)
  have "leaving_thread ?r = Some (request_stop ((thread_step 2 ^^ 5) new_thread))" "\<not> raced ?r"
    "length (runner_agents ?r) = 2"
    by (simp_all add: run_swap_def run_request_stop_def one_round_later_def two_agents_thread stop)
  with agent_runner_join_ends [OF second_run_reachable, of "request_stop ((thread_step 2 ^^ 5) new_thread)"]
  show ?thesis by simp
qed

text \<open>
  C33. Once \<open>run\<close> was called the agents are not safe: to add an agent changes the vector the thread
  iterates over, to destroy the runner destroys the vector before the thread is joined, and to call
  \<open>run\<close> again starts the new thread while the old one is still executing agents.
\<close>

theorem agent_runner_races:
  assumes "reachable_runner r" and "runner_caller r = Idle" and "runner_thread_member r = Some t"
  shows "raced (add_agent a r) \<and> raced (destroy_runner r) \<and>
    (\<exists>r'. runner_step\<^sup>*\<^sup>* r r' \<and> running (runner_thread_member r') \<and> running (leaving_thread r'))"
proof -
  have "runner_inv r" by (rule reachable_runner_inv [OF assms(1)])
  then have t: "thread_at t \<noteq> Finished" using assms(2,3) by (auto simp: runner_inv_def)
  have "runner_step r (run_request_stop r)" by (rule requests_stop [OF assms(2)])
  moreover have "runner_step (run_request_stop r) (run_swap (run_request_stop r))"
    by (rule swaps) (simp add: run_request_stop_def)
  ultimately have "runner_step\<^sup>*\<^sup>* r (run_swap (run_request_stop r))" by auto
  moreover have "running (runner_thread_member (run_swap (run_request_stop r)))"
    "running (leaving_thread (run_swap (run_request_stop r)))"
    using t assms(3) by (simp_all add: run_swap_def run_request_stop_def request_stop_def new_thread_def)
  ultimately show ?thesis using t assms(3) by (auto simp: add_agent_def destroy_runner_def)
qed

theorem agent_runner_races_witness: "raced (destroy_runner two_agents_running)"
  using agent_runner_races [OF two_agents_reachable two_agents_thread(4,1)] by blast

end
