(* ===== verification/Fabko_Cli.thy ===== *)
theory Fabko_Cli
  imports Fabko_Exception
begin

text \<open>
  \<open>fabko/common/logging.hh\<close>, \<open>logging.cpp\<close>, \<open>cli_base.hh\<close> and \<open>fabko.cpp\<close>: the logger every other part
  writes to, and the program that sets it up from its options. The registry of loggers of spdlog is
  the state; how a file is opened and how a level is read from text are spdlog's and parameters. What
  a call of a log function writes is what it returns.
\<close>

section \<open>Loggers\<close>

datatype log_level = Level_Trace | Level_Debug | Level_Info | Level_Warn | Level_Err | Level_Critical | Level_Off

fun level_rank :: "log_level \<Rightarrow> nat" where
  "level_rank Level_Trace = 0"
| "level_rank Level_Debug = 1"
| "level_rank Level_Info = 2"
| "level_rank Level_Warn = 3"
| "level_rank Level_Err = 4"
| "level_rank Level_Critical = 5"
| "level_rank Level_Off = 6"

datatype log_sink = Console_Sink | File_Sink string

record logger =
  logger_sinks :: "log_sink list"
  logger_pattern :: string
  logger_level :: log_level

type_synonym registry = "string \<rightharpoonup> logger"

definition global_logger_name :: string where
  "global_logger_name = ''fabko''"

definition pattern_of_fabko :: string where
  "pattern_of_fabko = ''[%Y-%m-%d %H:%M:%S:%e][fabko][%=7l%$]: %v''"

definition get_env_log :: log_level where
  "get_env_log = Level_Trace"

definition init_logger ::
    "(string \<Rightarrow> unit fallible) \<Rightarrow> log_level \<Rightarrow> string \<Rightarrow> registry \<Rightarrow> registry fallible" where
  "init_logger open_file level log_file reg =
     (if reg global_logger_name \<noteq> None then Inr reg
      else
        (let register = (\<lambda>sinks. reg(global_logger_name \<mapsto>
               \<lparr>logger_sinks = sinks, logger_pattern = pattern_of_fabko, logger_level = level\<rparr>))
         in if log_file = [] then Inr (register [Console_Sink])
            else and_then (open_file log_file) (\<lambda>_. Inr (register [Console_Sink, File_Sink log_file]))))"

text \<open>
  The log functions use the pointer the registry gives them: a null pointer before the logger is set
  up. A message below the level of the logger is dropped.
\<close>

definition log_message :: "log_level \<Rightarrow> string \<Rightarrow> registry \<Rightarrow> (log_sink \<times> string) list fallible" where
  "log_message level msg reg =
     (case reg global_logger_name of
        None \<Rightarrow> Inl Undefined_Behaviour
      | Some l \<Rightarrow>
          Inr (if level_rank (logger_level l) \<le> level_rank level
               then map (\<lambda>s. (s, msg)) (logger_sinks l) else []))"

definition log_info where "log_info = log_message Level_Info"
definition log_trace where "log_trace = log_message Level_Trace"
definition log_debug where "log_debug = log_message Level_Debug"
definition log_warn where "log_warn = log_message Level_Warn"
definition log_error where "log_error = log_message Level_Err"

section \<open>The program\<close>

record cli_data =
  cli_log_level :: log_level
  cli_log_file :: string

definition default_cli_data :: cli_data where
  "default_cli_data = \<lparr>cli_log_level = Level_Info, cli_log_file = ''/tmp/fabko.log''\<rparr>"

definition set_log_level :: "(string \<Rightarrow> log_level) \<Rightarrow> string \<Rightarrow> cli_data \<Rightarrow> cli_data" where
  "set_log_level from_str val d = d\<lparr>cli_log_level := from_str val\<rparr>"

definition set_log_file :: "string \<Rightarrow> cli_data \<Rightarrow> cli_data" where
  "set_log_file val d = d\<lparr>cli_log_file := val\<rparr>"

definition pre_executed_handler ::
    "(string \<Rightarrow> unit fallible) \<Rightarrow> cli_data \<Rightarrow> registry \<Rightarrow> registry fallible" where
  "pre_executed_handler open_file d reg = init_logger open_file (cli_log_level d) (cli_log_file d) reg"

text \<open>
  The end of \<open>main\<close>, after the option parser of FiL called the handlers it chose and returned whether
  it succeeded.
\<close>

definition main_exit :: "bool \<Rightarrow> registry \<Rightarrow> ((log_sink \<times> string) list \<times> int) fallible" where
  "main_exit parsed reg =
     (if parsed then Inr ([], 0)
      else and_then (log_error ''Command line error occurred'' reg) (\<lambda>lines. Inr (lines, 1)))"

definition fabko_version :: "nat \<Rightarrow> nat \<Rightarrow> nat \<Rightarrow> nat" where
  "fabko_version major minor patch = major * 10000 + minor * 100 + patch"

section \<open>The logger is set up once\<close>

lemma init_logger_registers:
  assumes "init_logger open_file level log_file reg = Inr reg'"
  shows "reg' global_logger_name \<noteq> None" and "\<And>n. n \<noteq> global_logger_name \<Longrightarrow> reg' n = reg n"
  using assms by (auto simp: init_logger_def Let_def and_then_def split: if_splits sum.splits)

text \<open>
  C39. The first call of \<open>init_logger\<close> that succeeds decides: after it every call succeeds and changes
  nothing, whatever its level and file, and messages reach the console and the file of the first call
  from its level on. Before it every log function uses a null pointer, also the one \<open>main\<close> reports a
  command line error with.
\<close>

theorem init_logger_first_decides:
  assumes "reg global_logger_name = None" and "init_logger open_file level log_file reg = Inr reg'"
  shows "init_logger open_file' level' log_file' reg' = Inr reg' \<and>
    log_message l msg reg' =
      Inr (if level_rank level \<le> level_rank l
           then (Console_Sink, msg) # (if log_file = [] then [] else [(File_Sink log_file, msg)]) else []) \<and>
    (\<exists>lines. main_exit False reg' = Inr (lines, 1)) \<and>
    log_message l msg reg = Inl Undefined_Behaviour \<and> main_exit False reg = Inl Undefined_Behaviour"
proof -
  have reg': "reg' global_logger_name = Some
      \<lparr>logger_sinks = Console_Sink # (if log_file = [] then [] else [File_Sink log_file]),
       logger_pattern = pattern_of_fabko, logger_level = level\<rparr>"
    using assms by (auto simp: init_logger_def Let_def and_then_def split: if_splits sum.splits)
  then show ?thesis
    using assms(1) by (simp add: init_logger_def log_message_def main_exit_def log_error_def)
qed

theorem init_logger_first_decides_witness:
  "\<exists>reg'. pre_executed_handler (\<lambda>_. Inr ()) default_cli_data Map.empty = Inr reg' \<and>
     init_logger (\<lambda>_. Inr ()) Level_Trace [] reg' = Inr reg' \<and>
     log_message Level_Debug ''x'' reg' = Inr [] \<and>
     log_message Level_Warn ''x'' reg' = Inr [(Console_Sink, ''x''), (File_Sink ''/tmp/fabko.log'', ''x'')]"
proof -
  obtain reg' where r: "init_logger (\<lambda>_. Inr ()) Level_Info ''/tmp/fabko.log'' Map.empty = Inr reg'"
    by (simp add: init_logger_def)
  from init_logger_first_decides [OF _ r, of "\<lambda>_. Inr ()" Level_Trace "[]" Level_Debug "''x''"]
    init_logger_first_decides [OF _ r, of "\<lambda>_. Inr ()" Level_Trace "[]" Level_Warn "''x''"] r
  show ?thesis
    by (auto simp: pre_executed_handler_def default_cli_data_def)
qed

end
