(* ===== verification/Fabko_Main.thy ===== *)
theory Fabko_Main
  imports Sat_Cli Fabko_Cli
begin

text \<open>
  \<open>main\<close> of \<open>fabko.cpp\<close> with the handlers of \<open>cli.hh\<close> and the logger they write to: what the parts do
  together. The option parser of FiL is a parameter: which handlers it calls for the arguments, in which
  order, and whether it succeeds. Of the messages, those of the command are modelled; the reader writes
  none, and those of the solver in between are left out.
\<close>

section \<open>The messages of the command\<close>

type_synonym log_lines = "(log_sink \<times> string) list"

definition processing_message :: "string \<Rightarrow> string" where
  "processing_message file = ''processing file: '' @ file"

definition no_solution_message :: "string \<Rightarrow> string" where
  "no_solution_message file = ''no solution found for '' @ file"

definition invalid_file_message :: "string \<Rightarrow> string" where
  "invalid_file_message file =
     ''file '' @ file @ '' is not a valid CNF file, it should exists and have a .cnf extension''"

definition count_message :: "nat \<Rightarrow> string" where
  "count_message n = ''file to process count : '' @ string_of_nat n"

definition no_file_message :: string where
  "no_file_message =
     ''no file provided to the SAT solver, please use --cnf-file or -c option to provide a file''"

section \<open>The handlers of the command\<close>

text \<open>The handler of \<open>--cnf-file\<close>: the messages and the files.\<close>

definition cnf_file_option ::
    "(string \<Rightarrow> file_view) \<Rightarrow> registry \<Rightarrow> string list \<Rightarrow> string \<Rightarrow> (log_lines \<times> string list) fallible" where
  "cnf_file_option fs reg files path =
     (if fs path = Missing \<or> \<not> has_extension path \<or> extension path \<noteq> ''.cnf''
      then and_then (log_error (invalid_file_message path) reg) (\<lambda>lines. Inr (lines, files))
      else Inr ([], files @ [path]))"

text \<open>The solver on one file; \<open>None\<close> when it does not return.\<close>

definition solve_file ::
    "('vs, 'cs) platform \<Rightarrow> (nat \<Rightarrow> nat) \<Rightarrow> (string \<Rightarrow> file_view) \<Rightarrow> string \<Rightarrow>
     solver_result list fallible option" where
  "solve_file P grow fs file =
     (case make_model_from_cnf_file (ndebug P) grow (fs file) of
        Inl e \<Rightarrow> Some (Inl e)
      | Inr m \<Rightarrow>
          (case make_solver_context P m of
             Inl e \<Rightarrow> Some (Inl e)
           | Inr ctx \<Rightarrow> map_option fst (solve P ctx 1)))"

text \<open>The loop over the files: the messages, the results and the exception that ended it, if any.\<close>

fun process_logged ::
    "('vs, 'cs) platform \<Rightarrow> (nat \<Rightarrow> nat) \<Rightarrow> (string \<Rightarrow> file_view) \<Rightarrow> registry \<Rightarrow> string list \<Rightarrow>
     (log_lines \<times> solver_result list list \<times> unit fallible) option" where
  "process_logged P grow fs reg [] = Some ([], [], Inr ())"
| "process_logged P grow fs reg (file # files) =
     (case log_info (processing_message file) reg of
        Inl e \<Rightarrow> Some ([], [], Inl e)
      | Inr l1 \<Rightarrow>
          (case solve_file P grow fs file of
             None \<Rightarrow> None
           | Some (Inl e) \<Rightarrow> Some (l1, [], Inl e)
           | Some (Inr results) \<Rightarrow>
               (case if results = [] then log_warn (no_solution_message file) reg else Inr [] of
                  Inl e \<Rightarrow> Some (l1, [results], Inl e)
                | Inr l2 \<Rightarrow>
                    map_option (\<lambda>(lines, rest, out). (l1 @ l2 @ lines, results # rest, out))
                      (process_logged P grow fs reg files))))"

definition sat_handler ::
    "('vs, 'cs) platform \<Rightarrow> (nat \<Rightarrow> nat) \<Rightarrow> (string \<Rightarrow> file_view) \<Rightarrow> registry \<Rightarrow> string list \<Rightarrow>
     (log_lines \<times> solver_result list list \<times> unit fallible) option" where
  "sat_handler P grow fs reg files =
     (case log_info ''execution of the SAT solver command line interface'' reg of
        Inl e \<Rightarrow> Some ([], [], Inl e)
      | Inr l1 \<Rightarrow>
          (if files = []
           then (case log_error no_file_message reg of
                   Inl e \<Rightarrow> Some (l1, [], Inl e) | Inr l2 \<Rightarrow> Some (l1 @ l2, [], Inr ()))
           else
             (case log_info (count_message (length files)) reg of
                Inl e \<Rightarrow> Some (l1, [], Inl e)
              | Inr l2 \<Rightarrow>
                  map_option (\<lambda>(lines, rss, out). (l1 @ l2 @ lines, rss, out))
                    (process_logged P grow fs reg files))))"

section \<open>The program\<close>

datatype cli_call =
    Log_Level_Option string
  | Log_File_Option string
  | Cnf_File_Option string
  | Pre_Executed
  | Sat_Command

record main_state =
  main_data :: cli_data
  main_registry :: registry
  main_files :: "string list"
  main_lines :: log_lines
  main_results :: "solver_result list list"

text \<open>What the process and its system provide.\<close>

record ('vs, 'cs) process =
  process_platform :: "('vs, 'cs) platform"
  vector_growth :: "nat \<Rightarrow> nat"
  file_system :: "string \<Rightarrow> file_view"
  open_log_file :: "string \<Rightarrow> unit fallible"
  level_from_str :: "string \<Rightarrow> log_level"

fun handle_call ::
    "('vs, 'cs) process \<Rightarrow> cli_call \<Rightarrow> main_state \<Rightarrow> (main_state \<times> unit fallible) option" where
  "handle_call S (Log_Level_Option val) st =
     Some (st\<lparr>main_data := set_log_level (level_from_str S) val (main_data st)\<rparr>, Inr ())"
| "handle_call S (Log_File_Option val) st = Some (st\<lparr>main_data := set_log_file val (main_data st)\<rparr>, Inr ())"
| "handle_call S (Cnf_File_Option val) st =
     Some (case cnf_file_option (file_system S) (main_registry st) (main_files st) val of
             Inl e \<Rightarrow> (st, Inl e)
           | Inr (lines, files) \<Rightarrow> (st\<lparr>main_lines := main_lines st @ lines, main_files := files\<rparr>, Inr ()))"
| "handle_call S Pre_Executed st =
     Some (case pre_executed_handler (open_log_file S) (main_data st) (main_registry st) of
             Inl e \<Rightarrow> (st, Inl e)
           | Inr reg \<Rightarrow> (st\<lparr>main_registry := reg\<rparr>, Inr ()))"
| "handle_call S Sat_Command st =
     map_option (\<lambda>(lines, rss, out). (st\<lparr>main_lines := main_lines st @ lines, main_results := rss\<rparr>, out))
       (sat_handler (process_platform S) (vector_growth S) (file_system S) (main_registry st) (main_files st))"

text \<open>The calls in their order, up to the first that throws.\<close>

fun handle_calls ::
    "('vs, 'cs) process \<Rightarrow> cli_call list \<Rightarrow> main_state \<Rightarrow> (main_state \<times> unit fallible) option" where
  "handle_calls S [] st = Some (st, Inr ())"
| "handle_calls S (c # cs) st =
     (case handle_call S c st of
        None \<Rightarrow> None
      | Some (st', Inl e) \<Rightarrow> Some (st', Inl e)
      | Some (st', Inr _) \<Rightarrow> handle_calls S cs st')"

definition main_start :: "registry \<Rightarrow> main_state" where
  "main_start reg =
     \<lparr>main_data = default_cli_data, main_registry = reg, main_files = [], main_lines = [], main_results = []\<rparr>"

definition fabko_main ::
    "('vs, 'cs) process \<Rightarrow> (string list \<Rightarrow> cli_call list \<times> bool) \<Rightarrow> registry \<Rightarrow> string list \<Rightarrow>
     (main_state \<times> int fallible) option" where
  "fabko_main S parse_command_line reg argv =
     (let (calls, parsed) = parse_command_line argv
      in case handle_calls S calls (main_start reg) of
           None \<Rightarrow> None
         | Some (st, Inl e) \<Rightarrow> Some (st, Inl e)
         | Some (st, Inr _) \<Rightarrow>
             Some (case main_exit parsed (main_registry st) of
                     Inl e \<Rightarrow> (st, Inl e)
                   | Inr (lines, code) \<Rightarrow> (st\<lparr>main_lines := main_lines st @ lines\<rparr>, Inr code)))"

section \<open>With a logger\<close>

text \<open>What a logger writes for a message, and what the command writes for its files and their results.\<close>

definition written :: "logger \<Rightarrow> log_level \<Rightarrow> string \<Rightarrow> log_lines" where
  "written l level msg =
     (if level_rank (logger_level l) \<le> level_rank level then map (\<lambda>s. (s, msg)) (logger_sinks l) else [])"

fun command_lines :: "logger \<Rightarrow> string list \<Rightarrow> solver_result list list \<Rightarrow> log_lines" where
  "command_lines l [] rss = []"
| "command_lines l (f # fs) [] = written l Level_Info (processing_message f)"
| "command_lines l (f # fs) (rs # rss) =
     written l Level_Info (processing_message f) @
     (if rs = [] then written l Level_Warn (no_solution_message f) else []) @ command_lines l fs rss"

lemma log_written:
  assumes "reg global_logger_name = Some l"
  shows "log_info msg reg = Inr (written l Level_Info msg)"
    and "log_warn msg reg = Inr (written l Level_Warn msg)"
    and "log_error msg reg = Inr (written l Level_Err msg)"
  using assms by (simp_all add: log_info_def log_warn_def log_error_def log_message_def written_def)

text \<open>With a logger the handlers do what the definitions of \<open>Sat_Cli\<close> do, which write nothing.\<close>

lemma cnf_file_option_files:
  assumes "reg global_logger_name = Some l"
  shows "\<exists>lines. cnf_file_option fs reg files path = Inr (lines, add_cnf_file fs files path) \<and>
    lines = (if add_cnf_file fs files path = files then written l Level_Err (invalid_file_message path) else [])"
  using log_written(3) [of reg l, OF assms] by (auto simp: cnf_file_option_def add_cnf_file_def)

lemma process_logged_files:
  assumes "reg global_logger_name = Some l"
  shows "process_logged P grow fs reg files =
    map_option (\<lambda>(rss, out). (command_lines l files rss, rss, out)) (process_files P grow fs files)"
  by (induction files)
    (simp_all add: log_written [of reg l, OF assms] solve_file_def option.map_comp comp_def case_prod_beta
      split: sum.split option.split prod.split)

lemma sat_handler_command:
  assumes "reg global_logger_name = Some l" and "files \<noteq> []"
  shows "sat_handler P grow fs reg files =
    map_option (\<lambda>(rss, out).
        (written l Level_Info ''execution of the SAT solver command line interface'' @
         written l Level_Info (count_message (length files)) @ command_lines l files rss, rss, out))
      (sat_command P grow fs files)"
  using assms(2)
  by (cases "process_files P grow fs files")
    (simp_all add: sat_handler_def log_written [of reg l, OF assms(1)] process_logged_files [of reg l, OF assms(1)]
      sat_command_def case_prod_beta)

section \<open>Options\<close>

text \<open>The files that options name, and the data of the command line after them.\<close>

fun named_files :: "cli_call list \<Rightarrow> string list" where
  "named_files [] = []"
| "named_files (c # cs) = (case c of Cnf_File_Option f \<Rightarrow> f # named_files cs | _ \<Rightarrow> named_files cs)"

fun data_after :: "('vs, 'cs) process \<Rightarrow> cli_call list \<Rightarrow> cli_data \<Rightarrow> cli_data" where
  "data_after S [] d = d"
| "data_after S (c # cs) d =
     data_after S cs
       (case c of
          Log_Level_Option v \<Rightarrow> set_log_level (level_from_str S) v d
        | Log_File_Option v \<Rightarrow> set_log_file v d
        | _ \<Rightarrow> d)"

text \<open>An option whose handler does not write: of the log, or a file that is accepted.\<close>

definition quiet_option :: "('vs, 'cs) process \<Rightarrow> cli_call \<Rightarrow> bool" where
  "quiet_option S c \<longleftrightarrow>
     (case c of
        Cnf_File_Option f \<Rightarrow> file_system S f \<noteq> Missing \<and> extension f = ''.cnf''
      | Log_Level_Option v \<Rightarrow> True
      | Log_File_Option v \<Rightarrow> True
      | _ \<Rightarrow> False)"

lemma handle_options:
  assumes "\<forall>c\<in>set opts. quiet_option S c"
  shows "handle_calls S (opts @ calls) st =
    handle_calls S calls
      (st\<lparr>main_data := data_after S opts (main_data st), main_files := main_files st @ named_files opts\<rparr>)"
  using assms
proof (induction opts arbitrary: st)
  case (Cons c opts)
  then show ?case
    by (cases c) (simp_all add: quiet_option_def cnf_file_option_def has_extension_def)
qed simp

section \<open>The properties\<close>

text \<open>
  C17. On a command line whose options are of the log or name files the solver can decide, in any order
  around the handler that sets up the logger, followed by the \<open>sat\<close> command, the program exits with
  0: the logger has the level and the file of the options before it was set up, each file has a right
  result, and the command writes the number of files, each file, and a warning for exactly the files
  without a solution.
\<close>

theorem fabko_main_reports:
  assumes "solver_platform (process_platform S)" and "reg global_logger_name = None"
    and "parse_command_line argv = (opts @ Pre_Executed # opts' @ [Sat_Command], True)"
    and "\<forall>c\<in>set (opts @ opts'). quiet_option S c"
    and "named_files (opts @ opts') \<noteq> []"
    and "\<forall>f\<in>set (named_files (opts @ opts')).
      decidable_file (ndebug (process_platform S)) (vector_growth S) (file_system S f)"
    and "\<forall>f. open_log_file S f = Inr ()"
  shows "\<exists>st l. fabko_main S parse_command_line reg argv = Some (st, Inr 0) \<and>
    main_registry st global_logger_name = Some l \<and>
    pre_executed_handler (open_log_file S) (data_after S opts default_cli_data) reg = Inr (main_registry st) \<and>
    list_all2 (results_right (ndebug (process_platform S)) (vector_growth S))
      (map (file_system S) (named_files (opts @ opts'))) (main_results st) \<and>
    main_lines st =
      written l Level_Info ''execution of the SAT solver command line interface'' @
      written l Level_Info (count_message (length (named_files (opts @ opts')))) @
      command_lines l (named_files (opts @ opts')) (main_results st)"
proof -
  let ?files = "named_files (opts @ opts')"
  let ?d = "data_after S opts default_cli_data"
  obtain reg' where init: "pre_executed_handler (open_log_file S) ?d reg = Inr reg'"
    using assms(2,7)
    by (cases "cli_log_file ?d = []") (auto simp: pre_executed_handler_def init_logger_def Let_def)
  then obtain l where l: "reg' global_logger_name = Some l"
    using init_logger_registers(1) unfolding pre_executed_handler_def by blast
  obtain rss where cmd: "sat_command (process_platform S) (vector_growth S) (file_system S) ?files = Some (rss, Inr ())"
    and right: "list_all2 (results_right (ndebug (process_platform S)) (vector_growth S)) (map (file_system S) ?files) rss"
    using process_decidable [OF assms(1,6)] assms(5) unfolding sat_command_def by auto
  have files: "named_files (xs @ ys) = named_files xs @ named_files ys" for xs ys
    by (induction xs) (auto split: cli_call.split)
  let ?lines = "written l Level_Info ''execution of the SAT solver command line interface'' @
      written l Level_Info (count_message (length ?files)) @ command_lines l ?files rss"
  have sat: "sat_handler (process_platform S) (vector_growth S) (file_system S) reg' ?files = Some (?lines, rss, Inr ())"
    unfolding sat_handler_command [of reg' l, OF l assms(5)] cmd by simp
  define st1 where "st1 = (main_start reg)\<lparr>main_data := ?d, main_files := named_files opts, main_registry := reg'\<rparr>"
  define st2 where "st2 = st1\<lparr>main_data := data_after S opts' ?d, main_files := ?files\<rparr>"
  define st where "st = st2\<lparr>main_lines := ?lines, main_results := rss\<rparr>"
  have q: "\<forall>c\<in>set opts. quiet_option S c" "\<forall>c\<in>set opts'. quiet_option S c" using assms(4) by auto
  have "handle_calls S (opts @ Pre_Executed # opts' @ [Sat_Command]) (main_start reg) =
      handle_calls S (opts' @ [Sat_Command]) st1"
    unfolding handle_options [OF q(1)] using init by (simp add: st1_def main_start_def)
  also have "\<dots> = handle_calls S [Sat_Command] st2"
    unfolding handle_options [OF q(2)] by (simp add: st2_def st1_def main_start_def files)
  also have "\<dots> = Some (st, Inr ())"
    using sat by (simp add: st_def st2_def st1_def main_start_def)
  finally have "handle_calls S (opts @ Pre_Executed # opts' @ [Sat_Command]) (main_start reg) = Some (st, Inr ())" .
  then have "fabko_main S parse_command_line reg argv = Some (st, Inr 0)"
    by (simp add: fabko_main_def assms(3) main_exit_def)
  then show ?thesis using l init right by (intro exI [of _ st] exI [of _ l]) (simp add: st_def st2_def st1_def)
qed

definition example_process :: "(var_struct list, clause_struct list) process" where
  "example_process =
     \<lparr>process_platform = on_lists, vector_growth = doubling, file_system = example_files,
      open_log_file = (\<lambda>_. Inr ()), level_from_str = (\<lambda>_. Level_Warn)\<rparr>"

theorem fabko_main_reports_witness:
  "\<exists>st r. fabko_main example_process
      (\<lambda>_. ([Cnf_File_Option ''a.cnf'', Log_Level_Option ''warn'', Pre_Executed, Cnf_File_Option ''dir.x/b.cnf'',
             Sat_Command], True)) Map.empty [] = Some (st, Inr 0) \<and>
     main_results st = [[r], []] \<and>
     main_lines st =
       [(Console_Sink, ''no solution found for dir.x/b.cnf''),
        (File_Sink ''/tmp/fabko.log'', ''no solution found for dir.x/b.cnf'')]"
proof -
  let ?opts = "[Cnf_File_Option ''a.cnf'', Log_Level_Option ''warn'']"
  let ?opts' = "[Cnf_File_Option ''dir.x/b.cnf'']"
  have S: "solver_platform (process_platform example_process)" "\<forall>f. open_log_file example_process f = Inr ()"
    using on_lists_platform by (simp_all add: example_process_def)
  have quiet: "\<forall>c\<in>set (?opts @ ?opts'). quiet_option example_process c"
    by (simp add: quiet_option_def example_process_def example_files_def) (simp add: extension_def filename_def)
  have names: "named_files (?opts @ ?opts') = [''a.cnf'', ''dir.x/b.cnf'']" by simp
  have dec: "\<forall>f\<in>set (named_files (?opts @ ?opts')). decidable_file (ndebug (process_platform example_process))
      (vector_growth example_process) (file_system example_process f)"
    using example_decidable unfolding names by (simp add: example_process_def)
  obtain st l where main: "fabko_main example_process
      (\<lambda>_. (?opts @ Pre_Executed # ?opts' @ [Sat_Command], True)) Map.empty [] = Some (st, Inr 0)"
    and l: "main_registry st global_logger_name = Some l"
    and init: "pre_executed_handler (open_log_file example_process) (data_after example_process ?opts default_cli_data)
      Map.empty = Inr (main_registry st)"
    and right: "list_all2 (results_right (ndebug (process_platform example_process)) (vector_growth example_process))
      (map (file_system example_process) [''a.cnf'', ''dir.x/b.cnf'']) (main_results st)"
    and lines: "main_lines st =
      written l Level_Info ''execution of the SAT solver command line interface'' @
      written l Level_Info (count_message (length [''a.cnf'', ''dir.x/b.cnf''])) @
      command_lines l [''a.cnf'', ''dir.x/b.cnf''] (main_results st)"
    using fabko_main_reports [where argv = "[]" and reg = Map.empty, OF S(1) _ refl quiet _ dec S(2)] unfolding names
    by auto
  have l': "l = \<lparr>logger_sinks = [Console_Sink, File_Sink ''/tmp/fabko.log''], logger_pattern = pattern_of_fabko,
      logger_level = Level_Warn\<rparr>"
  proof -
    have "main_registry st = [global_logger_name \<mapsto> \<lparr>logger_sinks = [Console_Sink, File_Sink ''/tmp/fabko.log''],
        logger_pattern = pattern_of_fabko, logger_level = Level_Warn\<rparr>]"
      using init by (simp add: pre_executed_handler_def init_logger_def example_process_def default_cli_data_def
          set_log_level_def)
    then show ?thesis using l by simp
  qed
  have "results_right False doubling (Readable example_text) (hd (main_results st))"
    "results_right False doubling (Readable contradiction_text) (hd (tl (main_results st)))"
    "length (main_results st) = 2"
    using right by (auto simp: example_process_def example_files_def list_all2_Cons1)
  moreover from this obtain r where "hd (main_results st) = [r]"
    using example_text_read example_satisfiable by (auto simp: results_right_def)
  moreover have "hd (tl (main_results st)) = []"
    using calculation(2) contradiction_text_read example_unsatisfiable by (auto simp: results_right_def)
  ultimately have "main_results st = [[r], []]"
    by (cases "main_results st"; cases "tl (main_results st)") auto
  then show ?thesis using main lines by (simp add: l' written_def no_solution_message_def)
qed

text \<open>
  A file that is not accepted is reported and ignored once the logger is set up. Before that the
  report goes through a null pointer; so the order in which the option parser calls its handlers decides.
\<close>

lemma fabko_main_invalid_file:
  assumes "file_system S path = Missing \<or> extension path \<noteq> ''.cnf''"
  shows "reg global_logger_name = None \<Longrightarrow> \<forall>c\<in>set opts. quiet_option S c \<Longrightarrow>
      parse_command_line argv = (opts @ Cnf_File_Option path # calls, parsed) \<Longrightarrow>
      \<exists>st. fabko_main S parse_command_line reg argv = Some (st, Inl Undefined_Behaviour)"
    and "main_registry st global_logger_name = Some l \<Longrightarrow>
      handle_call S (Cnf_File_Option path) st =
        Some (st\<lparr>main_lines := main_lines st @ written l Level_Err (invalid_file_message path)\<rparr>, Inr ())"
proof -
  show "\<exists>st. fabko_main S parse_command_line reg argv = Some (st, Inl Undefined_Behaviour)"
    if "reg global_logger_name = None" "\<forall>c\<in>set opts. quiet_option S c"
      "parse_command_line argv = (opts @ Cnf_File_Option path # calls, parsed)"
    using that assms
    by (auto simp: fabko_main_def handle_options cnf_file_option_def log_error_def log_message_def main_start_def)
  show "handle_call S (Cnf_File_Option path) st =
      Some (st\<lparr>main_lines := main_lines st @ written l Level_Err (invalid_file_message path)\<rparr>, Inr ())"
    if "main_registry st global_logger_name = Some l"
    using assms log_written(3) [of "main_registry st" l, OF that] by (auto simp: cnf_file_option_def)
qed

end
