(* ===== verification/Language_Helpers.thy ===== *)
theory Language_Helpers
  imports Cnf_Reader
begin

text \<open>
  \<open>fabko/common/ranges_to.hh\<close> and \<open>visitor_utils.hh\<close>: the copy of a range into a vector, with the
  capacity of the vector and how often it allocates, and a set of overloads, which picks its function by
  the alternative a variant holds.
\<close>

section \<open>Ranges into vectors\<close>

record 'a vec =
  vec_elements :: "'a list"
  vec_capacity :: nat
  vec_allocations :: nat

definition empty_vec :: "'a vec" where
  "empty_vec = \<lparr>vec_elements = [], vec_capacity = 0, vec_allocations = 0\<rparr>"

text \<open>What a \<open>reserve\<close> that allocates allocates, and how the vector grows, is the library's.\<close>

definition vec_reserve :: "(nat \<Rightarrow> nat) \<Rightarrow> nat \<Rightarrow> 'a vec \<Rightarrow> 'a vec" where
  "vec_reserve reserved n v =
     (if n \<le> vec_capacity v then v
      else v\<lparr>vec_capacity := reserved n, vec_allocations := vec_allocations v + 1\<rparr>)"

definition vec_push_back :: "(nat \<Rightarrow> nat) \<Rightarrow> 'a \<Rightarrow> 'a vec \<Rightarrow> 'a vec" where
  "vec_push_back grow x v =
     v\<lparr>vec_elements := vec_elements v @ [x],
       vec_capacity := grown grow (length (vec_elements v)) (vec_capacity v),
       vec_allocations := vec_allocations v + (if length (vec_elements v) < vec_capacity v then 0 else 1)\<rparr>"

text \<open>A range is its elements, with its size when that can be asked for.\<close>

definition to_vector :: "(nat \<Rightarrow> nat) \<Rightarrow> (nat \<Rightarrow> nat) \<Rightarrow> nat option \<Rightarrow> 'a list \<Rightarrow> 'a vec" where
  "to_vector reserved grow range_size r =
     fold (vec_push_back grow) r
       (case range_size of None \<Rightarrow> empty_vec | Some n \<Rightarrow> vec_reserve reserved n empty_vec)"

lemma push_all_elements: "vec_elements (fold (vec_push_back grow) r v) = vec_elements v @ r"
  by (induction r arbitrary: v) (simp_all add: vec_push_back_def)

lemma push_all_room:
  "length (vec_elements v) + length r \<le> vec_capacity v \<Longrightarrow>
   vec_capacity (fold (vec_push_back grow) r v) = vec_capacity v \<and>
   vec_allocations (fold (vec_push_back grow) r v) = vec_allocations v"
  by (induction r arbitrary: v) (simp_all add: vec_push_back_def grown_def)

text \<open>The vector has the elements of the range, in order; a range that knows its size costs one allocation.\<close>

lemma to_vector_copies:
  "vec_elements (to_vector reserved grow range_size r) = r"
  by (simp add: to_vector_def push_all_elements vec_reserve_def empty_vec_def split: option.split)

lemma to_vector_allocates_once:
  assumes "length r \<le> reserved (length r)"
  shows "vec_allocations (to_vector reserved grow (Some (length r)) r) = (if r = [] then 0 else 1)"
    and "r \<noteq> [] \<Longrightarrow> vec_capacity (to_vector reserved grow (Some (length r)) r) = reserved (length r)"
  using assms push_all_room [of "vec_reserve reserved (length r) empty_vec" r grow]
  by (auto simp: to_vector_def vec_reserve_def empty_vec_def)

section \<open>Overloads\<close>

definition overload_set :: "('a \<Rightarrow> 'c) \<Rightarrow> ('b \<Rightarrow> 'c) \<Rightarrow> 'a + 'b \<Rightarrow> 'c" where
  "overload_set f g v = (case v of Inl a \<Rightarrow> f a | Inr b \<Rightarrow> g b)"

end
