(* ===== verification/Repository_Tests.thy ===== *)
theory Repository_Tests
  imports Fabl_Parser Fabko_Main
begin

text \<open>
  The tests and example files of the repository, replayed on the model: the watcher tests of
  \<open>tests/compiler/soa/watcher_testcase.cpp\<close>, the texts of \<open>tests/compiler/parser_testcase.cpp\<close> with the
  parser that interprets the combinators, and the two CNF files. What the parser tests say of the tree is
  not replayed: the sinks of the library build it.
\<close>

section \<open>Parser tests\<close>

text \<open>Lines of a text; the content of each section between the quotes of its raw string.\<close>

definition of_lines :: "string list \<Rightarrow> string" where
  "of_lines ls = concat (map (\<lambda>l. l @ [newline]) (butlast ls)) @ last ls"

definition actor_accepted :: "string list \<Rightarrow> bool" where
  "actor_accepted ls =
     (case peg (rules Actor_Definition) (of_lines ls) of
        Some (Some r) \<Rightarrow> skip_ws r = []
      | _ \<Rightarrow> False)"

lemma test_actor_empty:
  "actor_accepted
     ['''',
      ''           actor dada { };'',
      ''        '']"
  by code_simp

lemma test_actor_1_has:
  "actor_accepted
     ['''',
      ''           actor dada {'',
      ''                has 4 chocobo;'',
      ''            };'',
      ''        '']"
  by code_simp

lemma test_actor_multiple_has:
  "actor_accepted
     ['''',
      ''           actor ff7 {'',
      ''                has 4 chocobo;'',
      ''                has 2 cloud;'',
      ''            };'',
      ''        '']"
  by code_simp

lemma test_actor_can_single_identifier:
  "actor_accepted
     ['''',
      ''           actor chocobo {'',
      ''                can fly;'',
      ''            };'',
      ''        '']"
  by code_simp

lemma test_actor_can_multiple_identifiers:
  "actor_accepted
     ['''',
      ''           actor chocobo {'',
      ''                can fly;'',
      ''                can sleep;'',
      ''                can scream;'',
      ''            };'',
      ''        '']"
  by code_simp

lemma test_actor_can_full_single_capability:
  "actor_accepted
     ['''',
      ''           actor chocobo {'',
      ''                can capability fly {'',
      ''                    pre { }'',
      ''                    post { }'',
      ''                };'',
      ''            };'',
      ''        '']"
  by code_simp

lemma test_actor_can_full_multiple_capabilities:
  "actor_accepted
     ['''',
      ''           actor chocobo {'',
      ''                can capability fly {'',
      ''                    pre { }'',
      ''                    post { }'',
      ''                };'',
      ''                can capability sleep {'',
      ''                    pre { }'',
      ''                    post { }'',
      ''                };'',
      ''            };'',
      ''        '']"
  by code_simp

lemma test_actor_pre_with_single_condition:
  "actor_accepted
     ['''',
      ''           actor chocobo {'',
      ''                can capability fly {'',
      ''                    pre { self.altitude == 0; }'',
      ''                    post { }'',
      ''                };'',
      ''            };'',
      ''        '']"
  by code_simp

lemma test_actor_pre_with_multiple_condition:
  "actor_accepted
     ['''',
      ''           actor chocobo {'',
      ''                can capability fly {'',
      ''                    pre {'',
      ''                        self.altitude == 0;'',
      ''                        self.will >= 42;'',
      ''                        self.strength > 1337;'',
      ''                    }'',
      ''                    post { }'',
      ''                };'',
      ''            };'',
      ''        '']"
  by code_simp

lemma test_postcondition_single_assignment:
  "actor_accepted
     ['''',
      ''           actor chocobo {'',
      ''                can capability fly {'',
      ''                    pre {}'',
      ''                    post {'',
      ''                        self.altitude = 42;'',
      ''                    }'',
      ''                };'',
      ''            };'',
      ''        '']"
  by code_simp

lemma test_postcondition_multiple_assignments:
  "actor_accepted
     ['''',
      ''           actor chocobo {'',
      ''                can capability fly {'',
      ''                    pre {}'',
      ''                    post {'',
      ''                        self.altitude = 42;'',
      ''                        self.notoriety = true;'',
      ''                    }'',
      ''                };'',
      ''            };'',
      ''        '']"
  by code_simp

lemma test_expression_identifier:
  "actor_accepted
     ['''',
      ''           actor chocobo {'',
      ''                can capability fly {'',
      ''                    pre {}'',
      ''                    post {'',
      ''                        self.altitude = MAGIC;'',
      ''                    }'',
      ''                };'',
      ''            };'',
      ''        '']"
  by code_simp

lemma test_expression_actor_access:
  "actor_accepted
     ['''',
      ''           actor chocobo {'',
      ''                can capability fly {'',
      ''                    pre {}'',
      ''                    post {'',
      ''                        self.altitude = sky.highest;'',
      ''                    }'',
      ''                };'',
      ''            };'',
      ''        '']"
  by code_simp

lemma test_expression_addition:
  "actor_accepted
     ['''',
      ''           actor chocobo {'',
      ''                can capability fly {'',
      ''                    pre {}'',
      ''                    post {'',
      ''                        self.altitude = self.altitude + 42;'',
      ''                    }'',
      ''                };'',
      ''            };'',
      ''        '']"
  by code_simp

lemma test_expression_complex_expression:
  "actor_accepted
     ['''',
      ''           actor chocobo {'',
      ''                can capability fly {'',
      ''                    pre {}'',
      ''                    post {'',
      ''                        self.altitude = self.altitude + (MAGIC_NUMBER - anotherNumber * 42);'',
      ''                    }'',
      ''                };'',
      ''            };'',
      ''        '']"
  by code_simp

section \<open>Watcher tests\<close>

text \<open>
  Variables 1, 2, \<dots> with the given assignments and a clause of them; what is watched at first, and after
  \<open>replace\<close> once the assignments of three unassigned variables changed.
\<close>

definition test_vars :: "assignment list \<Rightarrow> var_struct list" where
  "test_vars as = map (\<lambda>(n, a). (fresh_var (Literal (int n)))\<lparr>soa_assignment := a\<rparr>) (zip [1..<Suc (length as)] as)"

definition test_clause :: "nat \<Rightarrow> clause" where
  "test_clause n = make_clause (map (\<lambda>i. Literal (int i)) [1..<Suc n]) [0..<n]"

definition watched :: "clause_watcher fallible \<Rightarrow> struct_id list fallible" where
  "watched out = and_then out (\<lambda>w. Inr (get_watched w))"

definition watched_in :: "assignment list \<Rightarrow> struct_id list fallible" where
  "watched_in as = watched (make_clause_watcher on_lists (test_vars as) (test_clause (length as)))"

definition watched_after :: "assignment list \<Rightarrow> struct_id \<Rightarrow> struct_id list fallible" where
  "watched_after as to_replace =
     watched (and_then
       (make_clause_watcher on_lists (test_vars [not_assigned, not_assigned, not_assigned]) (test_clause 3))
       (\<lambda>w. watcher_replace on_lists (test_vars as) (test_clause 3) w to_replace))"

lemma watcher_tests:
  "watched_in [off, off, off] = Inr []"
  "watched_in [off, not_assigned, off] = Inr [1]"
  "watched_in [off, not_assigned, not_assigned] = Inr [1, 2]"
  "watched_in [not_assigned, not_assigned, not_assigned] = Inr [0, 1]"
  "watched_in [not_assigned] = Inr [0]"
  by code_simp+

lemma watcher_replace_tests:
  "watched_after [not_assigned, not_assigned, not_assigned] 2 = Inr [0, 1]"
  "watched_after [not_assigned, not_assigned, not_assigned] 0 = Inr [0, 1]"
  "watched_after [on, not_assigned, not_assigned] 0 = Inr [2, 1]"
  "watched_after [on, not_assigned, on] 0 = Inr [1]"
  by code_simp+

section \<open>CNF files\<close>

text \<open>\<open>tests/_assets/test.dimacs\<close> and \<open>docs/cnf/test.cnf\<close>.\<close>

definition assets_test_dimacs :: string where
  "assets_test_dimacs = of_lines [''p cnf 1 2'', ''1 0'', ''-1 0'', []]"

definition docs_test_cnf :: string where
  "docs_test_cnf =
     of_lines
       [''p cnf 4 4'', [], ''        -1  4       0'', ''        -1  2       0'', ''        -1  3       0'',
        CHR 0x09 # ''-4 -2       0'' @ [CHR 0x09], [], []]"

lemma assets_test_dimacs_unsatisfiable:
  "solve_file on_lists doubling (\<lambda>_. Readable assets_test_dimacs) ''test.cnf'' = Some (Inr [])"
  by code_simp

lemma docs_test_cnf_solved:
  "solve_file on_lists doubling (\<lambda>_. Readable docs_test_cnf) ''test.cnf'' =
     Some (Inr [\<lparr>result_literals = [Literal (- 1), Literal 2, Literal 3, Literal (- 4)]\<rparr>])"
  by code_simp

end
