(* ===== verification/Spec2Isabelle.thy ===== *)
theory Spec2Isabelle
  imports Sat_Properties Sat_Statistics Sat_Cli String_Utils Integer_Sat_Builder Key_Value_Db Kv_Interleaving Acl_Messages Fabl_Properties
    Agent_Protocol Agent_Runner Fabko_Main Language_Helpers
    Repository_Tests
begin

text \<open>
  A verification library for Fabko (\<open>src/fabko\<close>): a SAT solver with its DIMACS reader and command, the
  front end of the language FABL, a key-value store over RocksDB, the messages and the runner of agents,
  and the helpers they share.

  How to read it. A throwing operation returns \<open>fault + 'a\<close>, undefined behaviour is a fault, a loop that
  may not end returns an option whose \<open>None\<close> is not returning. \<open>NDEBUG\<close>, under which \<open>fabko_assert\<close>
  checks nothing, is a parameter. Code outside the repository is a parameter with a locale of laws, and
  every locale is interpreted: the container \<open>fil::soa\<close> (\<open>soa\<close>, lists), the parser combinators of
  \<open>fil::copa\<close> (\<open>copa\<close>, a recursive-descent parser), RocksDB (\<open>rocksdb\<close> and, of its conflicts,
  \<open>optimistic_rocksdb\<close>; a log of insertions) and the JSON library (\<open>json_library\<close>, a datatype of JSON
  values). How a \<open>std::vector\<close> grows, how a file is opened and how spdlog reads a level are functions
  without laws.

  Shared parts.
  \<^item> \<open>Fabko_Prelude\<close>: \<open>loop_until\<close>, the combinator of every unbounded loop, with the locales for partial
    and total correctness, divergence and agreement of loops; texts of numbers, white space.
  \<^item> \<open>Fabko_Exception\<close>: \<open>common/exception.hh\<close>.
  \<^item> \<open>String_Utils\<close>: \<open>common/string_utils.hh\<close>. The splitters end for separators that are not empty,
    their pieces give the input back, and the two overloads agree on one separator.
  \<^item> \<open>Fabko_Cli\<close>: \<open>common/logging\<close>, \<open>cli_base.hh\<close>, \<open>fabko.cpp\<close>, \<open>version.hh\<close>. The first successful
    \<open>init_logger\<close> decides; before it every log function uses a null pointer.
  \<^item> \<open>Language_Helpers\<close>: \<open>common/ranges_to.hh\<close>, \<open>common/visitor_utils.hh\<close>.

  The solver (\<open>compiler/backend/sat\<close>, \<open>compiler/metadata.hh\<close>).
  \<^item> \<open>Fil_Soa\<close>, \<open>Sat_Types\<close>, \<open>Float_Division\<close>, \<open>Sat_Solver\<close>: the container, the data of \<open>solver.hh\<close> and
    \<open>solver_context.hh\<close>, the floating-point divisions with their roundings, and one definition for each
    function of \<open>solver_impl.cpp\<close> and \<open>solver.cpp\<close>, its loops and lambdas included.
  \<^item> \<open>Sat_Invariant\<close>: valuations, solutions, and the search invariant. \<open>Sat_Propagation\<close>,
    \<open>Sat_Backtrack\<close>, \<open>Sat_Conflict\<close>, \<open>Sat_Learning\<close>, \<open>Sat_Activity\<close>, \<open>Sat_Round\<close>: every step keeps it,
    and what the step achieves. \<open>Sat_Constructor\<close>: the constructor establishes it.
  \<^item> \<open>Sat_Correct\<close>, \<open>Sat_Termination\<close>, \<open>Sat_Headroom\<close>: results are right; the loop ends, because each
    conflict learns a clause that was missing, of which there are at most \<open>3 ^ n\<close> for \<open>n\<close> variables, as
    long as the restart threshold does not wrap to 0 and the decay does not overflow an activity;
    for the default configuration nine variables and \<open>10 ^ 9\<close> literal occurrences are within these bounds.
  \<^item> \<open>Sat_Properties\<close>: the properties of the solver.
  \<^item> \<open>Cdcl\<close>, \<open>Sat_Refinement\<close>, \<open>Sat_Simulation\<close>: an abstract transition system for conflict-driven
    clause learning (propagate, decide, learn with a backjump, restart), whose failed and finished states
    answer satisfiability, and the simulation by which the rounds of \<open>solve_sat\<close> are steps of it.
  \<^item> \<open>Sat_Statistics\<close>: what a search costs, from the statistics the solver keeps.
  \<^item> \<open>Cnf_Reader\<close>, \<open>Cnf_Properties\<close>: \<open>make_model_from_cnf_file\<close> over the text of the file, with the
    failure states of streams and the capacities of vectors; from the text to the answer of the solver.
  \<^item> \<open>Sat_Cli\<close>: the command of \<open>cli.hh\<close>, which composes reader, constructor and solver.
  \<^item> \<open>Fabko_Main\<close>: \<open>main\<close>, from the calls the option parser makes to the exit code: options, logger,
    files and command together, with the messages of the command.
  \<^item> \<open>Integer_Sat_Builder\<close>: \<open>compiler/frontend/sat_builder\<close>; its clauses are never satisfiable.

  FABL (\<open>compiler/frontend\<close>).
  \<^item> \<open>Fabl_Ir\<close>, \<open>Fabl_Cst\<close>: the data of \<open>fabl_ir.hh\<close> and \<open>concrete_ast.hh\<close>, the JSON tables of
    \<open>fabl_ir.cpp\<close> with the JSON form of \<open>actor_id\<close>, the conversions of operator tokens.
  \<^item> \<open>Fabl_Grammar\<close>: every structure of \<open>fabl_grammar.hh\<close> as a value of combinators. \<open>Fabl_Parser\<close>: the
    laws of the combinators, and that the parser returns on every text because no grammar enters itself
    before it consumed something.
  \<^item> \<open>Fabl_Words\<close>, \<open>Fabl_Print\<close>, \<open>Fabl_Accepts\<close>, \<open>Fabl_Programs\<close>, \<open>Fabl_Properties\<close>: programs as text, and
    that the grammar reads them to their end; the operators it reads.

  Store and agents.
  \<^item> \<open>Kv_Rocksdb\<close>, \<open>Kv_Properties\<close>, \<open>Key_Value_Db\<close>: \<open>datastore\<close>, a transaction and \<open>kv_db\<close>.
    A commit may fail; the database may change between the calls of a transaction.
  \<^item> \<open>Kv_Interleaving\<close>: the calls of several transactions in any order. One that commits lost no update of
    a key it inserted; updates of a key take effect as in a serial run; what is not so for other keys.
  \<^item> \<open>Acl\<close>, \<open>Acl_Properties\<close>, \<open>Json_Value\<close>, \<open>Acl_Messages\<close>: \<open>agent/protocol/acl.hh\<close>, messages and
    what survives of them when they are serialised.
  \<^item> \<open>Agent_Protocol\<close>: the data and stubs of \<open>fap_request.hh\<close>, \<open>agent_com.hh\<close>, \<open>blackboard\<close>, \<open>action.hh\<close>.
  \<^item> \<open>Agent_Runner\<close>: \<open>agent.cpp\<close>; the caller and the threads of a runner as a step relation, with the
    invariant of its reachable states, how \<open>run\<close> gets out of its join, and the races it allows.

  \<open>Repository_Tests\<close> replays the tests and the example files of the repository on the model: the watcher
  tests, the texts of the parser tests, and the two CNF files.

  Not modelled. The option parser of FiL, which is a parameter of \<open>main\<close>, and the sinks with which its
  parser library builds syntax trees: that they take what the rules of a well-formed program match is a
  law, and nothing is said of other texts. The messages of the solver. The JSON forms of capabilities,
  effects, constraints and programs in \<open>fabl_ir.cpp\<close> (lines 38 to 41): they need conversions of
  \<open>source_loc\<close>, \<open>resource\<close>, \<open>state_var\<close> and \<open>expression\<close> that exist nowhere, so that they cannot be
  instantiated. What \<open>std::stod\<close> reads is a parameter. \<open>deserialize\<close> assumes the implicit conversions of
  the JSON library to be off, as the build asks for. Literal values are
  unbounded integers, bounded where the reader makes them; \<open>normalize_learned\<close> sorts stably: in a
  falsified clause the literals of one variable are equal, so the order of such elements does not matter.
\<close>

end
